(* ===== verification/Prelude.thy ===== *)
theory Prelude
  imports Main "HOL-Library.Word" "HOL-Library.AList"
begin

text \<open>
  What every theory of the development shares: the machine integers of the Rust code as words,
  byte strings, the error type of \<^verbatim>\<open>packt-lib/src/error.rs\<close>, results, slices, and
  little-endian encodings (\<^verbatim>\<open>to_le_bytes\<close> and \<^verbatim>\<open>from_le_bytes\<close> of the standard library).
  Arithmetic on \<^typ>\<open>64 word\<close> and \<^typ>\<open>32 word\<close> wraps, as the release profile of the
  workspace does (it does not switch overflow checks on); \<^verbatim>\<open>usize\<close> has 64 bits.
\<close>

unbundle bit_operations_syntax

type_synonym u8 = "8 word"
type_synonym u32 = "32 word"
type_synonym u64 = "64 word"
type_synonym usize = "64 word"
type_synonym bytes = "u8 list"

section \<open>Errors and results\<close>

text \<open>
  The error enum. A message keeps the fixed part of the text of the source; what
  \<^verbatim>\<open>format!\<close> interpolates from a library error is dropped.
\<close>

datatype packt_error =
    Io string
  | InvalidPackFormat string
  | ChecksumMismatch string string
  | ChunkNotFound string
  | StoreCorrupted string
  | Serialization string
  | Pipeline string
  | Config string
  | Similarity string
  | Cloud string

text \<open>
  A Rust call returns a value, returns an error, or panics (a slice out of range, a failed
  \<^verbatim>\<open>assert!\<close>): the last two are the two kinds of \<open>failure\<close>.
\<close>

datatype failure = Err packt_error | Panic string

type_synonym 'a result = "failure + 'a"

definition bind_res :: "'a result \<Rightarrow> ('a \<Rightarrow> 'b result) \<Rightarrow> 'b result" where
  "bind_res r k = (case r of Inl e \<Rightarrow> Inl e | Inr x \<Rightarrow> k x)"

named_theorems res_simps \<open>equations of results\<close>

lemma bind_res_simps [simp, res_simps]:
  "bind_res (Inl e) k = Inl e"
  "bind_res (Inr x) k = k x"
  by (simp_all add: bind_res_def)

lemma bind_res_eq_Inr [res_simps]:
  "bind_res r k = Inr y \<longleftrightarrow> (\<exists>x. r = Inr x \<and> k x = Inr y)"
  by (cases r) simp_all

lemma bind_res_eq_Inl [res_simps]:
  "bind_res r k = Inl e \<longleftrightarrow> r = Inl e \<or> (\<exists>x. r = Inr x \<and> k x = Inl e)"
  by (cases r) simp_all

definition is_ok :: "'a result \<Rightarrow> bool" where
  "is_ok r = (case r of Inl _ \<Rightarrow> False | Inr _ \<Rightarrow> True)"

lemma is_ok_simps [simp]: "is_ok (Inr x)" "\<not> is_ok (Inl e)"
  by (simp_all add: is_ok_def)

lemma is_ok_iff: "is_ok r \<longleftrightarrow> (\<exists>x. r = Inr x)"
  by (cases r) simp_all

definition panics :: "'a result \<Rightarrow> bool" where
  "panics r = (case r of Inl (Panic _) \<Rightarrow> True | _ \<Rightarrow> False)"

lemma panics_simps [simp]:
  "\<not> panics (Inr x)" "\<not> panics (Inl (Err e))" "panics (Inl (Panic m))"
  by (simp_all add: panics_def)

text \<open>The \<^verbatim>\<open>?\<close> operator on a call that also changes a state.\<close>

definition bind_state :: "'a result \<times> 's \<Rightarrow> ('a \<Rightarrow> 's \<Rightarrow> 'b result \<times> 's) \<Rightarrow> 'b result \<times> 's" where
  "bind_state r k = (case r of (Inl e, s) \<Rightarrow> (Inl e, s) | (Inr x, s) \<Rightarrow> k x s)"

lemma bind_state_simps [simp, res_simps]:
  "bind_state (Inl e, s) k = (Inl e, s)"
  "bind_state (Inr x, s) k = k x s"
  by (simp_all add: bind_state_def)

lemma bind_state_eq_Inr [res_simps]:
  "bind_state r k = (Inr y, s') \<longleftrightarrow> (\<exists>x s. r = (Inr x, s) \<and> k x s = (Inr y, s'))"
  by (auto simp: bind_state_def split: prod.splits sum.splits)

text \<open>\<^verbatim>\<open>.map_err(|e| ...)?\<close> on a library call whose error value is dropped.\<close>

definition or_err :: "packt_error \<Rightarrow> 'a option \<Rightarrow> 'a result" where
  "or_err e x = (case x of None \<Rightarrow> Inl (Err e) | Some v \<Rightarrow> Inr v)"

lemma or_err_simps [simp, res_simps]:
  "or_err e None = Inl (Err e)"
  "or_err e (Some v) = Inr v"
  by (simp_all add: or_err_def)

lemma or_err_eq [res_simps]:
  "or_err e x = Inr v \<longleftrightarrow> x = Some v"
  by (cases x) simp_all

lemma or_err_not_panic [simp]: "or_err e x \<noteq> Inl (Panic m)"
  by (cases x) simp_all

section \<open>Slices\<close>

text \<open>\<^verbatim>\<open>&xs[i..j]\<close>: a panic when the range is not within the slice.\<close>

definition slice :: "nat \<Rightarrow> nat \<Rightarrow> 'a list \<Rightarrow> 'a list result" where
  "slice i j xs =
     (if i \<le> j \<and> j \<le> length xs then Inr (take (j - i) (drop i xs))
      else Inl (Panic ''slice index out of range''))"

lemma slice_ok [simp]:
  "i \<le> j \<Longrightarrow> j \<le> length xs \<Longrightarrow> slice i j xs = Inr (take (j - i) (drop i xs))"
  by (simp add: slice_def)

lemma slice_eq_Inr [res_simps]:
  "slice i j xs = Inr ys \<longleftrightarrow> i \<le> j \<and> j \<le> length xs \<and> ys = take (j - i) (drop i xs)"
  by (auto simp: slice_def)

lemma slice_no_err [simp]: "slice i j xs \<noteq> Inl (Err e)"
  by (simp add: slice_def)

lemma slice_middle: "slice (length xs) (length xs + length ys) (xs @ ys @ zs) = Inr ys"
  by simp

section \<open>Little-endian encodings\<close>

named_theorems codec_simps \<open>round trips and lengths of encodings\<close>

fun nat_to_le :: "nat \<Rightarrow> nat \<Rightarrow> bytes" where
  "nat_to_le 0 x = []"
| "nat_to_le (Suc n) x = of_nat (x mod 256) # nat_to_le n (x div 256)"

fun le_to_nat :: "bytes \<Rightarrow> nat" where
  "le_to_nat [] = 0"
| "le_to_nat (b # bs) = unat b + 256 * le_to_nat bs"

lemma length_nat_to_le [simp, codec_simps]: "length (nat_to_le n x) = n"
  by (induction n arbitrary: x) simp_all

text \<open>For evaluating an encoding at a literal width.\<close>

lemma nat_to_le_numeral:
  "nat_to_le (numeral k) x = of_nat (x mod 256) # nat_to_le (pred_numeral k) (x div 256)"
  by (subst numeral_eq_Suc) (rule nat_to_le.simps)

lemma unat_of_nat_byte: "x < 256 \<Longrightarrow> unat (of_nat x :: u8) = x"
  by (simp add: unat_of_nat take_bit_nat_eq_self)

lemma le_to_nat_to_le: "le_to_nat (nat_to_le n x) = x mod 256 ^ n"
proof (induction n arbitrary: x)
  case 0
  then show ?case by simp
next
  case (Suc n)
  have "x mod 256 + 256 * (x div 256 mod 256 ^ n) = x mod (256 * 256 ^ n)"
    by (simp add: mod_mult2_eq)
  with Suc show ?case by (simp add: unat_of_nat_byte)
qed

definition u64_to_le :: "u64 \<Rightarrow> bytes" where
  "u64_to_le w = nat_to_le 8 (unat w)"

definition u64_from_le :: "bytes \<Rightarrow> u64" where
  "u64_from_le bs = of_nat (le_to_nat bs)"

definition u32_to_le :: "u32 \<Rightarrow> bytes" where
  "u32_to_le w = nat_to_le 4 (unat w)"

definition u32_from_le :: "bytes \<Rightarrow> u32" where
  "u32_from_le bs = of_nat (le_to_nat bs)"

lemma length_u64_to_le [simp, codec_simps]: "length (u64_to_le w) = 8"
  by (simp add: u64_to_le_def)

lemma length_u32_to_le [simp, codec_simps]: "length (u32_to_le w) = 4"
  by (simp add: u32_to_le_def)

lemma u64_le_roundtrip [simp, codec_simps]: "u64_from_le (u64_to_le w) = w"
proof -
  have "unat w < 256 ^ 8" using unsigned_less [of w] by simp
  then show ?thesis by (simp add: u64_from_le_def u64_to_le_def le_to_nat_to_le)
qed

lemma u32_le_roundtrip [simp, codec_simps]: "u32_from_le (u32_to_le w) = w"
proof -
  have "unat w < 256 ^ 4" using unsigned_less [of w] by simp
  then show ?thesis by (simp add: u32_from_le_def u32_to_le_def le_to_nat_to_le)
qed

section \<open>Words read as numbers\<close>

named_theorems word_nat \<open>reading words of known size back\<close>

lemma unat_of_nat_u64 [word_nat]: "n < 2 ^ 64 \<Longrightarrow> unat (of_nat n :: u64) = n"
  by (simp add: unat_of_nat take_bit_nat_eq_self)

lemma unat_of_nat_u32 [word_nat]: "n < 2 ^ 32 \<Longrightarrow> unat (of_nat n :: u32) = n"
  by (simp add: unat_of_nat take_bit_nat_eq_self)

lemma unat_less_u64: "unat (w :: u64) < 2 ^ 64"
  using unsigned_less [of w] by simp

lemma unat_less_u32: "unat (w :: u32) < 2 ^ 32"
  using unsigned_less [of w] by simp

section \<open>Prefixes and suffixes of strings\<close>

text \<open>\<^verbatim>\<open>strip_prefix\<close> and \<^verbatim>\<open>strip_suffix\<close> of the standard library.\<close>

fun strip_prefix :: "string \<Rightarrow> string \<Rightarrow> string option" where
  "strip_prefix [] s = Some s"
| "strip_prefix (p # ps) [] = None"
| "strip_prefix (p # ps) (c # cs) = (if p = c then strip_prefix ps cs else None)"

definition strip_suffix :: "string \<Rightarrow> string \<Rightarrow> string option" where
  "strip_suffix suf s = map_option rev (strip_prefix (rev suf) (rev s))"

lemma strip_prefix_append [simp]: "strip_prefix p (p @ s) = Some s"
  by (induction p) simp_all

lemma strip_prefix_Some: "strip_prefix p s = Some t \<longleftrightarrow> s = p @ t"
  by (induction p s rule: strip_prefix.induct) auto

lemma strip_suffix_append [simp]: "strip_suffix suf (s @ suf) = Some s"
  by (simp add: strip_suffix_def)

lemma strip_suffix_Some: "strip_suffix suf s = Some t \<longleftrightarrow> s = t @ suf"
  by (auto simp: strip_suffix_def strip_prefix_Some) (metis rev_append rev_rev_ident)

section \<open>Lists\<close>

lemma find_Some_in: "List.find P xs = Some x \<Longrightarrow> x \<in> set xs \<and> P x"
  by (induction xs) (auto split: if_splits)

lemma find_None_iff_all: "List.find P xs = None \<longleftrightarrow> (\<forall>x\<in>set xs. \<not> P x)"
  by (induction xs) auto

lemma Suc_length_minus: "h \<in> set xs \<Longrightarrow> Suc (length xs - Suc 0) = length xs"
  by (cases xs) simp_all

lemma filter_neq_id: "h \<notin> set xs \<Longrightarrow> filter (\<lambda>x. x \<noteq> h) xs = xs"
  by (induction xs) auto

lemma length_filter_neq:
  "distinct xs \<Longrightarrow> h \<in> set xs \<Longrightarrow> length (filter (\<lambda>x. x \<noteq> h) xs) = length xs - 1"
  by (induction xs) (auto simp: filter_neq_id Suc_length_minus)

text \<open>Moving an element to the back of a queue.\<close>

lemma set_move_back: "h \<in> set xs \<Longrightarrow> set (remove1 h xs @ [h]) = set xs"
  by (induction xs) auto

lemma length_move_back: "h \<in> set xs \<Longrightarrow> length (remove1 h xs @ [h]) = length xs"
  by (simp add: length_remove1 Suc_length_minus)

lemma ucast_u32_bound: "unat (ucast (l :: u32) :: u64) = unat l"
  using unat_less_u32 [of l] by (simp add: unsigned_ucast_eq take_bit_nat_eq_self)

lemma le_to_nat_less: "le_to_nat bs < 256 ^ length bs"
proof (induction bs)
  case (Cons b bs)
  have "unat b < 256" using unsigned_less [of b] by simp
  moreover have "le_to_nat bs + 1 \<le> 256 ^ length bs" using Cons by simp
  then have "256 * (le_to_nat bs + 1) \<le> 256 * 256 ^ length bs" by (rule mult_le_mono2)
  ultimately show ?case by simp
qed simp

lemma nat_to_le_to_nat: "length bs = n \<Longrightarrow> nat_to_le n (le_to_nat bs) = bs"
proof (induction bs arbitrary: n)
  case (Cons b bs)
  have "unat b < 256" using unsigned_less [of b] by simp
  then have "(unat b + 256 * le_to_nat bs) mod 256 = unat b"
    "(unat b + 256 * le_to_nat bs) div 256 = le_to_nat bs" by simp_all
  with Cons show ?case by auto
qed simp

lemma u64_le_surj: "length bs = 8 \<Longrightarrow> u64_to_le (u64_from_le bs) = bs"
  using le_to_nat_less [of bs]
  by (simp add: u64_to_le_def u64_from_le_def unat_of_nat_u64 nat_to_le_to_nat)

lemma u32_le_surj: "length bs = 4 \<Longrightarrow> u32_to_le (u32_from_le bs) = bs"
  using le_to_nat_less [of bs]
  by (simp add: u32_to_le_def u32_from_le_def unat_of_nat_u32 nat_to_le_to_nat)

end
