(* ===== verification/Types.thy ===== *)
theory Types
  imports Prelude
begin

text \<open>
  The core types of \<^verbatim>\<open>packt-lib/src/types.rs\<close>: content hashes with their hex form, the
  chunking configuration, chunks and pack locations. A Rust \<^verbatim>\<open>str\<close> is a \<^typ>\<open>string\<close>
  of its bytes.
\<close>

section \<open>Hashes and their hex form\<close>

datatype hash = Hash bytes

text \<open>The Rust type is \<^verbatim>\<open>[u8; 32]\<close>: a hash of the program has 32 bytes.\<close>

fun hash_bytes :: "hash \<Rightarrow> bytes" where
  "hash_bytes (Hash bs) = bs"

definition wf_hash :: "hash \<Rightarrow> bool" where
  "wf_hash h = (length (hash_bytes h) = 32)"

lemma hash_eq_iff: "h = k \<longleftrightarrow> hash_bytes h = hash_bytes k"
  by (cases h; cases k) simp

definition HEX_CHARS :: string where
  "HEX_CHARS = ''0123456789abcdef''"

fun hex_encode :: "bytes \<Rightarrow> string" where
  "hex_encode [] = []"
| "hex_encode (b # bs) =
     HEX_CHARS ! unat (drop_bit 4 b) # HEX_CHARS ! unat (b AND 0x0F) # hex_encode bs"

definition nybble :: "u8 \<Rightarrow> string + u8" where
  "nybble b =
     (if 48 \<le> b \<and> b \<le> 57 then Inr (b - 48)
      else if 97 \<le> b \<and> b \<le> 102 then Inr (b - 97 + 10)
      else if 65 \<le> b \<and> b \<le> 70 then Inr (b - 65 + 10)
      else Inl ''Invalid hex character'')"

fun hex_decode_chunks :: "string \<Rightarrow> string + bytes" where
  "hex_decode_chunks (c # d # cs) =
     (case nybble (of_char c) of Inl e \<Rightarrow> Inl e | Inr hi \<Rightarrow>
      (case nybble (of_char d) of Inl e \<Rightarrow> Inl e | Inr lo \<Rightarrow>
       (case hex_decode_chunks cs of Inl e \<Rightarrow> Inl e | Inr bs \<Rightarrow>
        Inr ((push_bit 4 hi OR lo) # bs))))"
| "hex_decode_chunks _ = Inr []"

definition hex_decode :: "string \<Rightarrow> string + bytes" where
  "hex_decode s =
     (if length s mod 2 \<noteq> 0 then Inl ''Hex string must have even length''
      else hex_decode_chunks s)"

definition to_hex :: "hash \<Rightarrow> string" where
  "to_hex h = hex_encode (hash_bytes h)"

definition from_hex :: "string \<Rightarrow> string + hash" where
  "from_hex s =
     (case hex_decode s of
        Inl e \<Rightarrow> Inl (''Invalid hex: '' @ e)
      | Inr bs \<Rightarrow>
          if length bs \<noteq> 32 then Inl ''Hex string must decode to 32 bytes''
          else Inr (Hash bs))"

section \<open>Round trip of the hex form\<close>

text \<open>The digit of a nibble, as a number, and the two nibbles of a byte.\<close>

lemma less_16_cases:
  "n < (16::nat) \<Longrightarrow> n \<in> {0, 1, 2, 3, 4, 5, 6, 7, 8, 9, 10, 11, 12, 13, 14, 15}"
  by (simp, arith)

lemma nybble_hex_digit: "n < 16 \<Longrightarrow> nybble (of_char (HEX_CHARS ! n)) = Inr (of_nat n)"
  by (drule less_16_cases, elim insertE emptyE)
    (simp_all add: nybble_def HEX_CHARS_def)

lemma hi_nibble_less: "unat (drop_bit 4 (b :: u8)) < 16"
proof -
  have "unat b < 256" using unsigned_less [of b] by simp
  then show ?thesis by (simp add: drop_bit_eq_div unat_div less_mult_imp_div_less)
qed

lemma lo_nibble_less: "unat ((b :: u8) AND 0x0F) < 16"
proof -
  have "unat (b AND 15) \<le> unat (15 :: u8)"
    by (rule word_and_le1 [THEN word_le_nat_alt [THEN iffD1]])
  then show ?thesis by simp
qed

lemma join_nibbles: "push_bit 4 (drop_bit 4 b) OR (b AND 0x0F) = (b :: u8)"
proof -
  have "b AND 0x0F = take_bit 4 b"
    by (simp add: take_bit_eq_mask mask_eq_exp_minus_1)
  then show ?thesis
    by (auto intro!: bit_eqI simp: bit_simps)
qed

lemma hex_decode_chunks_encode [codec_simps]: "hex_decode_chunks (hex_encode bs) = Inr bs"
  by (induction bs)
    (simp_all add: nybble_hex_digit hi_nibble_less lo_nibble_less join_nibbles)

lemma length_hex_encode [simp]: "length (hex_encode bs) = 2 * length bs"
  by (induction bs) simp_all

text \<open>
  Decoding accepts both cases of the letters, so what it accepts is the encoding of its result
  up to case. \<open>lower_hex\<close> is the case folding of the specification.
\<close>

definition lower_hex :: "char \<Rightarrow> char" where
  "lower_hex c = (if c = CHR ''A'' then CHR ''a'' else if c = CHR ''B'' then CHR ''b''
     else if c = CHR ''C'' then CHR ''c'' else if c = CHR ''D'' then CHR ''d''
     else if c = CHR ''E'' then CHR ''e'' else if c = CHR ''F'' then CHR ''f'' else c)"

lemma nybble_accepts:
  assumes "nybble (of_char c) = Inr v"
  shows "c \<in> set ''0123456789abcdefABCDEF''"
proof -
  define n where "n = (of_char c :: nat)"
  have n: "n < 256" "of_char c = (of_nat n :: u8)" "c = char_of n"
    by (simp_all add: n_def of_nat_of_char)
  have u: "unat (of_nat n :: u8) = n" using n(1) by (rule unat_of_nat_byte)
  have "48 \<le> n \<and> n \<le> 57 \<or> 97 \<le> n \<and> n \<le> 102 \<or> 65 \<le> n \<and> n \<le> 70"
    using assms n(2) u by (auto simp: nybble_def word_le_nat_alt split: if_splits)
  then have "n \<in> {48, 49, 50, 51, 52, 53, 54, 55, 56, 57, 97, 98, 99, 100, 101, 102,
      65, 66, 67, 68, 69, 70}"
    by (simp, arith)
  then show ?thesis unfolding n(3) by (elim insertE emptyE) (simp_all add: char_of_def bit_iff_odd)
qed

lemma nybble_sound:
  "nybble (of_char c) = Inr v \<Longrightarrow> HEX_CHARS ! unat v = lower_hex c \<and> unat v < 16"
  by (frule nybble_accepts, unfold list.set, elim insertE emptyE)
    (simp_all add: nybble_def HEX_CHARS_def lower_hex_def)

lemma nibbles_of_joined:
  assumes "unat hi < 16" and "unat lo < 16"
  shows "drop_bit 4 (push_bit 4 hi) OR drop_bit 4 lo = (hi :: u8)"
    and "(push_bit 4 hi OR lo) AND 0x0F = (lo :: u8)"
proof -
  have m: "(0x0F :: u8) = mask 4" by (simp add: mask_eq_exp_minus_1)
  have hi: "take_bit 4 hi = hi" and lo: "take_bit 4 lo = lo"
    using assms by (simp_all add: take_bit_word_eq_self word_less_nat_alt
        word_unat_eq_iff unsigned_take_bit_eq take_bit_nat_eq_self)
  have b: "bit hi n \<Longrightarrow> n < 4" "bit lo n \<Longrightarrow> n < 4" for n
    using hi lo by (metis bit_take_bit_iff)+
  show "drop_bit 4 (push_bit 4 hi) OR drop_bit 4 lo = hi"
    by (rule bit_eqI) (use b in \<open>auto simp: bit_simps\<close>)
  show "(push_bit 4 hi OR lo) AND 0x0F = lo"
    unfolding m by (rule bit_eqI) (use b in \<open>auto simp: bit_simps\<close>)
qed

lemma hex_decode_chunks_sound:
  "hex_decode_chunks s = Inr bs \<Longrightarrow> even (length s)
    \<Longrightarrow> hex_encode bs = map lower_hex s \<and> length s = 2 * length bs"
proof (induction s arbitrary: bs rule: hex_decode_chunks.induct)
  case (1 c d cs)
  then show ?case
    by (auto split: sum.splits dest!: nybble_sound simp: nibbles_of_joined)
qed auto

section \<open>Chunking configuration, chunks and locations\<close>

record chunk_config =
  min_size :: usize
  avg_size :: usize
  max_size :: usize

definition default_32k :: chunk_config where
  "default_32k = \<lparr>min_size = 16384, avg_size = 32768, max_size = 131072\<rparr>"

definition validate :: "chunk_config \<Rightarrow> bool" where
  "validate c \<longleftrightarrow>
     min_size c \<ge> 64
     \<and> avg_size c \<ge> min_size c * 2
     \<and> max_size c \<ge> avg_size c * 2
     \<and> max_size c \<le> 1048576"

record chunk =
  ch_offset :: u64
  ch_length :: u32
  ch_data :: bytes

record pack_location =
  pl_pack_id :: u32
  pl_offset :: u64
  pl_length :: u32
  pl_orig_length :: u32

lemma validate_default: "validate default_32k"
  by (simp add: validate_def default_32k_def)

section \<open>Properties\<close>

text \<open>
  The hex form of a content hash round trips: \<open>from_hex\<close> reads back what \<open>to_hex\<close>
  wrote, for every 32-byte hash, and rejects the hex form of anything of another length. The
  manifests of the store name their chunks in this form.
\<close>

theorem from_hex_to_hex:
  "from_hex (to_hex h) =
     (if wf_hash h then Inr h else Inl ''Hex string must decode to 32 bytes'')"
  by (cases h) (simp add: from_hex_def to_hex_def hex_decode_def wf_hash_def codec_simps)

text \<open>
  Whatever \<open>from_hex\<close> accepts has exactly 64 characters and is, up to the case of the
  letters, the hex form of the hash it returns; and that hash has 32 bytes.
\<close>

theorem from_hex_sound:
  assumes "from_hex s = Inr h"
  shows "wf_hash h \<and> length s = 64 \<and> to_hex h = map lower_hex s"
proof -
  from assms obtain bs where bs: "hex_decode s = Inr bs" "length bs = 32" "h = Hash bs"
    by (auto simp: from_hex_def split: sum.splits if_splits)
  from bs(1) have "hex_encode bs = map lower_hex s \<and> length s = 2 * length bs"
    by (intro hex_decode_chunks_sound) (auto simp: hex_decode_def even_iff_mod_2_eq_zero split: if_splits)
  with bs(2,3) show ?thesis by (simp add: wf_hash_def to_hex_def)
qed

theorem from_hex_sound_witness:
  "from_hex (to_hex (Hash (replicate 32 0xAB))) = Inr (Hash (replicate 32 0xAB))
   \<and> length (to_hex (Hash (replicate 32 0xAB))) = 64"
proof -
  have h: "from_hex (to_hex (Hash (replicate 32 0xAB))) = Inr (Hash (replicate 32 0xAB))"
    by (simp add: from_hex_def to_hex_def hex_decode_def codec_simps)
  show ?thesis using h from_hex_sound [OF h] by simp
qed

end
