(* ===== verification/Chunking.thy ===== *)
theory Chunking
  imports Types
begin

text \<open>
  Content-defined chunking and content hashing: the trait \<^verbatim>\<open>Chunker\<close> of
  \<^verbatim>\<open>packt-lib/src/chunking/mod.rs\<close> as the locale \<open>chunker\<close>, its implementation
  \<^verbatim>\<open>FastCdcChunker\<close> (\<^verbatim>\<open>chunking/fastcdc.rs\<close>), the hasher of \<^verbatim>\<open>hash/blake3_hasher.rs\<close> and
  the hasher stage of the pipeline. The windows are those of the \<^verbatim>\<open>fastcdc\<close> crate and the
  digest is that of the \<^verbatim>\<open>blake3\<close> crate: both are parameters.
\<close>

section \<open>The chunker\<close>

text \<open>
  The windows of the crate are pairs of an offset and a length. The loop checks that each one
  starts where the last one ended, and copies its bytes.
\<close>

fun chunk_windows ::
    "bytes \<Rightarrow> (usize \<times> usize) list \<Rightarrow> u64 \<Rightarrow> chunk list \<Rightarrow> (chunk list \<times> u64) result" where
  "chunk_windows data [] last_end chunks = Inr (chunks, last_end)"
| "chunk_windows data ((w_offset, w_length) # ws) last_end chunks =
     (let offset = w_offset; len = ucast w_length :: u32
      in if offset \<noteq> last_end then Inl (Panic ''Chunk offset != expected'')
         else bind_res (slice (unat offset) (unat (offset + ucast len)) data) (\<lambda>chunk_data.
           chunk_windows data ws (offset + ucast len)
             (chunks @ [\<lparr>ch_offset = offset, ch_length = len, ch_data = chunk_data\<rparr>])))"

text \<open>
  \<^verbatim>\<open>FastCdcChunker::chunk\<close>; \<open>fastcdc data min avg max\<close> are the windows of
  \<^verbatim>\<open>fastcdc::v2020::FastCDC\<close>.
\<close>

definition fastcdc_chunk ::
    "(bytes \<Rightarrow> usize \<Rightarrow> usize \<Rightarrow> usize \<Rightarrow> (usize \<times> usize) list)
      \<Rightarrow> chunk_config \<Rightarrow> bytes \<Rightarrow> chunk list result" where
  "fastcdc_chunk fastcdc config data =
     (let source_len = (of_nat (length data) :: u64)
      in bind_res (chunk_windows data
           (fastcdc data (min_size config) (avg_size config) (max_size config)) 0 [])
         (\<lambda>(chunks, last_end).
           if last_end \<noteq> source_len then Inl (Panic ''Last chunk end != source len'')
           else Inr chunks))"

text \<open>What a chunk list looks like from an offset on: no gap, no overlap, right lengths.\<close>

fun chunks_from :: "nat \<Rightarrow> chunk list \<Rightarrow> bool" where
  "chunks_from n [] \<longleftrightarrow> True"
| "chunks_from n (c # cs) \<longleftrightarrow>
     unat (ch_offset c) = n \<and> unat (ch_length c) = length (ch_data c)
     \<and> chunks_from (n + length (ch_data c)) cs"

lemma chunks_from_append [simp]:
  "chunks_from n (cs @ ds) \<longleftrightarrow>
     chunks_from n cs \<and> chunks_from (n + length (concat (map ch_data cs))) ds"
  by (induction cs arbitrary: n) (auto simp: add.assoc)

lemma add_no_wrap:
  assumes "unat (a :: u64) \<le> unat (a + ucast (l :: u32))"
  shows "unat (a + ucast l) = unat a + unat l"
proof -
  have "a \<le> a + ucast l" using assms by (simp add: word_le_nat_alt)
  then have "unat (a + ucast l) = unat a + unat (ucast l :: u64)"
    by (simp add: unat_plus_simple)
  then show ?thesis by (simp only: ucast_u32_bound)
qed

lemma chunk_windows_spec:
  assumes "chunk_windows data ws last_end chunks = Inr (cs, e)"
    and "chunks_from 0 chunks" and "concat (map ch_data chunks) = take (unat last_end) data"
    and "unat last_end \<le> length data"
  shows "chunks_from 0 cs \<and> concat (map ch_data cs) = take (unat e) data \<and> unat e \<le> length data"
  using assms
proof (induction data ws last_end chunks arbitrary: cs e rule: chunk_windows.induct)
  case (1 data last_end chunks)
  then show ?case by simp
next
  case (2 data w_offset w_length ws last_end chunks)
  let ?l = "ucast w_length :: u32" and ?e = "w_offset + ucast (ucast w_length :: u32) :: u64"
  from "2.prems"(1) have off: "w_offset = last_end"
    by (simp add: Let_def split: if_splits)
  from "2.prems"(1) off have ok: "unat w_offset \<le> unat ?e" "unat ?e \<le> length data"
    by (auto simp: Let_def bind_res_eq_Inr slice_eq_Inr)
  from ok(1) have e: "unat ?e = unat w_offset + unat ?l" by (rule add_no_wrap)
  let ?d = "take (unat ?l) (drop (unat last_end) data)"
  let ?c = "\<lparr>ch_offset = last_end, ch_length = ?l, ch_data = ?d\<rparr>"
  have rec: "chunk_windows data ws ?e (chunks @ [?c]) = Inr (cs, e)"
    using "2.prems"(1) off ok e by (simp add: Let_def)
  have len: "length ?d = unat ?l" "length (concat (map ch_data chunks)) = unat last_end"
    using "2.prems"(3,4) off ok e by simp_all
  show ?case
  proof (rule "2.IH" [OF refl refl])
    show "\<not> w_offset \<noteq> last_end" using off by simp
    show "chunk_windows data ws ?e
        (chunks @ [\<lparr>ch_offset = w_offset, ch_length = ?l, ch_data = ?d\<rparr>]) = Inr (cs, e)"
      using rec off by simp
    show "chunks_from 0 (chunks @ [\<lparr>ch_offset = w_offset, ch_length = ?l, ch_data = ?d\<rparr>])"
      using "2.prems"(2) off len by simp
    show "concat (map ch_data (chunks @ [\<lparr>ch_offset = w_offset, ch_length = ?l, ch_data = ?d\<rparr>]))
        = take (unat ?e) data"
      using "2.prems"(3) off e by (simp add: take_add)
    show "unat ?e \<le> length data" by (rule ok(2))
  qed
qed

section \<open>The interface\<close>

text \<open>
  The contract of the trait: the chunks of a slice (of a length a machine can hold) are
  consecutive and put together give the slice back.
\<close>

locale chunker =
  fixes chunk :: "bytes \<Rightarrow> chunk list result"
  assumes chunk_cover: "length data < 2 ^ 64 \<Longrightarrow> chunk data = Inr cs \<Longrightarrow>
            concat (map ch_data cs) = data \<and> chunks_from 0 cs"
begin

lemma chunk_total_length:
  assumes "length data < 2 ^ 64" and "chunk data = Inr cs"
  shows "(\<Sum>c\<leftarrow>cs. unat (ch_length c)) = length data"
proof -
  have "chunks_from n ds \<Longrightarrow>
      (\<Sum>c\<leftarrow>ds. unat (ch_length c)) = length (concat (map ch_data ds))" for n ds
    by (induction ds arbitrary: n) auto
  with chunk_cover [OF assms] show ?thesis by metis
qed

lemma chunk_nth:
  assumes "length data < 2 ^ 64" and "chunk data = Inr cs" and "i < length cs"
  shows "ch_data (cs ! i) =
    take (unat (ch_length (cs ! i))) (drop (unat (ch_offset (cs ! i))) data)"
proof -
  have cover: "concat (map ch_data cs) = data" "chunks_from 0 cs"
    using chunk_cover [OF assms(1,2)] by auto
  have split: "cs = take i cs @ cs ! i # drop (Suc i) cs"
    using assms(3) by (rule id_take_nth_drop)
  let ?a = "concat (map ch_data (take i cs))" and ?b = "concat (map ch_data (drop (Suc i) cs))"
  have "data = ?a @ ch_data (cs ! i) @ ?b"
    using arg_cong [OF split, of "\<lambda>l. concat (map ch_data l)"] cover(1) by simp
  moreover have "unat (ch_offset (cs ! i)) = length ?a"
    "unat (ch_length (cs ! i)) = length (ch_data (cs ! i))"
    using cover(2) by (subst (asm) split, simp)+
  ultimately show ?thesis by simp
qed

lemma chunk_injective:
  "length d < 2 ^ 64 \<Longrightarrow> length d' < 2 ^ 64 \<Longrightarrow> chunk d = Inr cs \<Longrightarrow> chunk d' = Inr cs \<Longrightarrow> d = d'"
  using chunk_cover by metis

end

lemma fastcdc_chunk_cover:
  assumes "length data < 2 ^ 64" and "fastcdc_chunk fastcdc config data = Inr cs"
  shows "concat (map ch_data cs) = data \<and> chunks_from 0 cs"
proof -
  from assms(2) have w: "chunk_windows data
      (fastcdc data (min_size config) (avg_size config) (max_size config)) 0 []
      = Inr (cs, of_nat (length data))"
    by (auto simp: fastcdc_chunk_def Let_def bind_res_eq_Inr split: prod.splits if_splits)
  show ?thesis
    using chunk_windows_spec [OF w] assms(1) by (simp add: unat_of_nat_u64)
qed

interpretation fastcdc: chunker "fastcdc_chunk fastcdc config" for fastcdc config
  by unfold_locales (rule fastcdc_chunk_cover)

section \<open>The hasher\<close>

text \<open>\<^verbatim>\<open>Blake3Hasher\<close> and the default method of \<^verbatim>\<open>ContentHasher\<close>; \<open>blake3\<close> is the digest.\<close>

definition hasher_hash :: "(bytes \<Rightarrow> bytes) \<Rightarrow> bytes \<Rightarrow> hash" where
  "hasher_hash blake3 data = Hash (blake3 data)"

definition hasher_hash_chunk :: "(bytes \<Rightarrow> bytes) \<Rightarrow> chunk \<Rightarrow> hash" where
  "hasher_hash_chunk blake3 c = hasher_hash blake3 (ch_data c)"

text \<open>\<^verbatim>\<open>HasherStage::hash\<close>.\<close>

definition hasher_stage_hash :: "(bytes \<Rightarrow> bytes) \<Rightarrow> chunk \<Rightarrow> hash" where
  "hasher_stage_hash blake3 c = hasher_hash_chunk blake3 c"

lemma hasher_stage_hash [simp]: "hasher_stage_hash blake3 c = Hash (blake3 (ch_data c))"
  by (simp add: hasher_stage_hash_def hasher_hash_chunk_def hasher_hash_def)

section \<open>Properties\<close>

text \<open>
  What the documentation of the crate promises of the windows: they are consecutive from 0 to
  the end of the data (and shorter than 4 GiB, as the maximum chunk size is at most 1 MiB).
\<close>

fun windows_cover :: "nat \<Rightarrow> nat \<Rightarrow> (usize \<times> usize) list \<Rightarrow> bool" where
  "windows_cover n len [] \<longleftrightarrow> n = len"
| "windows_cover n len ((w_offset, w_length) # ws) \<longleftrightarrow>
     unat w_offset = n \<and> unat w_length < 2 ^ 32 \<and> windows_cover (n + unat w_length) len ws"

lemma unat_inverse_word: "of_nat (unat (w :: u64)) = w"
  by simp

lemma windows_cover_le: "windows_cover n len ws \<Longrightarrow> n \<le> len"
  by (induction n len ws rule: windows_cover.induct) auto

lemma ucast_u32_of_small: "unat (w :: usize) < 2 ^ 32 \<Longrightarrow> unat (ucast w :: u32) = unat w"
  by (simp add: unsigned_ucast_eq take_bit_nat_eq_self)

lemma chunk_windows_total:
  assumes "windows_cover (unat last_end) (length data) ws" and "length data < 2 ^ 64"
  shows "\<exists>cs. chunk_windows data ws last_end chunks = Inr (chunks @ cs, of_nat (length data))
      \<and> length cs = length ws"
  using assms
proof (induction data ws last_end chunks rule: chunk_windows.induct)
  case (1 data last_end chunks)
  then have "last_end = of_nat (length data)"
    by (metis windows_cover.simps(1) unat_inverse_word)
  then show ?case by simp
next
  case (2 data w_offset w_length ws last_end chunks)
  let ?l = "ucast w_length :: u32" and ?e = "w_offset + ucast (ucast w_length :: u32) :: u64"
  from "2.prems"(1) have off: "w_offset = last_end" and small: "unat w_length < 2 ^ 32"
    and rest: "windows_cover (unat last_end + unat w_length) (length data) ws"
    by (auto simp: word_unat_eq_iff)
  have l: "unat ?l = unat w_length" using small by (rule ucast_u32_of_small)
  have le: "unat w_offset + unat ?l \<le> length data"
    using windows_cover_le [OF rest] off l by simp
  have e: "unat ?e = unat w_offset + unat ?l"
    using le "2.prems"(2) by (simp add: unat_word_ariths ucast_u32_bound)
  let ?d = "take (unat ?l) (drop (unat w_offset) data)"
  let ?c = "\<lparr>ch_offset = w_offset, ch_length = ?l, ch_data = ?d\<rparr>"
  have step: "chunk_windows data ((w_offset, w_length) # ws) last_end chunks
      = chunk_windows data ws ?e (chunks @ [?c])"
    using off le e by (simp add: Let_def)
  have "\<exists>cs. chunk_windows data ws ?e (chunks @ [?c]) = Inr ((chunks @ [?c]) @ cs, of_nat (length data))
      \<and> length cs = length ws"
    by (rule "2.IH" [OF refl refl]) (use off rest e l "2.prems"(2) in auto)
  then obtain cs where "chunk_windows data ws ?e (chunks @ [?c])
      = Inr (chunks @ (?c # cs), of_nat (length data))" "length cs = length ws" by auto
  with step show ?case by (metis length_Cons)
qed

text \<open>
  C25. The chunker is total and exact on what the crate promises: for windows that cover the
  data, neither assertion of \<open>chunk\<close> fails and no slice is out of range; there is one chunk
  for each window, and the chunks are consecutive and put together give back the data.
\<close>

theorem fastcdc_chunk_exact:
  assumes "length data < 2 ^ 64"
    and "windows_cover 0 (length data)
           (fastcdc data (min_size config) (avg_size config) (max_size config))"
  shows "\<exists>cs. fastcdc_chunk fastcdc config data = Inr cs
      \<and> concat (map ch_data cs) = data \<and> chunks_from 0 cs
      \<and> length cs = length (fastcdc data (min_size config) (avg_size config) (max_size config))"
proof -
  obtain cs where cs: "chunk_windows data
      (fastcdc data (min_size config) (avg_size config) (max_size config)) 0 []
      = Inr ([] @ cs, of_nat (length data))"
    "length cs = length (fastcdc data (min_size config) (avg_size config) (max_size config))"
    using chunk_windows_total [of 0 data] assms by fastforce
  then have "fastcdc_chunk fastcdc config data = Inr cs"
    by (simp add: fastcdc_chunk_def Let_def)
  with fastcdc.chunk_cover [OF assms(1) this] cs(2) show ?thesis by blast
qed

theorem fastcdc_chunk_exact_witness:
  "\<exists>cs. fastcdc_chunk (\<lambda>d _ _ _. [(0, 2), (2, 3)]) default_32k [1, 2, 3, 4, 5] = Inr cs
      \<and> concat (map ch_data cs) = [1, 2, 3, 4, 5] \<and> length cs = 2"
  using fastcdc_chunk_exact [of "[1, 2, 3, 4, 5]" "\<lambda>d _ _ _. [(0, 2), (2, 3)]" default_32k]
  by auto

end
