(* ===== verification/Hash_Index.thy ===== *)
theory Hash_Index
  imports Types
begin

text \<open>
  The exact-dedup index: the trait \<^verbatim>\<open>DedupIndex\<close> of \<^verbatim>\<open>packt-lib/src/index/mod.rs\<close> as the
  locale \<open>dedup_index\<close>, the Bloom filter and \<^verbatim>\<open>HashIndex\<close> of \<^verbatim>\<open>index/hashindex.rs\<close>, the
  dedup stage of the pipeline, and the interpretation that shows that the filter never hides an
  entry. \<open>keyed\<close> is the keyed hash of the \<^verbatim>\<open>blake3\<close> crate.
\<close>

section \<open>The Bloom filter\<close>

record bloom_filter =
  bf_bits :: "u64 list"
  bf_num_hashes :: u32
  bf_size :: usize

text \<open>
  \<^verbatim>\<open>(capacity as f64 * 9.6).ceil()\<close>: the exact product, which the rounded one has the same
  ceiling as for every capacity below \<open>2^49\<close>.
\<close>

definition bloom_num_bits :: "nat \<Rightarrow> nat" where
  "bloom_num_bits capacity = (48 * capacity + 4) div 5"

definition div_ceil :: "nat \<Rightarrow> nat \<Rightarrow> nat" where
  "div_ceil a b = (a + b - 1) div b"

definition bloom_new :: "nat \<Rightarrow> bloom_filter" where
  "bloom_new capacity =
     (let num_bits = bloom_num_bits capacity;
          num_hashes = 7;
          num_u64s = div_ceil num_bits 64
      in \<lparr>bf_bits = replicate num_u64s 0, bf_num_hashes = num_hashes,
          bf_size = of_nat num_u64s * 64\<rparr>)"

definition bloom_key :: "hash \<Rightarrow> nat \<Rightarrow> bytes" where
  "bloom_key h i =
     (let key = take 8 (hash_bytes h) @ replicate 24 0
      in key[0 := key ! 0 XOR of_nat i])"

definition bloom_index :: "(bytes \<Rightarrow> bytes \<Rightarrow> bytes) \<Rightarrow> bloom_filter \<Rightarrow> hash \<Rightarrow> nat \<Rightarrow> usize" where
  "bloom_index keyed bf h i =
     u64_from_le (take 8 (keyed (bloom_key h i) (map of_char ''bloom''))) mod bf_size bf"

text \<open>The remainder by \<open>size\<close> panics when the filter was made for no entries.\<close>

definition hash_indices ::
    "(bytes \<Rightarrow> bytes \<Rightarrow> bytes) \<Rightarrow> bloom_filter \<Rightarrow> hash \<Rightarrow> usize list result" where
  "hash_indices keyed bf h =
     (if bf_num_hashes bf \<noteq> 0 \<and> bf_size bf = 0
      then Inl (Panic ''attempt to calculate the remainder with a divisor of zero'')
      else Inr (map (bloom_index keyed bf h) [0..<unat (bf_num_hashes bf)]))"

fun bloom_set :: "u64 list \<Rightarrow> usize list \<Rightarrow> u64 list result" where
  "bloom_set bits [] = Inr bits"
| "bloom_set bits (idx # idxs) =
     (let word = unat (idx div 64); b = unat (idx mod 64)
      in if word < length bits
         then bloom_set (bits[word := bits ! word OR push_bit b 1]) idxs
         else Inl (Panic ''index out of bounds''))"

definition bloom_insert ::
    "(bytes \<Rightarrow> bytes \<Rightarrow> bytes) \<Rightarrow> bloom_filter \<Rightarrow> hash \<Rightarrow> bloom_filter result" where
  "bloom_insert keyed bf h =
     bind_res (hash_indices keyed bf h) (\<lambda>idxs.
     bind_res (bloom_set (bf_bits bf) idxs) (\<lambda>bits.
     Inr (bf\<lparr>bf_bits := bits\<rparr>)))"

fun bloom_test :: "u64 list \<Rightarrow> usize list \<Rightarrow> bool result" where
  "bloom_test bits [] = Inr True"
| "bloom_test bits (idx # idxs) =
     (let word = unat (idx div 64); b = unat (idx mod 64)
      in if word < length bits
         then (if bits ! word AND push_bit b 1 = 0 then Inr False else bloom_test bits idxs)
         else Inl (Panic ''index out of bounds''))"

definition might_contain ::
    "(bytes \<Rightarrow> bytes \<Rightarrow> bytes) \<Rightarrow> bloom_filter \<Rightarrow> hash \<Rightarrow> bool result" where
  "might_contain keyed bf h =
     bind_res (hash_indices keyed bf h) (\<lambda>idxs. bloom_test (bf_bits bf) idxs)"

section \<open>The index\<close>

record hash_index =
  hi_map :: "hash \<rightharpoonup> pack_location"
  hi_count :: usize
  hi_bloom :: bloom_filter

definition hi_new :: "nat \<Rightarrow> hash_index" where
  "hi_new expected_entries =
     \<lparr>hi_map = Map.empty, hi_count = 0, hi_bloom = bloom_new expected_entries\<rparr>"

definition hi_insert ::
    "(bytes \<Rightarrow> bytes \<Rightarrow> bytes) \<Rightarrow> hash_index \<Rightarrow> hash \<Rightarrow> pack_location \<Rightarrow> hash_index result" where
  "hi_insert keyed ix h loc =
     bind_res (bloom_insert keyed (hi_bloom ix) h) (\<lambda>bloom.
       let prev = hi_map ix h;
           ix' = ix\<lparr>hi_bloom := bloom, hi_map := (hi_map ix)(h \<mapsto> loc)\<rparr>
       in Inr (if prev = None then ix'\<lparr>hi_count := hi_count ix' + 1\<rparr> else ix'))"

definition hi_lookup ::
    "(bytes \<Rightarrow> bytes \<Rightarrow> bytes) \<Rightarrow> hash_index \<Rightarrow> hash \<Rightarrow> pack_location option result" where
  "hi_lookup keyed ix h =
     bind_res (might_contain keyed (hi_bloom ix) h) (\<lambda>may.
       if \<not> may then Inr None else Inr (hi_map ix h))"

definition hi_contains :: "hash_index \<Rightarrow> hash \<Rightarrow> bool" where
  "hi_contains ix h = (hi_map ix h \<noteq> None)"

definition hi_len :: "hash_index \<Rightarrow> usize" where
  "hi_len ix = hi_count ix"

definition hi_is_empty :: "hash_index \<Rightarrow> bool" where
  "hi_is_empty ix = (hi_len ix = 0)"

text \<open>\<^verbatim>\<open>DedupStage::check\<close>.\<close>

definition dedup_check :: "hash_index \<Rightarrow> hash \<Rightarrow> bool" where
  "dedup_check ix h = hi_contains ix h"

section \<open>Bits of the filter\<close>

definition bit_at :: "u64 list \<Rightarrow> usize \<Rightarrow> bool" where
  "bit_at bits idx \<longleftrightarrow> bit (bits ! unat (idx div 64)) (unat (idx mod 64))"

lemma and_one_bit: "n < 64 \<Longrightarrow> (w :: u64) AND push_bit n 1 = 0 \<longleftrightarrow> \<not> bit w n"
proof -
  assume n: "n < 64"
  have "bit (w AND push_bit n 1) k \<longleftrightarrow> bit w n \<and> k = n" for k
    using n by (auto simp: bit_simps)
  then show ?thesis by (metis bit_0_eq bot_apply bit_eqI bot_bool_def)
qed

lemma and_two_pow: "n < 64 \<Longrightarrow> (w :: u64) AND 2 ^ n = 0 \<longleftrightarrow> \<not> bit w n"
  using and_one_bit [of n w] by (simp add: push_bit_of_1)

lemma mod64_less: "unat ((idx :: usize) mod 64) < 64"
proof -
  have "idx mod 64 < 64" by (rule word_mod_less_divisor) simp
  then show ?thesis by (simp add: word_less_nat_alt)
qed

lemma bloom_set_spec:
  assumes "\<forall>idx\<in>set idxs. unat (idx div 64) < length bits"
  shows "\<exists>bits'. bloom_set bits idxs = Inr bits' \<and> length bits' = length bits
      \<and> (\<forall>j. unat (j div 64) < length bits \<longrightarrow>
            bit_at bits' j \<longleftrightarrow> bit_at bits j \<or> j \<in> set idxs)"
  using assms
proof (induction bits idxs rule: bloom_set.induct)
  case (1 bits)
  then show ?case by simp
next
  case (2 bits idx idxs)
  let ?w = "unat (idx div 64)" and ?b = "unat (idx mod 64)"
  let ?bits = "bits[?w := bits ! ?w OR push_bit ?b 1]"
  have w: "?w < length bits" using "2.prems" by simp
  obtain bits' where b': "bloom_set ?bits idxs = Inr bits'" "length bits' = length bits"
    "\<forall>j. unat (j div 64) < length bits \<longrightarrow> bit_at bits' j \<longleftrightarrow> bit_at ?bits j \<or> j \<in> set idxs"
    using "2.IH" [OF refl refl w] "2.prems" by auto
  have "bit_at ?bits j \<longleftrightarrow> bit_at bits j \<or> j = idx" if "unat (j div 64) < length bits" for j
  proof (cases "unat (j div 64) = ?w")
    case True
    then have div: "j div 64 = idx div 64" by (simp only: word_unat_eq_iff)
    then have "unat (j mod 64) = ?b \<longleftrightarrow> j = idx"
      by (metis word_unat_eq_iff div_mult_mod_eq)
    then show ?thesis
      using True w mod64_less [of j] by (auto simp: bit_at_def bit_simps)
  next
    case False
    then show ?thesis by (auto simp: bit_at_def nth_list_update)
  qed
  with b' w show ?case by (auto simp: Let_def)
qed

lemma bloom_test_spec:
  assumes "\<forall>idx\<in>set idxs. unat (idx div 64) < length bits"
  shows "bloom_test bits idxs = Inr (\<forall>idx\<in>set idxs. bit_at bits idx)"
  using assms
  by (induction bits idxs rule: bloom_test.induct)
    (auto simp: Let_def and_two_pow mod64_less bit_at_def)

section \<open>The interface\<close>

text \<open>
  The contract of the trait: an index stands for a map from hashes to locations, every operation
  keeps its invariant, and none of them panics. Inserting a list of entries in order is what the
  stores do with the entries of their packs.
\<close>

fun insert_all ::
    "('i \<Rightarrow> hash \<Rightarrow> pack_location \<Rightarrow> 'i result) \<Rightarrow> 'i \<Rightarrow> (hash \<times> pack_location) list \<Rightarrow> 'i result" where
  "insert_all ins ix [] = Inr ix"
| "insert_all ins ix ((h, loc) # es) = bind_res (ins ix h loc) (\<lambda>ix'. insert_all ins ix' es)"

locale dedup_index =
  fixes ins :: "'i \<Rightarrow> hash \<Rightarrow> pack_location \<Rightarrow> 'i result"
    and lookup :: "'i \<Rightarrow> hash \<Rightarrow> pack_location option result"
    and has :: "'i \<Rightarrow> hash \<Rightarrow> bool"
    and len :: "'i \<Rightarrow> usize"
    and abs_map :: "'i \<Rightarrow> hash \<rightharpoonup> pack_location"
    and invar :: "'i \<Rightarrow> bool"
  assumes insert_ok: "invar i \<Longrightarrow>
        \<exists>i'. ins i h loc = Inr i' \<and> invar i' \<and> abs_map i' = (abs_map i)(h \<mapsto> loc)"
    and lookup_abs: "invar i \<Longrightarrow> lookup i h = Inr (abs_map i h)"
    and has_abs: "invar i \<Longrightarrow> has i h \<longleftrightarrow> abs_map i h \<noteq> None"
    and len_abs: "invar i \<Longrightarrow> len i = of_nat (card (dom (abs_map i)))"
    and finite_abs: "invar i \<Longrightarrow> finite (dom (abs_map i))"
begin

lemma lookup_after_insert:
  assumes "invar i" and "ins i h loc = Inr i'"
  shows "lookup i' k = (if k = h then Inr (Some loc) else lookup i k)"
proof -
  from insert_ok [OF assms(1), of h loc] assms(2)
  have "invar i'" "abs_map i' = (abs_map i)(h \<mapsto> loc)" by auto
  with assms(1) show ?thesis by (simp add: lookup_abs)
qed

lemma insert_all_ok:
  "invar i \<Longrightarrow> \<exists>i'. insert_all ins i es = Inr i' \<and> invar i'
     \<and> abs_map i' = abs_map i ++ map_of (rev es)"
proof (induction es arbitrary: i)
  case Nil
  then show ?case by simp
next
  case (Cons e es)
  obtain h loc where e: "e = (h, loc)" by force
  obtain i1 where i1: "ins i h loc = Inr i1" "invar i1" "abs_map i1 = (abs_map i)(h \<mapsto> loc)"
    using insert_ok [OF Cons.prems] by blast
  obtain i' where "insert_all ins i1 es = Inr i'" "invar i'"
    "abs_map i' = abs_map i1 ++ map_of (rev es)"
    using Cons.IH [OF i1(2)] by blast
  with i1 e show ?case by (auto simp: map_add_def fun_eq_iff split: option.split)
qed

lemma lookup_after_insert_all:
  assumes "invar i" and "insert_all ins i es = Inr i'"
  shows "lookup i' h = (case map_of (rev es) h of None \<Rightarrow> lookup i h | Some loc \<Rightarrow> Inr (Some loc))"
  using insert_all_ok [OF assms(1), of es] assms
  by (auto simp: lookup_abs map_add_def split: option.split)

lemma has_iff_lookup: "invar i \<Longrightarrow> has i h \<longleftrightarrow> lookup i h \<noteq> Inr None"
  by (simp add: has_abs lookup_abs)

end

section \<open>The hash index provides it\<close>

definition bloom_wf :: "bloom_filter \<Rightarrow> bool" where
  "bloom_wf bf \<longleftrightarrow> bf_size bf \<noteq> 0 \<and> unat (bf_size bf) = 64 * length (bf_bits bf)"

definition hi_wf :: "(bytes \<Rightarrow> bytes \<Rightarrow> bytes) \<Rightarrow> hash_index \<Rightarrow> bool" where
  "hi_wf keyed ix \<longleftrightarrow>
     bloom_wf (hi_bloom ix) \<and> finite (dom (hi_map ix))
     \<and> hi_count ix = of_nat (card (dom (hi_map ix)))
     \<and> (\<forall>h\<in>dom (hi_map ix). might_contain keyed (hi_bloom ix) h = Inr True)"

lemma bloom_index_in_range:
  assumes "bloom_wf bf"
  shows "unat (bloom_index keyed bf h i div 64) < length (bf_bits bf)"
proof -
  have "bloom_index keyed bf h i < bf_size bf"
    unfolding bloom_index_def
    by (rule word_mod_less_divisor) (use assms in \<open>simp add: bloom_wf_def word_gt_0\<close>)
  then have "unat (bloom_index keyed bf h i) < 64 * length (bf_bits bf)"
    using assms by (simp add: word_less_nat_alt bloom_wf_def)
  then show ?thesis by (simp add: unat_div less_mult_imp_div_less mult.commute)
qed

lemma hash_indices_wf:
  assumes "bloom_wf bf"
  shows "\<exists>idxs. hash_indices keyed bf h = Inr idxs
      \<and> (\<forall>idx\<in>set idxs. unat (idx div 64) < length (bf_bits bf))"
  using assms bloom_index_in_range [OF assms]
  by (auto simp: hash_indices_def bloom_wf_def)

lemma hash_indices_cong:
  "bf_size bf = bf_size bf' \<Longrightarrow> bf_num_hashes bf = bf_num_hashes bf'
    \<Longrightarrow> hash_indices keyed bf h = hash_indices keyed bf' h"
  by (simp add: hash_indices_def bloom_index_def fun_eq_iff)

lemma bloom_insert_spec:
  assumes "bloom_wf bf"
  shows "\<exists>bf'. bloom_insert keyed bf h = Inr bf' \<and> bloom_wf bf'
      \<and> might_contain keyed bf' h = Inr True
      \<and> (\<forall>k. might_contain keyed bf k = Inr True \<longrightarrow> might_contain keyed bf' k = Inr True)"
proof -
  obtain idxs where idxs: "hash_indices keyed bf h = Inr idxs"
    "\<forall>idx\<in>set idxs. unat (idx div 64) < length (bf_bits bf)"
    using hash_indices_wf [OF assms] by blast
  obtain bits' where bits': "bloom_set (bf_bits bf) idxs = Inr bits'"
    "length bits' = length (bf_bits bf)"
    "\<forall>j. unat (j div 64) < length (bf_bits bf) \<longrightarrow>
       bit_at bits' j \<longleftrightarrow> bit_at (bf_bits bf) j \<or> j \<in> set idxs"
    using bloom_set_spec [OF idxs(2)] by blast
  let ?bf = "bf\<lparr>bf_bits := bits'\<rparr>"
  have wf: "bloom_wf ?bf" using assms bits'(2) by (simp add: bloom_wf_def)
  have same: "hash_indices keyed ?bf k = hash_indices keyed bf k" for k
    by (rule hash_indices_cong) simp_all
  have "might_contain keyed ?bf h = Inr True"
    using idxs bits' by (simp add: might_contain_def same bloom_test_spec)
  moreover have "might_contain keyed ?bf k = Inr True" if k: "might_contain keyed bf k = Inr True" for k
  proof -
    obtain js where js: "hash_indices keyed bf k = Inr js"
      "\<forall>idx\<in>set js. unat (idx div 64) < length (bf_bits bf)"
      using hash_indices_wf [OF assms] by blast
    with k have "\<forall>idx\<in>set js. bit_at (bf_bits bf) idx"
      by (simp add: might_contain_def bloom_test_spec)
    with js bits' show ?thesis by (simp add: might_contain_def same bloom_test_spec)
  qed
  ultimately show ?thesis
    using idxs(1) bits'(1) wf by (auto simp: bloom_insert_def)
qed

lemma might_contain_total: "bloom_wf bf \<Longrightarrow> \<exists>b. might_contain keyed bf h = Inr b"
  using hash_indices_wf [of bf keyed h] by (auto simp: might_contain_def bloom_test_spec)

lemma hi_insert_spec:
  assumes "hi_wf keyed ix"
  shows "\<exists>ix'. hi_insert keyed ix h loc = Inr ix' \<and> hi_wf keyed ix'
      \<and> hi_map ix' = (hi_map ix)(h \<mapsto> loc)"
proof -
  have bloom: "bloom_wf (hi_bloom ix)" using assms by (simp add: hi_wf_def)
  obtain bf' where bf': "bloom_insert keyed (hi_bloom ix) h = Inr bf'" "bloom_wf bf'"
    "might_contain keyed bf' h = Inr True"
    "\<forall>k. might_contain keyed (hi_bloom ix) k = Inr True \<longrightarrow> might_contain keyed bf' k = Inr True"
    using bloom_insert_spec [OF bloom] by blast
  show ?thesis
    using assms bf'
    by (auto simp: hi_insert_def hi_wf_def Let_def card_insert_if domIff)
qed

lemma hi_lookup_spec:
  assumes "hi_wf keyed ix"
  shows "hi_lookup keyed ix h = Inr (hi_map ix h)"
proof -
  obtain b where "might_contain keyed (hi_bloom ix) h = Inr b"
    using assms might_contain_total [of "hi_bloom ix" keyed h] by (auto simp: hi_wf_def)
  then show ?thesis
    using assms by (cases "hi_map ix h") (auto simp: hi_lookup_def hi_wf_def dom_def)
qed

interpretation hash_index:
  dedup_index "hi_insert keyed" "hi_lookup keyed" hi_contains hi_len hi_map "hi_wf keyed"
  for keyed
  by unfold_locales
    (simp_all add: hi_insert_spec hi_lookup_spec hi_contains_def hi_len_def, simp_all add: hi_wf_def)

lemma bloom_new_wf:
  assumes "0 < n" and "n < 2 ^ 49"
  shows "bloom_wf (bloom_new n)"
proof -
  let ?k = "div_ceil (bloom_num_bits n) 64"
  have k: "0 < ?k" "64 * ?k < 2 ^ 64"
    using assms by (simp_all add: div_ceil_def bloom_num_bits_def)
  have "of_nat ?k * 64 = (of_nat (64 * ?k) :: usize)" by (simp add: mult.commute)
  then have "unat (of_nat ?k * 64 :: usize) = 64 * ?k"
    using k(2) by (simp only: unat_of_nat_u64)
  with k(1) show ?thesis
    by (auto simp: bloom_wf_def bloom_new_def Let_def simp flip: unat_eq_0)
qed

lemma hi_new_wf: "0 < n \<Longrightarrow> n < 2 ^ 49 \<Longrightarrow> hi_wf keyed (hi_new n)"
  by (simp add: hi_wf_def hi_new_def bloom_new_wf)

section \<open>Properties\<close>

text \<open>
  C21. The concurrent index behaves as a map for every keyed hash: from a new index, any
  sequence of insertions succeeds without a panic, and afterwards a lookup returns the location
  inserted last for its hash (the Bloom filter in front of the map never hides an entry),
  \<open>contains\<close> agrees with it, and \<open>len\<close> counts the distinct hashes.
\<close>

theorem hash_index_is_map:
  assumes "0 < n" and "n < 2 ^ 49"
  shows "\<exists>ix. insert_all (hi_insert keyed) (hi_new n) es = Inr ix
      \<and> (\<forall>h. hi_lookup keyed ix h = Inr (map_of (rev es) h)
           \<and> (hi_contains ix h \<longleftrightarrow> h \<in> fst ` set es))
      \<and> hi_len ix = of_nat (card (fst ` set es))"
proof -
  have wf: "hi_wf keyed (hi_new n)" using assms by (rule hi_new_wf)
  obtain ix where ix: "insert_all (hi_insert keyed) (hi_new n) es = Inr ix" "hi_wf keyed ix"
    "hi_map ix = map_of (rev es)"
    using hash_index.insert_all_ok [OF wf, of es] by (auto simp: hi_new_def)
  moreover have "dom (map_of (rev es)) = fst ` set es" by (simp add: dom_map_of_conv_image_fst)
  ultimately show ?thesis
    using hash_index.lookup_abs [OF ix(2)] hash_index.len_abs [OF ix(2)]
      hash_index.has_abs [OF ix(2)] by (auto simp: domIff [symmetric])
qed

theorem hash_index_is_map_witness:
  "\<exists>ix. insert_all (hi_insert (\<lambda>k d. k)) (hi_new 1000000)
       [(Hash (replicate 32 7), \<lparr>pl_pack_id = 1, pl_offset = 0, pl_length = 0, pl_orig_length = 5\<rparr>)]
       = Inr ix
     \<and> hi_contains ix (Hash (replicate 32 7)) \<and> hi_len ix = 1"
  using hash_index_is_map [of 1000000 "\<lambda>k d. k"
      "[(Hash (replicate 32 7), \<lparr>pl_pack_id = 1, pl_offset = 0, pl_length = 0, pl_orig_length = 5\<rparr>)]"]
  by (simp, blast)

text \<open>
  An index made for no entries is not usable: its filter has no bits, and the first
  insertion or lookup panics on a remainder by zero.
\<close>

theorem hash_index_zero_capacity:
  "panics (hi_insert keyed (hi_new 0) h loc) \<and> panics (hi_lookup keyed (hi_new 0) h)"
  by (simp add: hi_insert_def hi_lookup_def bloom_insert_def might_contain_def hash_indices_def
      hi_new_def bloom_new_def Let_def bloom_num_bits_def div_ceil_def)

end
