(* ===== verification/Super_Feature.thy ===== *)
theory Super_Feature
  imports Types
begin

text \<open>
  Similarity signatures: \<^verbatim>\<open>packt-lib/src/similarity/super_feature.rs\<close>. Twelve features are
  sampled from the heads of twelve sub-chunks and grouped into super-features of three tiers;
  the lemmas say which bytes of a chunk a signature depends on. \<open>xxh3\<close> is
  \<^verbatim>\<open>xxh3_64\<close> of the \<^verbatim>\<open>xxhash-rust\<close> crate. Rust arrays are lists of the array's length.
\<close>

record chunk_signature =
  tier1 :: "u64 list"
  tier2 :: "u64 list"
  tier3 :: "u64 list"

definition NUM_FEATURES :: nat where "NUM_FEATURES = 12"
definition SAMPLE_BYTES :: nat where "SAMPLE_BYTES = 32"
definition SMALL_CHUNK_THRESHOLD :: nat where "SMALL_CHUNK_THRESHOLD = 256"

lemmas feature_consts = NUM_FEATURES_def SAMPLE_BYTES_def SMALL_CHUNK_THRESHOLD_def

definition full_chunk_signature :: "(bytes \<Rightarrow> u64) \<Rightarrow> bytes \<Rightarrow> chunk_signature" where
  "full_chunk_signature xxh3 data =
     (let h = xxh3 data
      in \<lparr>tier1 = [h, h, h], tier2 = [h, h, h, h], tier3 = [h, h, h, h, h, h]\<rparr>)"

text \<open>
  The range of sub-chunk \<open>i\<close> and the sample at its head. The ranges are always within the
  data (\<open>sub_chunk_in_range\<close>), so the slices of the source never panic.
\<close>

definition sub_chunk_range :: "bytes \<Rightarrow> nat \<Rightarrow> nat \<times> nat" where
  "sub_chunk_range data i =
     (let sc_size = length data div NUM_FEATURES;
          start = i * sc_size
      in (start, if i = NUM_FEATURES - 1 then length data else start + sc_size))"

definition sub_chunk_sample :: "bytes \<Rightarrow> nat \<Rightarrow> bytes" where
  "sub_chunk_sample data i =
     (let sc_size = length data div NUM_FEATURES;
          (start, stop) = sub_chunk_range data i
      in take (min SAMPLE_BYTES sc_size) (take (stop - start) (drop start data)))"

definition compute_features :: "(bytes \<Rightarrow> u64) \<Rightarrow> bytes \<Rightarrow> u64 list" where
  "compute_features xxh3 data = map (\<lambda>i. xxh3 (sub_chunk_sample data i)) [0..<NUM_FEATURES]"

definition sf_h :: "u64 list \<Rightarrow> nat \<Rightarrow> nat \<Rightarrow> u64" where
  "sf_h f s c = fold (\<lambda>v h. (h * 0x9e3779b97f4a7c15) XOR v) (take c (drop s f)) 0"

definition group_super_features :: "u64 list \<Rightarrow> chunk_signature" where
  "group_super_features f =
     \<lparr>tier1 = [sf_h f 0 4, sf_h f 4 4, sf_h f 8 4],
      tier2 = [sf_h f 0 3, sf_h f 3 3, sf_h f 6 3, sf_h f 9 3],
      tier3 = [sf_h f 0 2, sf_h f 2 2, sf_h f 4 2, sf_h f 6 2, sf_h f 8 2, sf_h f 10 2]\<rparr>"

definition extract_signature :: "(bytes \<Rightarrow> u64) \<Rightarrow> bytes \<Rightarrow> chunk_signature option" where
  "extract_signature xxh3 data =
     (if length data < 64 then None
      else if length data < SMALL_CHUNK_THRESHOLD then Some (full_chunk_signature xxh3 data)
      else Some (group_super_features (compute_features xxh3 data)))"

text \<open>
  \<^verbatim>\<open>check_similarity\<close>: the addresses of head and tail of \<open>a\<close> differ exactly when the tail
  does not start at offset 0.
\<close>

definition check_similarity :: "(bytes \<Rightarrow> u64) \<Rightarrow> bytes \<Rightarrow> bytes \<Rightarrow> bool" where
  "check_similarity xxh3 a b =
     (let head_a = take 64 a; head_b = take 64 b
      in if xxh3 head_a = xxh3 head_b then True
         else if length a > 64 \<and> length b > 64 then
           (let tail_a = drop (length a - 64) a; tail_b = drop (length b - 64) b
            in (length a - 64 \<noteq> 0 \<or> length a \<noteq> length b) \<and> xxh3 tail_a = xxh3 tail_b)
         else False)"

section \<open>Shapes\<close>

definition wf_signature :: "chunk_signature \<Rightarrow> bool" where
  "wf_signature sg \<longleftrightarrow> length (tier1 sg) = 3 \<and> length (tier2 sg) = 4 \<and> length (tier3 sg) = 6"

lemma extract_signature_wf: "extract_signature xxh3 data = Some sg \<Longrightarrow> wf_signature sg"
  by (auto simp: extract_signature_def wf_signature_def full_chunk_signature_def Let_def
      group_super_features_def split: if_splits)

lemma extract_signature_None_iff: "extract_signature xxh3 data = None \<longleftrightarrow> length data < 64"
  by (simp add: extract_signature_def feature_consts)

lemma length_compute_features [simp]: "length (compute_features xxh3 data) = 12"
  by (simp add: compute_features_def feature_consts)

lemma sub_chunk_in_range:
  assumes "i < NUM_FEATURES" and "sub_chunk_range data i = (start, stop)"
  shows "start \<le> stop \<and> stop \<le> length data
    \<and> min SAMPLE_BYTES (length data div NUM_FEATURES) \<le> stop - start"
proof -
  let ?s = "length data div 12"
  have "Suc i * ?s \<le> 12 * ?s" using assms(1) by (intro mult_le_mono1) (simp add: feature_consts)
  also have "12 * ?s \<le> length data" by simp
  finally have "i * ?s + ?s \<le> length data" by simp
  then show ?thesis
    using assms by (auto simp: sub_chunk_range_def Let_def feature_consts)
qed

text \<open>The sample of a sub-chunk is a short piece of the data at a fixed place.\<close>

lemma sub_chunk_sample_eq:
  assumes "i < NUM_FEATURES"
  shows "sub_chunk_sample data i =
    take (min SAMPLE_BYTES (length data div NUM_FEATURES))
      (drop (i * (length data div NUM_FEATURES)) data)"
proof -
  obtain start stop where r: "sub_chunk_range data i = (start, stop)" by force
  then have "start = i * (length data div NUM_FEATURES)"
    by (auto simp: sub_chunk_range_def Let_def)
  with sub_chunk_in_range [OF assms r] show ?thesis
    by (simp add: sub_chunk_sample_def Let_def r min_def)
qed

lemma compute_features_nth [simp]:
  "i < 12 \<Longrightarrow> compute_features xxh3 data ! i = xxh3 (sub_chunk_sample data i)"
  by (simp add: compute_features_def feature_consts)

section \<open>Locality\<close>

text \<open>A super-feature depends on its own group of features only.\<close>

lemma sf_h_cong:
  assumes "length f = length g" and "\<And>i. s \<le> i \<Longrightarrow> i < s + c \<Longrightarrow> f ! i = g ! i"
  shows "sf_h f s c = sf_h g s c"
proof -
  have "take c (drop s f) = take c (drop s g)"
    by (rule nth_equalityI) (use assms in auto)
  then show ?thesis by (simp add: sf_h_def)
qed

lemma group_super_features_tiers:
  "tier1 (group_super_features f) = map (\<lambda>k. sf_h f (4 * k) 4) [0..<3]"
  "tier2 (group_super_features f) = map (\<lambda>k. sf_h f (3 * k) 3) [0..<4]"
  "tier3 (group_super_features f) = map (\<lambda>k. sf_h f (2 * k) 2) [0..<6]"
  by (simp_all add: group_super_features_def upt_rec)

lemma outside_group:
  assumes "0 < c" and "k \<noteq> j div c"
  shows "j < c * k \<or> c * k + c \<le> (j :: nat)"
proof (cases "j div c < k")
  case True
  then show ?thesis using assms(1) by (simp add: div_less_iff_less_mult mult.commute)
next
  case False
  with assms(2) have "Suc k \<le> j div c" by simp
  then have "c * Suc k \<le> c * (j div c)" by (rule mult_le_mono2)
  also have "\<dots> \<le> j" by simp
  finally show ?thesis by (simp add: add.commute)
qed

lemma group_super_features_local:
  assumes "length f = length g" and "\<And>i. i < 12 \<Longrightarrow> i \<noteq> j \<Longrightarrow> f ! i = g ! i"
  shows "k < 3 \<Longrightarrow> k \<noteq> j div 4 \<Longrightarrow> tier1 (group_super_features f) ! k = tier1 (group_super_features g) ! k"
    and "k < 4 \<Longrightarrow> k \<noteq> j div 3 \<Longrightarrow> tier2 (group_super_features f) ! k = tier2 (group_super_features g) ! k"
    and "k < 6 \<Longrightarrow> k \<noteq> j div 2 \<Longrightarrow> tier3 (group_super_features f) ! k = tier3 (group_super_features g) ! k"
proof -
  have sf: "sf_h f s c = sf_h g s c" if "s + c \<le> 12" "j < s \<or> s + c \<le> j" for s c
    using assms that by (intro sf_h_cong) auto
  have nth1: "tier1 (group_super_features h) ! k = sf_h h (4 * k) 4" if "k < 3" for h and k :: nat
    using that by (simp add: group_super_features_tiers)
  have nth2: "tier2 (group_super_features h) ! k = sf_h h (3 * k) 3" if "k < 4" for h and k :: nat
    using that by (simp add: group_super_features_tiers)
  have nth3: "tier3 (group_super_features h) ! k = sf_h h (2 * k) 2" if "k < 6" for h and k :: nat
    using that by (simp add: group_super_features_tiers)
  show "tier1 (group_super_features f) ! k = tier1 (group_super_features g) ! k"
    if "k < 3" "k \<noteq> j div 4"
    unfolding nth1 [OF that(1)]
    by (rule sf, use that(1) in simp) (rule outside_group, simp, rule that(2))
  show "tier2 (group_super_features f) ! k = tier2 (group_super_features g) ! k"
    if "k < 4" "k \<noteq> j div 3"
    unfolding nth2 [OF that(1)]
    by (rule sf, use that(1) in simp) (rule outside_group, simp, rule that(2))
  show "tier3 (group_super_features f) ! k = tier3 (group_super_features g) ! k"
    if "k < 6" "k \<noteq> j div 2"
    unfolding nth3 [OF that(1)]
    by (rule sf, use that(1) in simp) (rule outside_group, simp, rule that(2))
qed

section \<open>Properties\<close>

text \<open>
  An edit of one sub-chunk stays local: for two chunks of the same length (at least 256
  bytes) whose samples differ in sub-chunk \<open>j\<close> at most, every super-feature other than
  \<open>j div 4\<close> of tier 1, \<open>j div 3\<close> of tier 2 and \<open>j div 2\<close> of tier 3 is the same in both
  signatures. At least two of the three super-features of the strictest tier still match.
\<close>

theorem extract_signature_local:
  assumes "length a = length b" and "256 \<le> length a"
    and "extract_signature xxh3 a = Some sa" and "extract_signature xxh3 b = Some sb"
    and "\<forall>i < NUM_FEATURES. i \<noteq> j \<longrightarrow> sub_chunk_sample a i = sub_chunk_sample b i"
  shows "(\<forall>k < 3. k \<noteq> j div 4 \<longrightarrow> tier1 sa ! k = tier1 sb ! k)
    \<and> (\<forall>k < 4. k \<noteq> j div 3 \<longrightarrow> tier2 sa ! k = tier2 sb ! k)
    \<and> (\<forall>k < 6. k \<noteq> j div 2 \<longrightarrow> tier3 sa ! k = tier3 sb ! k)"
proof -
  have s: "sa = group_super_features (compute_features xxh3 a)"
    "sb = group_super_features (compute_features xxh3 b)"
    using assms(1-4) by (auto simp: extract_signature_def feature_consts split: if_splits)
  have f: "compute_features xxh3 a ! i = compute_features xxh3 b ! i" if "i < 12" "i \<noteq> j" for i
    using assms(5) that by (simp add: feature_consts)
  show ?thesis
    unfolding s using group_super_features_local [of "compute_features xxh3 a" "compute_features xxh3 b" j]
      f by simp
qed

text \<open>
  C27. Only the first 32 bytes of each sub-chunk are looked at: two chunks of the same length
  (at least 256 bytes) that agree on these windows have the same signature, whatever the rest
  of their bytes. With sub-chunks of 2730 bytes that is all but 1.2 percent of the chunk.
\<close>

theorem extract_signature_blind:
  assumes "length a = length b" and "256 \<le> length a"
    and "\<forall>i < NUM_FEATURES. take SAMPLE_BYTES (drop (i * (length a div NUM_FEATURES)) a)
           = take SAMPLE_BYTES (drop (i * (length a div NUM_FEATURES)) b)"
  shows "extract_signature xxh3 a = extract_signature xxh3 b"
proof -
  have "sub_chunk_sample a i = sub_chunk_sample b i" if i: "i < NUM_FEATURES" for i
  proof -
    have t: "take (min SAMPLE_BYTES n) x = take n (take SAMPLE_BYTES x)" for n and x :: bytes
      by (simp add: min.commute)
    have "take SAMPLE_BYTES (drop (i * (length a div NUM_FEATURES)) a)
        = take SAMPLE_BYTES (drop (i * (length a div NUM_FEATURES)) b)"
      using assms(3) i by blast
    then show ?thesis
      unfolding sub_chunk_sample_eq [OF i] t by (simp only: assms(1))
  qed
  then have "compute_features xxh3 a = compute_features xxh3 b"
    by (simp add: compute_features_def)
  with assms(1,2) show ?thesis by (simp add: extract_signature_def feature_consts)
qed

text \<open>Both at 480 bytes: an edit of the head of sub-chunk 1, and one of the tail of sub-chunk 0.\<close>

theorem extract_signature_local_witness:
  "\<exists>sa sb. extract_signature (\<lambda>d. of_nat (length d)) (replicate 480 0) = Some sa
     \<and> extract_signature (\<lambda>d. of_nat (length d)) ((replicate 480 0)[40 := 1]) = Some sb
     \<and> tier1 sa ! 1 = tier1 sb ! 1 \<and> tier1 sa ! 2 = tier1 sb ! 2"
proof -
  let ?a = "replicate 480 (0 :: u8)" and ?x = "\<lambda>d :: bytes. of_nat (length d) :: u64"
  obtain sa sb where s: "extract_signature ?x ?a = Some sa"
    "extract_signature ?x (?a[40 := 1]) = Some sb"
    using extract_signature_None_iff [of ?x ?a] extract_signature_None_iff [of ?x "?a[40 := 1]"]
    by fastforce
  have "\<forall>i < NUM_FEATURES. i \<noteq> 1 \<longrightarrow> sub_chunk_sample ?a i = sub_chunk_sample (?a[40 := 1]) i"
  proof (intro allI impI)
    fix i :: nat
    assume i: "i < NUM_FEATURES" "i \<noteq> 1"
    then have "i = 0 \<or> 2 \<le> i" by linarith
    then show "sub_chunk_sample ?a i = sub_chunk_sample (?a[40 := 1]) i"
      unfolding sub_chunk_sample_eq [OF i(1)] by (auto simp: feature_consts drop_update_cancel)
  qed
  from extract_signature_local [OF _ _ s this] s show ?thesis by auto
qed

theorem extract_signature_blind_witness:
  "extract_signature (\<lambda>d. of_nat (length (filter (\<lambda>x. x = 1) d))) (replicate 480 0)
     = extract_signature (\<lambda>d. of_nat (length (filter (\<lambda>x. x = 1) d))) ((replicate 480 0)[39 := 1])"
proof (rule extract_signature_blind)
  have eq: "take SAMPLE_BYTES (drop (i * 40) (replicate 480 0))
      = take SAMPLE_BYTES (drop (i * 40) ((replicate 480 (0 :: u8))[39 := 1]))" for i :: nat
    by (cases "i = 0") (simp_all add: feature_consts drop_update_cancel)
  have n: "length (replicate 480 (0 :: u8)) div NUM_FEATURES = 40"
    by (simp add: feature_consts)
  show "\<forall>i < NUM_FEATURES.
      take SAMPLE_BYTES (drop (i * (length (replicate 480 (0 :: u8)) div NUM_FEATURES)) (replicate 480 0))
      = take SAMPLE_BYTES (drop (i * (length (replicate 480 (0 :: u8)) div NUM_FEATURES))
          ((replicate 480 (0 :: u8))[39 := 1]))"
    unfolding n using eq by blast
qed simp_all

end
