(* ===== verification/Palantir.thy ===== *)
theory Palantir
  imports Super_Feature
begin

text \<open>
  The similarity index of \<^verbatim>\<open>packt-lib/src/similarity/palantir.rs\<close>: \<^verbatim>\<open>PalantirIndex\<close> with its
  three tiers of super-feature maps, its signatures and its LRU queue, and the index sharded by
  the first byte of the hash. A \<^verbatim>\<open>HashMap<u64, Vec<Hash>>\<close> is a map to lists; the signature
  map is an association list, since \<open>export_entries\<close> iterates over it.
\<close>

section \<open>Tiers\<close>

datatype similarity_tier = High | Medium | Low

text \<open>The discriminants of the source order the tiers.\<close>

fun tier_rank :: "similarity_tier \<Rightarrow> nat" where
  "tier_rank High = 3"
| "tier_rank Medium = 2"
| "tier_rank Low = 1"

lemma tier_rank_inject [simp]: "tier_rank a = tier_rank b \<longleftrightarrow> a = b"
  by (cases a; cases b) simp_all

instantiation similarity_tier :: linorder
begin

definition less_eq_similarity_tier :: "similarity_tier \<Rightarrow> similarity_tier \<Rightarrow> bool" where
  "less_eq_similarity_tier a b \<longleftrightarrow> tier_rank a \<le> tier_rank b"

definition less_similarity_tier :: "similarity_tier \<Rightarrow> similarity_tier \<Rightarrow> bool" where
  "less_similarity_tier a b \<longleftrightarrow> tier_rank a < tier_rank b"

instance
  by standard (auto simp: less_eq_similarity_tier_def less_similarity_tier_def
      simp flip: tier_rank_inject)

end

lemma tier_order: "Low < Medium" "Medium < High"
  by (simp_all add: less_similarity_tier_def)

record match_candidate =
  mc_hash :: hash
  mc_tier :: similarity_tier

section \<open>The index\<close>

type_synonym sf_map = "u64 \<rightharpoonup> hash list"

record palantir_index =
  pi_tier1 :: "sf_map list"
  pi_tier2 :: "sf_map list"
  pi_tier3 :: "sf_map list"
  pi_signatures :: "(hash \<times> chunk_signature) list"
  pi_lru_order :: "hash list"
  pi_memory_budget :: nat
  pi_count :: nat

definition pal_new :: "nat \<Rightarrow> palantir_index" where
  "pal_new memory_budget =
     \<lparr>pi_tier1 = replicate 3 Map.empty, pi_tier2 = replicate 4 Map.empty,
      pi_tier3 = replicate 6 Map.empty, pi_signatures = [], pi_lru_order = [],
      pi_memory_budget = memory_budget, pi_count = 0\<rparr>"

definition bucket :: "sf_map \<Rightarrow> u64 \<Rightarrow> hash list" where
  "bucket m sf = (case m sf of None \<Rightarrow> [] | Some hs \<Rightarrow> hs)"

text \<open>\<^verbatim>\<open>entry(*sf).or_default().push(hash)\<close> and \<^verbatim>\<open>get_mut(sf)\<close> with \<^verbatim>\<open>retain\<close>, for every
  position of a tier.\<close>

definition push_sf :: "hash \<Rightarrow> sf_map \<Rightarrow> u64 \<Rightarrow> sf_map" where
  "push_sf h m sf = m(sf \<mapsto> bucket m sf @ [h])"

definition retain_sf :: "hash \<Rightarrow> sf_map \<Rightarrow> u64 \<Rightarrow> sf_map" where
  "retain_sf h m sf =
     (case m sf of None \<Rightarrow> m | Some hs \<Rightarrow> m(sf \<mapsto> filter (\<lambda>x. x \<noteq> h) hs))"

definition push_tier :: "hash \<Rightarrow> sf_map list \<Rightarrow> u64 list \<Rightarrow> sf_map list" where
  "push_tier h maps sfs = map2 (push_sf h) maps sfs"

definition retain_tier :: "hash \<Rightarrow> sf_map list \<Rightarrow> u64 list \<Rightarrow> sf_map list" where
  "retain_tier h maps sfs = map2 (retain_sf h) maps sfs"

definition pal_remove :: "palantir_index \<Rightarrow> hash \<Rightarrow> palantir_index" where
  "pal_remove s h =
     (case map_of (pi_signatures s) h of
        None \<Rightarrow> s
      | Some sg \<Rightarrow> s\<lparr>pi_signatures := AList.delete h (pi_signatures s),
          pi_tier1 := retain_tier h (pi_tier1 s) (tier1 sg),
          pi_tier2 := retain_tier h (pi_tier2 s) (tier2 sg),
          pi_tier3 := retain_tier h (pi_tier3 s) (tier3 sg),
          pi_lru_order := filter (\<lambda>x. x \<noteq> h) (pi_lru_order s),
          pi_count := pi_count s - 1\<rparr>)"

lemma pal_remove_lru_length: "length (pi_lru_order (pal_remove s h)) \<le> length (pi_lru_order s)"
  by (simp add: pal_remove_def split: option.split)

function enforce_budget :: "palantir_index \<Rightarrow> palantir_index" where
  "enforce_budget s =
     (if 0 < pi_count s \<and> pi_memory_budget s \<le> pi_count s
      then (case pi_lru_order s of
              [] \<Rightarrow> s
            | oldest # rest \<Rightarrow> enforce_budget (pal_remove (s\<lparr>pi_lru_order := rest\<rparr>) oldest))
      else s)"
  by pat_completeness auto
termination
proof (relation "measure (\<lambda>s. length (pi_lru_order s))")
  fix s :: palantir_index and oldest rest
  assume "pi_lru_order s = oldest # rest"
  then show "(pal_remove (s\<lparr>pi_lru_order := rest\<rparr>) oldest, s)
      \<in> measure (\<lambda>s. length (pi_lru_order s))"
    using pal_remove_lru_length [of "s\<lparr>pi_lru_order := rest\<rparr>" oldest] by simp
qed simp

declare enforce_budget.simps [simp del]

definition pal_insert :: "palantir_index \<Rightarrow> hash \<Rightarrow> chunk_signature \<Rightarrow> palantir_index" where
  "pal_insert s0 h sg =
     (let s = enforce_budget s0
      in s\<lparr>pi_signatures := AList.update h sg (pi_signatures s),
           pi_lru_order := pi_lru_order s @ [h],
           pi_count := pi_count s + 1,
           pi_tier1 := push_tier h (pi_tier1 s) (tier1 sg),
           pi_tier2 := push_tier h (pi_tier2 s) (tier2 sg),
           pi_tier3 := push_tier h (pi_tier3 s) (tier3 sg)\<rparr>)"

definition pal_touch :: "palantir_index \<Rightarrow> hash \<Rightarrow> palantir_index" where
  "pal_touch s h =
     (if h \<in> set (pi_lru_order s)
      then s\<lparr>pi_lru_order := remove1 h (pi_lru_order s) @ [h]\<rparr> else s)"

definition MAX_CANDIDATES_PER_SF :: nat where
  "MAX_CANDIDATES_PER_SF = 5"

fun bump :: "hash \<Rightarrow> (hash \<times> nat) list \<Rightarrow> (hash \<times> nat) list" where
  "bump h [] = [(h, 1)]"
| "bump h ((k, n) # out) = (if k = h then (k, n + 1) # out else (k, n) # bump h out)"

definition count_entry :: "hash \<Rightarrow> hash \<Rightarrow> (hash \<times> nat) list \<Rightarrow> (hash \<times> nat) list" where
  "count_entry query_hash entry_hash out =
     (if entry_hash = query_hash then out else bump entry_hash out)"

definition tier_candidates :: "hash \<Rightarrow> u64 list \<Rightarrow> sf_map list \<Rightarrow> (hash \<times> nat) list" where
  "tier_candidates query_hash sfs tier_maps =
     fold (\<lambda>(sf, m). fold (count_entry query_hash) (take MAX_CANDIDATES_PER_SF (bucket m sf)))
       (zip sfs tier_maps) []"

fun best_match ::
    "(hash \<Rightarrow> bool) \<Rightarrow> (hash \<times> nat) list \<Rightarrow> (hash \<times> nat) option \<Rightarrow> (hash \<times> nat) option" where
  "best_match live [] best = best"
| "best_match live ((h, n) # out) best =
     best_match live out
       (if live h
        then (case best of
                Some (bh, best_count) \<Rightarrow> if n > best_count then Some (h, n) else best
              | None \<Rightarrow> Some (h, n))
        else best)"

definition query_tier ::
    "palantir_index \<Rightarrow> hash \<Rightarrow> u64 list \<Rightarrow> sf_map list \<Rightarrow> hash option" where
  "query_tier s query_hash sfs tier_maps =
     map_option fst (best_match (\<lambda>h. map_of (pi_signatures s) h \<noteq> None)
       (tier_candidates query_hash sfs tier_maps) None)"

definition pal_query ::
    "palantir_index \<Rightarrow> hash \<Rightarrow> chunk_signature \<Rightarrow> match_candidate option \<times> palantir_index" where
  "pal_query s h sg =
     (case query_tier s h (tier1 sg) (pi_tier1 s) of
        Some c \<Rightarrow> (Some \<lparr>mc_hash = c, mc_tier = High\<rparr>, pal_touch s c)
      | None \<Rightarrow>
     (case query_tier s h (tier2 sg) (pi_tier2 s) of
        Some c \<Rightarrow> (Some \<lparr>mc_hash = c, mc_tier = Medium\<rparr>, pal_touch s c)
      | None \<Rightarrow>
     (case query_tier s h (tier3 sg) (pi_tier3 s) of
        Some c \<Rightarrow> (Some \<lparr>mc_hash = c, mc_tier = Low\<rparr>, pal_touch s c)
      | None \<Rightarrow> (None, s))))"

definition pal_clear :: "palantir_index \<Rightarrow> palantir_index" where
  "pal_clear s = s\<lparr>pi_signatures := [], pi_lru_order := [], pi_count := 0,
     pi_tier1 := map (\<lambda>_. Map.empty) (pi_tier1 s),
     pi_tier2 := map (\<lambda>_. Map.empty) (pi_tier2 s),
     pi_tier3 := map (\<lambda>_. Map.empty) (pi_tier3 s)\<rparr>"

definition pal_rebuild ::
    "palantir_index \<Rightarrow> (hash \<times> chunk_signature) list \<Rightarrow> palantir_index" where
  "pal_rebuild s entries = fold (\<lambda>(h, sg) s. pal_insert s h sg) entries (pal_clear s)"

definition pal_len :: "palantir_index \<Rightarrow> nat" where
  "pal_len s = pi_count s"

definition pal_is_empty :: "palantir_index \<Rightarrow> bool" where
  "pal_is_empty s = (pi_count s = 0)"

definition pal_export_entries :: "palantir_index \<Rightarrow> (hash \<times> chunk_signature) list" where
  "pal_export_entries s = pi_signatures s"

section \<open>The sharded index\<close>

definition NUM_SHARDS :: nat where "NUM_SHARDS = 4"

type_synonym sharded_index = "palantir_index list"

definition sharded_new :: "nat \<Rightarrow> sharded_index" where
  "sharded_new total_budget =
     (let per_shard = total_budget div NUM_SHARDS in replicate NUM_SHARDS (pal_new per_shard))"

definition shard_id :: "hash \<Rightarrow> nat" where
  "shard_id h = unat (hash_bytes h ! 0) mod NUM_SHARDS"

definition sharded_query ::
    "sharded_index \<Rightarrow> hash \<Rightarrow> chunk_signature \<Rightarrow> match_candidate option \<times> sharded_index" where
  "sharded_query shards h sg =
     (let sid = shard_id h; (r, index) = pal_query (shards ! sid) h sg
      in (r, shards[sid := index]))"

definition sharded_insert :: "sharded_index \<Rightarrow> hash \<Rightarrow> chunk_signature \<Rightarrow> sharded_index" where
  "sharded_insert shards h sg =
     (let sid = shard_id h in shards[sid := pal_insert (shards ! sid) h sg])"

definition sharded_rebuild ::
    "sharded_index \<Rightarrow> (hash \<times> chunk_signature) list \<Rightarrow> sharded_index" where
  "sharded_rebuild shards entries =
     fold (\<lambda>(h, sg) shards. sharded_insert shards h sg) entries
       (map (\<lambda>index. pal_rebuild index []) shards)"

definition sharded_len :: "sharded_index \<Rightarrow> nat" where
  "sharded_len shards = sum_list (map pal_len shards)"

definition sharded_is_empty :: "sharded_index \<Rightarrow> bool" where
  "sharded_is_empty shards = (sharded_len shards = 0)"

definition sharded_export_entries :: "sharded_index \<Rightarrow> (hash \<times> chunk_signature) list" where
  "sharded_export_entries shards = concat (map pal_export_entries shards)"

section \<open>The invariant\<close>

text \<open>
  Each bucket of a tier holds exactly the live entries with that super-feature at that position,
  once each; the queue holds the live entries, once each; the count is their number.
\<close>

named_theorems pal_simps \<open>effects of the index operations\<close>

definition tier_inv ::
    "(chunk_signature \<Rightarrow> u64 list) \<Rightarrow> sf_map list \<Rightarrow> (hash \<times> chunk_signature) list \<Rightarrow> bool" where
  "tier_inv sel maps sigs \<longleftrightarrow>
     (\<forall>i < length maps. \<forall>sf. distinct (bucket (maps ! i) sf)
        \<and> (\<forall>h. h \<in> set (bucket (maps ! i) sf) \<longleftrightarrow>
              (\<exists>sg. map_of sigs h = Some sg \<and> sel sg ! i = sf)))"

definition pal_wf :: "palantir_index \<Rightarrow> bool" where
  "pal_wf s \<longleftrightarrow>
     length (pi_tier1 s) = 3 \<and> length (pi_tier2 s) = 4 \<and> length (pi_tier3 s) = 6
     \<and> tier_inv tier1 (pi_tier1 s) (pi_signatures s)
     \<and> tier_inv tier2 (pi_tier2 s) (pi_signatures s)
     \<and> tier_inv tier3 (pi_tier3 s) (pi_signatures s)
     \<and> distinct (pi_lru_order s) \<and> set (pi_lru_order s) = dom (map_of (pi_signatures s))
     \<and> pi_count s = length (pi_lru_order s)
     \<and> (\<forall>h sg. map_of (pi_signatures s) h = Some sg \<longrightarrow> wf_signature sg)"

lemma bucket_push [simp]:
  "bucket (push_sf h m sf) x = (if x = sf then bucket m sf @ [h] else bucket m x)"
  by (simp add: bucket_def push_sf_def)

lemma bucket_retain [simp]:
  "bucket (retain_sf h m sf) x = (if x = sf then filter (\<lambda>k. k \<noteq> h) (bucket m sf) else bucket m x)"
  by (auto simp: bucket_def retain_sf_def split: option.split)

lemma bucket_empty [simp]: "bucket Map.empty sf = []"
  by (simp add: bucket_def)

lemma length_tiers [simp]:
  "length (push_tier h maps sfs) = min (length maps) (length sfs)"
  "length (retain_tier h maps sfs) = min (length maps) (length sfs)"
  by (simp_all add: push_tier_def retain_tier_def)

lemma tier_inv_push:
  assumes "tier_inv sel maps sigs" and "map_of sigs h = None" and "length (sel sg) = length maps"
  shows "tier_inv sel (push_tier h maps (sel sg)) (AList.update h sg sigs)"
  using assms by (auto simp: tier_inv_def push_tier_def update_conv' split: if_splits)

lemma tier_inv_retain:
  assumes "tier_inv sel maps sigs" and "map_of sigs h = Some sg" and "length (sel sg) = length maps"
  shows "tier_inv sel (retain_tier h maps (sel sg)) (AList.delete h sigs)"
  using assms by (auto simp: tier_inv_def retain_tier_def AList.delete_conv' split: if_splits)

lemma pal_new_wf: "pal_wf (pal_new budget)"
  by (simp add: pal_wf_def pal_new_def tier_inv_def)

lemma pal_clear_wf:
  assumes "pal_wf s"
  shows "pal_wf (pal_clear s)"
  using assms by (simp add: pal_wf_def pal_clear_def tier_inv_def)

lemma pal_remove_wf:
  assumes "pal_wf s"
  shows "pal_wf (pal_remove s h)"
    and "map_of (pi_signatures (pal_remove s h)) = (map_of (pi_signatures s))(h := None)"
    and "pi_memory_budget (pal_remove s h) = pi_memory_budget s"
    and "pi_lru_order (pal_remove s h) = filter (\<lambda>x. x \<noteq> h) (pi_lru_order s)"
proof -
  show "map_of (pi_signatures (pal_remove s h)) = (map_of (pi_signatures s))(h := None)"
    by (auto simp: pal_remove_def AList.delete_conv' fun_upd_idem split: option.split)
  show "pi_memory_budget (pal_remove s h) = pi_memory_budget s"
    by (simp add: pal_remove_def split: option.split)
  have out: "h \<notin> set (pi_lru_order s)" if "map_of (pi_signatures s) h = None"
    using assms that by (auto simp: pal_wf_def domIff)
  then show "pi_lru_order (pal_remove s h) = filter (\<lambda>x. x \<noteq> h) (pi_lru_order s)"
    by (simp add: pal_remove_def filter_neq_id split: option.split)
  show "pal_wf (pal_remove s h)"
  proof (cases "map_of (pi_signatures s) h")
    case None
    with assms show ?thesis by (simp add: pal_remove_def)
  next
    case (Some sg)
    have lens: "length (tier1 sg) = length (pi_tier1 s)" "length (tier2 sg) = length (pi_tier2 s)"
      "length (tier3 sg) = length (pi_tier3 s)"
      using assms Some by (auto simp: pal_wf_def wf_signature_def)
    have "h \<in> set (pi_lru_order s)" using assms Some by (auto simp: pal_wf_def)
    then have "length (filter (\<lambda>x. x \<noteq> h) (pi_lru_order s)) = length (pi_lru_order s) - 1"
      using assms by (simp add: pal_wf_def length_filter_neq)
    with assms Some lens show ?thesis
      by (auto simp: pal_remove_def pal_wf_def tier_inv_retain AList.delete_conv' split: if_splits)
  qed
qed

text \<open>The budget loop drops the oldest entries, exactly as many as needed.\<close>

lemma enforce_budget_spec:
  assumes "pal_wf s"
  shows "pal_wf (enforce_budget s)
    \<and> pi_memory_budget (enforce_budget s) = pi_memory_budget s
    \<and> pi_lru_order (enforce_budget s)
        = drop (length (pi_lru_order s) - (pi_memory_budget s - 1)) (pi_lru_order s)
    \<and> map_of (pi_signatures (enforce_budget s))
        = map_of (pi_signatures s) |` set (pi_lru_order (enforce_budget s))"
  using assms
proof (induction s rule: enforce_budget.induct)
  case (1 s)
  have count: "pi_count s = length (pi_lru_order s)"
    and dom: "set (pi_lru_order s) = dom (map_of (pi_signatures s))"
    using "1.prems" by (auto simp: pal_wf_def)
  show ?case
  proof (cases "0 < pi_count s \<and> pi_memory_budget s \<le> pi_count s")
    case False
    then have "length (pi_lru_order s) - (pi_memory_budget s - 1) = 0" using count by auto
    moreover have "map_of (pi_signatures s) = map_of (pi_signatures s) |` set (pi_lru_order s)"
      unfolding dom by (auto simp: restrict_map_def fun_eq_iff dom_def)
    moreover have "enforce_budget s = s"
      by (subst enforce_budget.simps) (use False in auto)
    ultimately show ?thesis using "1.prems" by simp
  next
    case True
    then obtain oldest rest where lru: "pi_lru_order s = oldest # rest"
      using count by (cases "pi_lru_order s") auto
    let ?s = "pal_remove (s\<lparr>pi_lru_order := rest\<rparr>) oldest"
    have live: "map_of (pi_signatures s) oldest \<noteq> None" using dom lru by auto
    have new: "oldest \<notin> set rest" using "1.prems" lru by (simp add: pal_wf_def)
    have same: "?s = pal_remove s oldest"
      using live lru by (auto simp: pal_remove_def)
    note rem = pal_remove_wf [OF "1.prems", of oldest, folded same]
    have lru': "pi_lru_order ?s = rest" using rem(4) lru new by (simp add: filter_neq_id)
    have IH: "pal_wf (enforce_budget ?s)"
      "pi_memory_budget (enforce_budget ?s) = pi_memory_budget s"
      "pi_lru_order (enforce_budget ?s) = drop (length rest - (pi_memory_budget s - 1)) rest"
      "map_of (pi_signatures (enforce_budget ?s))
        = (map_of (pi_signatures s))(oldest := None) |` set (pi_lru_order (enforce_budget ?s))"
      using "1.IH" [OF True lru rem(1)] unfolding rem(2,3) lru' by blast+
    have "oldest \<notin> set (pi_lru_order (enforce_budget ?s))"
      using new by (auto simp: IH(3) dest: in_set_dropD)
    then have m: "map_of (pi_signatures (enforce_budget ?s))
        = map_of (pi_signatures s) |` set (pi_lru_order (enforce_budget ?s))"
      unfolding IH(4) by (auto simp: restrict_map_def fun_eq_iff)
    have "length (pi_lru_order s) - (pi_memory_budget s - 1)
        = Suc (length rest - (pi_memory_budget s - 1))"
      using True count lru by (cases "pi_memory_budget s") auto
    with True lru IH m show ?thesis by (simp add: enforce_budget.simps [of s])
  qed
qed

lemma pal_insert_spec:
  assumes "pal_wf s" and "map_of (pi_signatures s) h = None" and "wf_signature sg"
  defines "kept \<equiv> drop (length (pi_lru_order s) - (pi_memory_budget s - 1)) (pi_lru_order s)"
  shows "pal_wf (pal_insert s h sg)"
    and "pi_memory_budget (pal_insert s h sg) = pi_memory_budget s"
    and "pi_lru_order (pal_insert s h sg) = kept @ [h]"
    and "map_of (pi_signatures (pal_insert s h sg)) = (map_of (pi_signatures s) |` set kept)(h \<mapsto> sg)"
proof -
  let ?s = "enforce_budget s"
  have e: "pal_wf ?s" "pi_memory_budget ?s = pi_memory_budget s" "pi_lru_order ?s = kept"
    "map_of (pi_signatures ?s) = map_of (pi_signatures s) |` set kept"
    using enforce_budget_spec [OF assms(1)] by (simp_all add: kept_def)
  have None: "map_of (pi_signatures ?s) h = None" using assms(2) e(4) by (simp add: restrict_map_def)
  have out: "h \<notin> set (pi_lru_order ?s)" using e(1) None by (auto simp: pal_wf_def domIff)
  show "pal_wf (pal_insert s h sg)"
    using e(1) None out assms(3)
    by (auto simp: pal_insert_def pal_wf_def Let_def tier_inv_push wf_signature_def update_conv'
        split: if_splits)
  show "pi_memory_budget (pal_insert s h sg) = pi_memory_budget s"
    "pi_lru_order (pal_insert s h sg) = kept @ [h]"
    "map_of (pi_signatures (pal_insert s h sg)) = (map_of (pi_signatures s) |` set kept)(h \<mapsto> sg)"
    using e by (simp_all add: pal_insert_def Let_def update_conv')
qed

lemma pal_touch_simps [simp]:
  "pi_signatures (pal_touch s h) = pi_signatures s"
  "pi_memory_budget (pal_touch s h) = pi_memory_budget s"
  "set (pi_lru_order (pal_touch s h)) = set (pi_lru_order s)"
  using set_move_back [of h "pi_lru_order s"] by (simp_all add: pal_touch_def)

lemma pal_touch_wf: "pal_wf s \<Longrightarrow> pal_wf (pal_touch s h)"
  using set_move_back [of h "pi_lru_order s"] length_move_back [of h "pi_lru_order s"]
  by (simp add: pal_wf_def pal_touch_def distinct_remove1)

section \<open>Queries\<close>

text \<open>
  The live entries other than the query that share a super-feature of a tier with it, at the
  same position: what a query looks for.
\<close>

definition shares ::
    "(chunk_signature \<Rightarrow> u64 list) \<Rightarrow> (hash \<times> chunk_signature) list
      \<Rightarrow> hash \<Rightarrow> chunk_signature \<Rightarrow> hash \<Rightarrow> bool" where
  "shares sel sigs q sg k \<longleftrightarrow>
     k \<noteq> q \<and> (case map_of sigs k of None \<Rightarrow> False
       | Some sg' \<Rightarrow> (\<exists>i < length (sel sg). sel sg' ! i = sel sg ! i))"

lemma fst_set_bump [simp]: "fst ` set (bump h out) = insert h (fst ` set out)"
  by (induction h out rule: bump.induct) auto

lemma fst_set_count_entries:
  "fst ` set (fold (count_entry q) hs out) = fst ` set out \<union> (set hs - {q})"
  by (induction hs arbitrary: out) (auto simp: count_entry_def)

lemma tier_candidates_set:
  "fst ` set (tier_candidates q sfs maps)
     = (\<Union>(sf, m) \<in> set (zip sfs maps). set (take MAX_CANDIDATES_PER_SF (bucket m sf)) - {q})"
proof -
  have "fst ` set (fold (\<lambda>(sf, m). fold (count_entry q) (take MAX_CANDIDATES_PER_SF (bucket m sf)))
      ps out) = fst ` set out
      \<union> (\<Union>(sf, m) \<in> set ps. set (take MAX_CANDIDATES_PER_SF (bucket m sf)) - {q})" for ps out
    by (induction ps arbitrary: out) (simp_all add: fst_set_count_entries Un_assoc split: prod.split)
  from this [of "zip sfs maps" "[]"] show ?thesis by (simp add: tier_candidates_def)
qed

lemma best_match_Some:
  "best_match live out best = Some (h, n) \<Longrightarrow>
     (best = Some (h, n) \<or> live h \<and> (h, n) \<in> set out)
     \<and> (\<forall>k m. (k, m) \<in> set out \<longrightarrow> live k \<longrightarrow> m \<le> n) \<and> (\<forall>k m. best = Some (k, m) \<longrightarrow> m \<le> n)"
  by (induction live out best rule: best_match.induct)
    (fastforce split: if_splits option.splits)+

lemma best_match_None: "best_match live out best = None \<longleftrightarrow> best = None \<and> (\<forall>p\<in>set out. \<not> live (fst p))"
  by (induction live out best rule: best_match.induct)
    (auto split: if_splits option.splits)

text \<open>The cap on candidates hides no match: another entry is among the first two of a bucket.\<close>

lemma take_has_other:
  assumes "distinct hs" and "k \<in> set hs" and "k \<noteq> q" and "2 \<le> n"
  shows "\<exists>k' \<in> set (take n hs). k' \<noteq> q"
proof (cases hs)
  case (Cons a as)
  show ?thesis
  proof (cases "a = q")
    case False
    with Cons assms(4) show ?thesis by (cases n) auto
  next
    case True
    with Cons assms(2,3) obtain b bs where as: "as = b # bs" by (cases as) auto
    then have "b \<in> set (take n hs)" "b \<noteq> q"
      using Cons True assms(1,4) by (auto simp: take_Cons' numeral_2_eq_2)
    then show ?thesis by blast
  qed
qed (use assms in simp)

lemma in_bucket_iff:
  assumes "tier_inv sel maps sigs" and "i < length maps"
  shows "k \<in> set (bucket (maps ! i) sf) \<longleftrightarrow> (\<exists>sg. map_of sigs k = Some sg \<and> sel sg ! i = sf)"
  using assms by (auto simp: tier_inv_def)

lemma query_tier_spec:
  assumes inv: "tier_inv sel maps (pi_signatures s)" and len: "length (sel sg) = length maps"
  shows "case query_tier s q (sel sg) maps of
           None \<Rightarrow> \<forall>k. \<not> shares sel (pi_signatures s) q sg k
         | Some c \<Rightarrow> shares sel (pi_signatures s) q sg c"
proof (cases "query_tier s q (sel sg) maps")
  case None
  have "\<not> shares sel (pi_signatures s) q sg k" for k
  proof
    assume k: "shares sel (pi_signatures s) q sg k"
    then obtain i where i: "i < length maps" "k \<noteq> q" "k \<in> set (bucket (maps ! i) (sel sg ! i))"
      using len by (auto simp: shares_def in_bucket_iff [OF inv] split: option.splits)
    have "distinct (bucket (maps ! i) (sel sg ! i))" using inv i(1) by (simp add: tier_inv_def)
    then obtain k' where k': "k' \<in> set (take MAX_CANDIDATES_PER_SF (bucket (maps ! i) (sel sg ! i)))"
      "k' \<noteq> q"
      using take_has_other [OF _ i(3,2), of MAX_CANDIDATES_PER_SF]
      by (auto simp: MAX_CANDIDATES_PER_SF_def)
    have "(sel sg ! i, maps ! i) \<in> set (zip (sel sg) maps)"
      using i(1) len by (auto simp: set_zip)
    with k' have "k' \<in> fst ` set (tier_candidates q (sel sg) maps)"
      unfolding tier_candidates_set by blast
    moreover have "map_of (pi_signatures s) k' \<noteq> None"
      using in_set_takeD [OF k'(1)] unfolding in_bucket_iff [OF inv i(1)] by auto
    ultimately show False
      using None by (auto simp: query_tier_def best_match_None)
  qed
  with None show ?thesis by simp
next
  case (Some c)
  then obtain n where b: "best_match (\<lambda>h. map_of (pi_signatures s) h \<noteq> None)
      (tier_candidates q (sel sg) maps) None = Some (c, n)"
    by (auto simp: query_tier_def)
  then have "c \<in> fst ` set (tier_candidates q (sel sg) maps)"
    by (auto dest!: best_match_Some intro: rev_image_eqI)
  then obtain i where "i < length maps" "c \<in> set (bucket (maps ! i) (sel sg ! i))" "c \<noteq> q"
    unfolding tier_candidates_set using len by (auto simp: set_zip dest!: in_set_takeD)
  then have "shares sel (pi_signatures s) q sg c"
    using len by (auto simp: shares_def in_bucket_iff [OF inv])
  with Some show ?thesis by simp
qed

lemma pal_query_wf:
  assumes "pal_wf s" and "pal_query s h sg = (r, s')"
  shows "pal_wf s' \<and> pi_signatures s' = pi_signatures s \<and> pi_memory_budget s' = pi_memory_budget s
    \<and> set (pi_lru_order s') = set (pi_lru_order s)"
  using assms by (auto simp: pal_query_def pal_touch_wf split: option.splits)

section \<open>Properties\<close>


definition flat_signature :: "u64 \<Rightarrow> chunk_signature" where
  "flat_signature x = \<lparr>tier1 = replicate 3 x, tier2 = replicate 4 x, tier3 = replicate 6 x\<rparr>"

lemma wf_flat_signature [simp]: "wf_signature (flat_signature x)"
  by (simp add: wf_signature_def flat_signature_def)


section \<open>The entries that are live\<close>

text \<open>The hashes an index can report.\<close>

definition pal_live :: "palantir_index \<Rightarrow> hash set" where
  "pal_live s = dom (map_of (pi_signatures s))"

lemma pal_remove_live: "pal_live (pal_remove s h) \<subseteq> pal_live s"
  by (auto simp: pal_live_def pal_remove_def AList.delete_conv' split: option.split if_splits)

lemma enforce_budget_live: "pal_live (enforce_budget s) \<subseteq> pal_live s"
proof (induction s rule: enforce_budget.induct)
  case (1 s)
  show ?case
  proof (cases "0 < pi_count s \<and> pi_memory_budget s \<le> pi_count s")
    case True
    show ?thesis
    proof (cases "pi_lru_order s")
      case (Cons oldest rest)
      have "pal_live (pal_remove (s\<lparr>pi_lru_order := rest\<rparr>) oldest) \<subseteq> pal_live s"
        using pal_remove_live [of "s\<lparr>pi_lru_order := rest\<rparr>" oldest] by (simp add: pal_live_def)
      with "1.IH" [OF True Cons] show ?thesis
        by (subst enforce_budget.simps) (use Cons in auto)
    qed (subst enforce_budget.simps, use True in auto)
  qed (subst enforce_budget.simps, auto)
qed

lemma pal_insert_live: "pal_live (pal_insert s h sg) \<subseteq> insert h (pal_live s)"
  using enforce_budget_live [of s]
  by (auto simp: pal_live_def pal_insert_def Let_def update_conv' split: if_splits)

lemma query_tier_live: "query_tier s q sfs maps = Some c \<Longrightarrow> c \<in> pal_live s \<and> c \<noteq> q"
proof -
  assume "query_tier s q sfs maps = Some c"
  then obtain n where b: "best_match (\<lambda>h. map_of (pi_signatures s) h \<noteq> None)
      (tier_candidates q sfs maps) None = Some (c, n)"
    by (auto simp: query_tier_def)
  then have c: "map_of (pi_signatures s) c \<noteq> None" "(c, n) \<in> set (tier_candidates q sfs maps)"
    using best_match_Some [OF b] by auto
  have "c \<in> fst ` set (tier_candidates q sfs maps)" using c(2) by force
  then have "c \<noteq> q" unfolding tier_candidates_set by auto
  with c(1) show ?thesis by (auto simp: pal_live_def)
qed

lemma pal_query_live:
  assumes "pal_query s h sg = (r, s')"
  shows "pal_live s' = pal_live s \<and> (\<forall>c. r = Some c \<longrightarrow> mc_hash c \<in> pal_live s \<and> mc_hash c \<noteq> h)"
  using assms by (auto simp: pal_query_def pal_live_def split: option.splits
      dest!: query_tier_live)

section \<open>Eviction\<close>

text \<open>
  The operations the stage uses, in any order. An insertion is recorded with whether its hash was live
  already, after the budget had been enforced; the source counts such an entry once more.
\<close>

datatype pal_op = Insert hash chunk_signature | Query hash chunk_signature

datatype pal_event = Inserted bool | Answered "match_candidate option"

fun pal_step :: "pal_op \<Rightarrow> palantir_index \<Rightarrow> pal_event \<times> palantir_index" where
  "pal_step (Insert h sg) s = (Inserted (map_of (pi_signatures (enforce_budget s)) h \<noteq> None), pal_insert s h sg)"
| "pal_step (Query h sg) s = (let (r, s) = pal_query s h sg in (Answered r, s))"

definition pal_run :: "palantir_index \<Rightarrow> pal_op list \<Rightarrow> pal_event list \<times> palantir_index" where
  "pal_run s ops = fold (\<lambda>op (es, s). let (e, s) = pal_step op s in (es @ [e], s)) ops ([], s)"

definition leaks :: "pal_event list \<Rightarrow> nat" where
  "leaks es = length (filter (\<lambda>e. e = Inserted True) es)"

fun inserted_pairs :: "pal_op list \<Rightarrow> (hash \<times> chunk_signature) list" where
  "inserted_pairs [] = []"
| "inserted_pairs (Insert h sg # ops) = (h, sg) # inserted_pairs ops"
| "inserted_pairs (Query h sg # ops) = inserted_pairs ops"

text \<open>
  The specification: a queue ordered by the last use, which is the insertion or a query that the entry
  answered. An insertion drops the entries used longest ago, as many as needed to make room.
\<close>

fun lru_step :: "nat \<Rightarrow> pal_op \<times> pal_event \<Rightarrow> hash list \<Rightarrow> hash list" where
  "lru_step budget (Insert h sg, e) q = drop (length q - (budget - 1)) q @ [h]"
| "lru_step budget (Query h sg, Answered (Some c)) q = remove1 (mc_hash c) q @ [mc_hash c]"
| "lru_step budget (Query h sg, e) q = q"

definition lru_queue :: "nat \<Rightarrow> pal_op list \<Rightarrow> pal_event list \<Rightarrow> hash list" where
  "lru_queue budget ops es = fold (lru_step budget) (zip ops es) []"

lemma inserted_append [simp]: "inserted_pairs (ops @ ops') = inserted_pairs ops @ inserted_pairs ops'"
  by (induction ops rule: inserted_pairs.induct) simp_all

lemma leaks_simps [simp]:
  "leaks [] = 0" "leaks (es @ [e]) = leaks es + (if e = Inserted True then 1 else 0)"
  by (simp_all add: leaks_def)

lemma pal_run_snoc:
  "pal_run s (ops @ [op]) = (let (es, s1) = pal_run s ops; (e, s2) = pal_step op s1 in (es @ [e], s2))"
  by (simp add: pal_run_def Let_def split: prod.split)

lemma pal_run_length: "pal_run s ops = (es, s') \<Longrightarrow> length es = length ops"
  by (induction ops arbitrary: es s' rule: rev_induct)
    (auto simp: pal_run_snoc Let_def split: prod.splits, simp add: pal_run_def)

lemma finite_live [simp]: "finite (pal_live s)"
  by (simp add: pal_live_def finite_dom_map_of)

text \<open>
  What holds even when a live hash is inserted_pairs again: \<open>k\<close> of the entries counted are not there.
\<close>

definition counted :: "nat \<Rightarrow> nat \<Rightarrow> palantir_index \<Rightarrow> bool" where
  "counted b k s \<longleftrightarrow> set (pi_lru_order s) = pal_live s \<and> pi_count s = card (pal_live s) + k
     \<and> pi_memory_budget s = b"

lemma pal_remove_counted:
  assumes "counted b k s" and "pi_lru_order s = oldest # rest"
  defines "s' \<equiv> pal_remove (s\<lparr>pi_lru_order := rest\<rparr>) oldest"
  shows "counted b k s' \<and> map_of (pi_signatures s') = (map_of (pi_signatures s))(oldest := None)"
proof -
  have live: "oldest \<in> pal_live s" "set rest \<union> {oldest} = pal_live s"
    using assms(1,2) by (auto simp: counted_def)
  then obtain sg where sg: "map_of (pi_signatures s) oldest = Some sg" by (auto simp: pal_live_def)
  have m: "map_of (pi_signatures s') = (map_of (pi_signatures s))(oldest := None)"
    by (simp add: s'_def pal_remove_def sg AList.delete_conv')
  then have l: "pal_live s' = pal_live s - {oldest}" by (auto simp: pal_live_def split: if_splits)
  have "pi_lru_order s' = filter (\<lambda>x. x \<noteq> oldest) rest" by (simp add: s'_def pal_remove_def sg)
  then have "set (pi_lru_order s') = pal_live s'" unfolding l live(2) [symmetric] by auto
  moreover have "pi_count s' = card (pal_live s') + k"
  proof -
    have "0 < card (pal_live s)" using live(1) by (auto simp: card_gt_0_iff)
    then show ?thesis using assms(1) live(1) by (simp add: l) (simp add: s'_def pal_remove_def sg counted_def)
  qed
  moreover have "pi_memory_budget s' = b" using assms(1) by (simp add: s'_def pal_remove_def sg counted_def)
  ultimately show ?thesis using m by (simp add: counted_def)
qed

lemma enforce_budget_counted:
  "counted b k s \<Longrightarrow> counted b k (enforce_budget s)
     \<and> map_of (pi_signatures (enforce_budget s)) = map_of (pi_signatures s) |` pal_live (enforce_budget s)
     \<and> (pal_live (enforce_budget s) = {} \<or> pi_count (enforce_budget s) < b)"
proof (induction s rule: enforce_budget.induct)
  case (1 s)
  show ?case
  proof (cases "0 < pi_count s \<and> pi_memory_budget s \<le> pi_count s \<and> pi_lru_order s \<noteq> []")
    case False
    then have "enforce_budget s = s" by (subst enforce_budget.simps) (auto split: list.split)
    moreover have "map_of (pi_signatures s) = map_of (pi_signatures s) |` pal_live s"
      by (auto simp: pal_live_def restrict_map_def fun_eq_iff dom_def)
    ultimately show ?thesis using "1.prems" False by (auto simp: counted_def)
  next
    case True
    then obtain oldest rest where q: "pi_lru_order s = oldest # rest" by (cases "pi_lru_order s") auto
    let ?s = "pal_remove (s\<lparr>pi_lru_order := rest\<rparr>) oldest"
    note rem = pal_remove_counted [OF "1.prems" q]
    have e: "enforce_budget s = enforce_budget ?s" using True q by (subst enforce_budget.simps) simp
    have "oldest \<notin> pal_live (enforce_budget ?s)"
      using enforce_budget_live [of ?s] rem by (auto simp: pal_live_def)
    with "1.IH" [OF _ q] True rem show ?thesis
      unfolding e by (auto simp: restrict_map_def fun_eq_iff)
  qed
qed

lemma pal_insert_counted:
  assumes "counted b k s" and "k \<le> b - 1" and "pi_count s \<le> max 1 b" and "pal_step (Insert h sg) s = (e, s')"
  defines "k' \<equiv> k + (if e = Inserted True then 1 else 0)"
  shows "counted b k' s' \<and> k' \<le> b - 1 \<and> pi_count s' \<le> max 1 b
    \<and> (\<exists>Q. Q \<subseteq> pal_live s \<and> map_of (pi_signatures s') = (map_of (pi_signatures s) |` Q)(h \<mapsto> sg) \<and> pal_live s' = insert h Q)"
proof -
  let ?s = "enforce_budget s"
  note c = enforce_budget_counted [OF assms(1)]
  have s': "s' = pal_insert s h sg" and e: "e = Inserted (h \<in> pal_live ?s)"
    using assms(4) by (auto simp: pal_live_def)
  have m: "map_of (pi_signatures s') = (map_of (pi_signatures s) |` pal_live ?s)(h \<mapsto> sg)"
    using c by (simp add: s' pal_insert_def Let_def update_conv')
  have live: "pal_live s' = insert h (pal_live ?s)"
    by (auto simp: s' pal_insert_def Let_def update_conv' pal_live_def split: if_splits)
  have "pi_count s' = pi_count ?s + 1" "set (pi_lru_order s') = insert h (set (pi_lru_order ?s))"
    "pi_memory_budget s' = pi_memory_budget ?s"
    by (simp_all add: s' pal_insert_def Let_def)
  moreover have "pi_count ?s = card (pal_live ?s) + k" "pal_live ?s = {} \<or> pi_count ?s < b" "pi_memory_budget ?s = b"
    "set (pi_lru_order ?s) = pal_live ?s"
    using c by (auto simp: counted_def)
  moreover have "h \<in> pal_live ?s \<Longrightarrow> 0 < card (pal_live ?s)" by (auto simp: card_gt_0_iff)
  ultimately have "counted b k' s' \<and> k' \<le> b - 1 \<and> pi_count s' \<le> max 1 b"
    using assms(2) by (auto simp: counted_def live k'_def e insert_absorb)
  with m live enforce_budget_live [of s] show ?thesis by blast
qed

lemma pal_query_touch:
  "pal_query s h sg = (r, s') \<Longrightarrow> s' = (case r of None \<Rightarrow> s | Some c \<Rightarrow> pal_touch s (mc_hash c))"
  by (auto simp: pal_query_def split: option.splits)

lemma pal_query_counted:
  assumes "counted b k s" and "pal_query s h sg = (r, s')"
  shows "counted b k s' \<and> pi_count s' = pi_count s \<and> pi_signatures s' = pi_signatures s
    \<and> pi_lru_order s' = lru_step b (Query h sg, Answered r) (pi_lru_order s)"
proof (cases r)
  case None
  with assms show ?thesis using pal_query_touch [OF assms(2)] by simp
next
  case (Some c)
  have "mc_hash c \<in> pal_live s" using pal_query_live [OF assms(2)] Some by simp
  then have "mc_hash c \<in> set (pi_lru_order s)" using assms(1) by (simp add: counted_def)
  moreover have "s' = pal_touch s (mc_hash c)" using pal_query_touch [OF assms(2)] Some by simp
  moreover have "pi_count (pal_touch s h) = pi_count s" "pal_live (pal_touch s h) = pal_live s" for h
    by (simp_all add: pal_touch_def pal_live_def)
  ultimately show ?thesis using assms(1) Some by (simp add: counted_def) (simp add: pal_touch_def)
qed

text \<open>Without a leak the invariant of the index is kept, and the queue is that of the specification.\<close>

lemma pal_insert_fresh:
  assumes "pal_wf s" and "wf_signature sg" and "pal_step (Insert h sg) s = (Inserted False, s')"
  shows "pal_wf s' \<and> pi_memory_budget s' = pi_memory_budget s
    \<and> pi_lru_order s' = lru_step (pi_memory_budget s) (Insert h sg, Inserted False) (pi_lru_order s)"
proof -
  let ?s = "enforce_budget s"
  have new: "map_of (pi_signatures ?s) h = None" and s': "s' = pal_insert s h sg" using assms(3) by auto
  note e = enforce_budget_spec [OF assms(1)]
  have wf: "pal_wf ?s" using e by blast
  have "h \<notin> set (pi_lru_order ?s)" using wf new by (auto simp: pal_wf_def domIff)
  with wf new assms(2) have "pal_wf s'"
    by (auto simp: s' pal_insert_def pal_wf_def Let_def tier_inv_push wf_signature_def update_conv' split: if_splits)
  with e show ?thesis by (simp add: s' pal_insert_def Let_def)
qed

lemma pal_run_spec:
  assumes "\<forall>h sg. Insert h sg \<in> set ops \<longrightarrow> wf_signature sg" and "pal_run (pal_new b) ops = (es, s)"
  shows "counted b (leaks es) s \<and> leaks es \<le> b - 1 \<and> pi_count s \<le> max 1 b
    \<and> map_of (pi_signatures s) = map_of (rev (inserted_pairs ops)) |` pal_live s
    \<and> (leaks es = 0 \<longrightarrow> pal_wf s \<and> pi_lru_order s = lru_queue b ops es)"
  using assms
proof (induction ops arbitrary: es s rule: rev_induct)
  case Nil
  then show ?case using pal_new_wf [of b]
    by (auto simp: pal_run_def counted_def lru_queue_def pal_live_def leaks_def) (auto simp: pal_new_def)
next
  case (snoc op ops)
  obtain es1 s1 e where run: "pal_run (pal_new b) ops = (es1, s1)" and st: "pal_step op s1 = (e, s)"
    and es: "es = es1 @ [e]"
    using snoc.prems(2) by (auto simp: pal_run_snoc Let_def split: prod.splits)
  have IH: "counted b (leaks es1) s1" "leaks es1 \<le> b - 1" "pi_count s1 \<le> max 1 b"
    "map_of (pi_signatures s1) = map_of (rev (inserted_pairs ops)) |` pal_live s1"
    "leaks es1 = 0 \<Longrightarrow> pal_wf s1 \<and> pi_lru_order s1 = lru_queue b ops es1"
    using snoc.IH [OF _ run] snoc.prems(1) by auto
  have q: "lru_queue b (ops @ [op]) es = lru_step b (op, e) (lru_queue b ops es1)"
    using pal_run_length [OF run] by (simp add: lru_queue_def es)
  have budget: "pi_memory_budget s1 = b" using IH(1) by (simp add: counted_def)
  show ?case
  proof (cases op)
    case (Insert h sg)
    from pal_insert_counted [OF IH(1-3) st [unfolded Insert]] obtain Q where
      c: "counted b (leaks es) s" "leaks es \<le> b - 1" "pi_count s \<le> max 1 b" and Q: "Q \<subseteq> pal_live s1"
      "map_of (pi_signatures s) = (map_of (pi_signatures s1) |` Q)(h \<mapsto> sg)" "pal_live s = insert h Q"
      by (auto simp: es)
    have "map_of (pi_signatures s) = map_of (rev (inserted_pairs (ops @ [op]))) |` pal_live s"
      using Q(1) by (auto simp: Q(2,3) IH(4) Insert restrict_map_def fun_eq_iff)
    moreover have "pal_wf s \<and> pi_lru_order s = lru_queue b (ops @ [op]) es" if "leaks es = 0"
    proof -
      have e: "e = Inserted False" using that st by (auto simp: es Insert split: if_splits)
      have "wf_signature sg" "leaks es1 = 0" using snoc.prems(1) Insert that by (auto simp: es)
      with pal_insert_fresh [of s1 sg h s] IH(5) st e budget show ?thesis
        unfolding Insert by (simp add: q [unfolded Insert])
    qed
    ultimately show ?thesis using c by blast
  next
    case (Query h sg)
    obtain r where r: "pal_query s1 h sg = (r, s)" "e = Answered r"
      using st by (auto simp: Query split: prod.splits)
    note c = pal_query_counted [OF IH(1) r(1)]
    have "pal_wf s" if "pal_wf s1" using pal_query_wf [OF that r(1)] by blast
    then show ?thesis using c IH(2-5) by (auto simp: es r(2) Query q [unfolded Query es r(2)] pal_live_def)
  qed
qed

text \<open>
  C23. What the index keeps, for any sequence of insertions and queries that a new index is given. A live
  entry has the signature it was last inserted_pairs with. \<open>len\<close> never exceeds the budget, or one for a
  budget of 0; it is the number of live entries plus one for each insertion of a hash that was live
  already, which the source counts again and never takes back: each of them leaves room for one entry
  less. If there was none, the queue is that of an LRU cache of the budget, in which an insertion and
  the answer to a query count as uses.
\<close>

theorem pal_insert_lru:
  assumes "\<forall>h sg. Insert h sg \<in> set ops \<longrightarrow> wf_signature sg" and "pal_run (pal_new b) ops = (es, s)"
  shows "map_of (pi_signatures s) = map_of (rev (inserted_pairs ops)) |` pal_live s
    \<and> pal_len s = card (pal_live s) + leaks es \<and> pal_len s \<le> max 1 b
    \<and> (leaks es = 0 \<longrightarrow> pi_lru_order s = lru_queue b ops es \<and> set (lru_queue b ops es) = pal_live s)"
proof -
  note spec = pal_run_spec [OF assms]
  then have "pal_len s = card (pal_live s) + leaks es" "set (pi_lru_order s) = pal_live s"
    by (simp_all add: counted_def pal_len_def)
  with spec show ?thesis unfolding pal_len_def by metis
qed

text \<open>
  The entry inserted_pairs first answers a query before the third comes in, so the second is dropped. With the
  same hash three times before two others, the last of them alone is live.
\<close>

abbreviation "demo_ops \<equiv> [Insert (Hash [2]) (flat_signature 2), Insert (Hash [1]) (flat_signature 1),
  Query (Hash [9]) (flat_signature 2), Insert (Hash [3]) (flat_signature 3)]"

theorem pal_insert_lru_witness:
  "\<exists>es s. pal_run (pal_new 2) demo_ops = (es, s) \<and> leaks es = 0 \<and> pi_lru_order s = [Hash [2], Hash [3]]"
proof -
  obtain es s where r: "pal_run (pal_new 2) demo_ops = (es, s)" by force
  have "fst (pal_run (pal_new 2) demo_ops)
      = [Inserted False, Inserted False, Answered (Some \<lparr>mc_hash = Hash [2], mc_tier = High\<rparr>), Inserted False]"
    by (simp add: pal_run_def pal_new_def pal_insert_def enforce_budget.simps pal_remove_def flat_signature_def
        push_tier_def retain_tier_def retain_sf_def pal_query_def query_tier_def tier_candidates_def push_sf_def bucket_def
        MAX_CANDIDATES_PER_SF_def count_entry_def pal_touch_def Let_def numeral_3_eq_3)
  with r have es: "es = [Inserted False, Inserted False, Answered (Some \<lparr>mc_hash = Hash [2], mc_tier = High\<rparr>), Inserted False]"
    by simp
  have "\<forall>h sg. Insert h sg \<in> set demo_ops \<longrightarrow> wf_signature sg" by auto
  from pal_insert_lru [OF this r] r es show ?thesis by (auto simp: leaks_def lru_queue_def)
qed

theorem pal_duplicate_insert_leaks:
  "let s = snd (pal_run (pal_new 3)
       [Insert (Hash [1]) (flat_signature 1), Insert (Hash [1]) (flat_signature 1), Insert (Hash [1]) (flat_signature 1),
        Insert (Hash [2]) (flat_signature 2), Insert (Hash [3]) (flat_signature 3)])
   in pal_len s = 3 \<and> map fst (pal_export_entries s) = [Hash [3]] \<and> pi_lru_order s = [Hash [3]]"
  by (simp add: pal_run_def pal_new_def pal_insert_def enforce_budget.simps pal_remove_def
      flat_signature_def pal_len_def pal_export_entries_def push_tier_def retain_tier_def Let_def)

section \<open>Shards\<close>

definition sharded_live :: "sharded_index \<Rightarrow> hash set" where
  "sharded_live shards = (\<Union>s \<in> set shards. pal_live s)"

lemma shard_id_less: "shard_id h < NUM_SHARDS"
  by (simp add: shard_id_def NUM_SHARDS_def)

lemma sharded_insert_live:
  assumes "length shards = NUM_SHARDS"
  shows "sharded_live (sharded_insert shards h sg) \<subseteq> insert h (sharded_live shards)"
proof
  fix k
  assume "k \<in> sharded_live (sharded_insert shards h sg)"
  then obtain s where s: "s \<in> set (shards[shard_id h := pal_insert (shards ! shard_id h) h sg])"
    "k \<in> pal_live s"
    by (auto simp: sharded_live_def sharded_insert_def Let_def)
  from s(1) have "s = pal_insert (shards ! shard_id h) h sg \<or> s \<in> set shards"
    using set_update_subset_insert by fast
  then show "k \<in> insert h (sharded_live shards)"
    using s(2) pal_insert_live [of "shards ! shard_id h" h sg] shard_id_less [of h] assms
    by (auto simp: sharded_live_def intro: nth_mem)
qed

lemma sharded_query_live:
  assumes "length shards = NUM_SHARDS" and "sharded_query shards h sg = (r, shards')"
  shows "length shards' = NUM_SHARDS \<and> sharded_live shards' = sharded_live shards
    \<and> (\<forall>c. r = Some c \<longrightarrow> mc_hash c \<in> sharded_live shards \<and> mc_hash c \<noteq> h)"
proof -
  obtain index where q: "pal_query (shards ! shard_id h) h sg = (r, index)"
    "shards' = shards[shard_id h := index]"
    using assms(2) by (auto simp: sharded_query_def Let_def split: prod.splits)
  note live = pal_query_live [OF q(1)]
  have i: "shard_id h < length shards" using shard_id_less assms(1) by simp
  have "sharded_live shards' = sharded_live shards"
  proof -
    have "map pal_live shards' = map pal_live shards"
      using live i by (simp add: q(2) map_update list_update_same_conv)
    then have "pal_live ` set shards' = pal_live ` set shards" by (metis set_map)
    then show ?thesis by (simp add: sharded_live_def)
  qed
  with live i assms(1) show ?thesis by (auto simp: q(2) sharded_live_def)
qed

lemma length_sharded [simp]:
  "length (sharded_new b) = NUM_SHARDS"
  "length (sharded_insert shards h sg) = length shards"
  by (simp_all add: sharded_new_def sharded_insert_def Let_def)

text \<open>
  Sharding by content hash cuts the search to a quarter: a chunk inserted_pairs alone is found by
  another chunk with the very same signature exactly when the first bytes of their hashes agree
  modulo 4, which says nothing about their similarity.
\<close>

theorem sharded_query_needs_same_shard:
  assumes "wf_signature sg" and "x \<noteq> y"
  shows "fst (sharded_query (sharded_insert (sharded_new b) x sg) y sg) \<noteq> None
    \<longleftrightarrow> shard_id x = shard_id y"
proof -
  let ?n = "pal_new (b div NUM_SHARDS)"
  have new: "sharded_new b ! i = ?n" if "i < NUM_SHARDS" for i
    using that by (simp add: sharded_new_def)
  have none: "pi_signatures ?n = []" by (simp add: pal_new_def)
  have shard: "sharded_insert (sharded_new b) x sg ! shard_id y
      = (if shard_id x = shard_id y then pal_insert ?n x sg else ?n)"
    using shard_id_less [of x] shard_id_less [of y] by (auto simp: sharded_insert_def Let_def new)
  have r: "fst (sharded_query (sharded_insert (sharded_new b) x sg) y sg)
      = fst (pal_query (sharded_insert (sharded_new b) x sg ! shard_id y) y sg)"
    by (simp add: sharded_query_def Let_def split: prod.split)
  show ?thesis
  proof (cases "shard_id x = shard_id y")
    case False
    obtain c s' where q: "pal_query ?n y sg = (c, s')" by force
    from pal_query_live [OF q] have "c = None" by (cases c) (auto simp: pal_live_def none)
    with q False show ?thesis by (simp add: r shard)
  next
    case True
    have ins: "pal_wf (pal_insert ?n x sg)" "map_of (pi_signatures (pal_insert ?n x sg)) = [x \<mapsto> sg]"
      using pal_insert_spec(1,4) [OF pal_new_wf _ assms(1), of "b div NUM_SHARDS" x]
      by (simp_all add: none)
    obtain c s' where q: "pal_query (pal_insert ?n x sg) y sg = (c, s')" by force
    have sh: "shares tier1 (pi_signatures (pal_insert ?n x sg)) y sg x"
      using assms by (auto simp: shares_def ins(2) wf_signature_def intro: exI [of _ 0])
    have inv: "tier_inv tier1 (pi_tier1 (pal_insert ?n x sg)) (pi_signatures (pal_insert ?n x sg))"
      and len: "length (tier1 sg) = length (pi_tier1 (pal_insert ?n x sg))"
      using ins(1) assms(1) by (simp_all add: pal_wf_def wf_signature_def)
    have "query_tier (pal_insert ?n x sg) y (tier1 sg) (pi_tier1 (pal_insert ?n x sg)) \<noteq> None"
      using query_tier_spec [where sel = tier1, OF inv len, of y] sh by (auto split: option.splits)
    with q have "c \<noteq> None" by (auto simp: pal_query_def split: option.splits)
    with q True show ?thesis by (simp add: r shard)
  qed
qed

theorem sharded_query_needs_same_shard_witness:
  "fst (sharded_query (sharded_insert (sharded_new 1000000) (Hash [1]) (flat_signature 9))
     (Hash [2]) (flat_signature 9)) = None
   \<and> fst (sharded_query (sharded_insert (sharded_new 1000000) (Hash [1]) (flat_signature 9))
     (Hash [5]) (flat_signature 9)) \<noteq> None"
  using sharded_query_needs_same_shard [of "flat_signature 9" "Hash [1]" "Hash [2]" 1000000]
    sharded_query_needs_same_shard [of "flat_signature 9" "Hash [1]" "Hash [5]" 1000000]
  by (simp add: shard_id_def NUM_SHARDS_def)

end
