(* ===== verification/Similarity_Stage.thy ===== *)
theory Similarity_Stage
  imports Complex_Main Palantir
begin

text \<open>
  The similarity stage of the pipeline: \<^verbatim>\<open>packt-lib/src/pipeline/similarity_stage.rs\<close> with the
  configuration of \<^verbatim>\<open>similarity/mod.rs\<close>. Thresholds are floating-point numbers; a finite
  one is the rational number it denotes, so that comparisons are exact.
\<close>

section \<open>Floating-point thresholds\<close>

datatype f64 = NaN | NegInf | Fin rat | PosInf

fun f64_le :: "f64 \<Rightarrow> f64 \<Rightarrow> bool" where
  "f64_le NaN _ = False"
| "f64_le _ NaN = False"
| "f64_le NegInf _ = True"
| "f64_le _ PosInf = True"
| "f64_le (Fin a) (Fin b) = (a \<le> b)"
| "f64_le _ _ = False"

text \<open>The doubles nearest to the literals of the source.\<close>

definition lit_1_0 :: f64 where "lit_1_0 = Fin 1"
definition lit_0_85 :: f64 where "lit_0_85 = Fin (7656119366529843 / 9007199254740992)"
definition lit_0_70 :: f64 where "lit_0_70 = Fin (3152519739159347 / 4503599627370496)"

record similarity_config =
  sc_threshold :: f64
  sc_memory_budget :: nat
  sc_enable_fpr :: bool

definition default_similarity_config :: similarity_config where
  "default_similarity_config =
     \<lparr>sc_threshold = lit_0_70, sc_memory_budget = 1000000, sc_enable_fpr = True\<rparr>"

section \<open>The stage\<close>

datatype similarity_outcome =
    Unique hash bytes
  | NearDuplicate hash bytes hash similarity_tier
  | TooSmall hash bytes

record similarity_stage =
  ss_index :: sharded_index
  ss_config :: similarity_config

definition stage_new :: "similarity_config \<Rightarrow> similarity_stage" where
  "stage_new config =
     \<lparr>ss_index = sharded_new (sc_memory_budget config), ss_config = config\<rparr>"

definition stage_set_index :: "similarity_stage \<Rightarrow> sharded_index \<Rightarrow> similarity_stage" where
  "stage_set_index st index =
     st\<lparr>ss_index := fold (\<lambda>(h, sg) ix. sharded_insert ix h sg)
          (sharded_export_entries index) (ss_index st)\<rparr>"

definition stage_rebuild_index ::
    "similarity_stage \<Rightarrow> (hash \<times> chunk_signature) list \<Rightarrow> similarity_stage" where
  "stage_rebuild_index st entries = st\<lparr>ss_index := sharded_rebuild (ss_index st) entries\<rparr>"

definition tier_ok :: "similarity_config \<Rightarrow> similarity_tier \<Rightarrow> bool" where
  "tier_ok config tier =
     (case tier of
        High \<Rightarrow> f64_le (sc_threshold config) lit_1_0
      | Medium \<Rightarrow> f64_le (sc_threshold config) lit_0_85
      | Low \<Rightarrow> f64_le (sc_threshold config) lit_0_70)"

definition stage_process ::
    "(bytes \<Rightarrow> u64) \<Rightarrow> similarity_stage \<Rightarrow> hash \<Rightarrow> bytes \<Rightarrow> similarity_outcome \<times> similarity_stage" where
  "stage_process xxh3 st h data =
     (case extract_signature xxh3 data of
        None \<Rightarrow> (TooSmall h data, st)
      | Some signature \<Rightarrow>
          (let (candidate, index) = sharded_query (ss_index st) h signature
           in case candidate of
                Some c \<Rightarrow>
                  if tier_ok (ss_config st) (mc_tier c)
                  then (NearDuplicate h data (mc_hash c) (mc_tier c), st\<lparr>ss_index := index\<rparr>)
                  else (Unique h data, st\<lparr>ss_index := sharded_insert index h signature\<rparr>)
              | None \<Rightarrow> (Unique h data, st\<lparr>ss_index := sharded_insert index h signature\<rparr>)))"

definition stage_index_size :: "similarity_stage \<Rightarrow> nat" where
  "stage_index_size st = sharded_len (ss_index st)"

section \<open>What the stage remembers\<close>

text \<open>The stage is well formed when its index has all four shards.\<close>

definition stage_wf :: "similarity_stage \<Rightarrow> bool" where
  "stage_wf st \<longleftrightarrow> length (ss_index st) = NUM_SHARDS"

definition stage_live :: "similarity_stage \<Rightarrow> hash set" where
  "stage_live st = sharded_live (ss_index st)"

lemma stage_new_wf [simp]: "stage_wf (stage_new config)"
  by (simp add: stage_wf_def stage_new_def)

lemma stage_new_live [simp]: "stage_live (stage_new config) = {}"
  by (simp add: stage_live_def stage_new_def sharded_live_def sharded_new_def Let_def pal_live_def
      pal_new_def NUM_SHARDS_def)

text \<open>
  The stage answers with the chunk it was given; only a chunk it calls unique enters the index,
  and a near duplicate names a chunk that entered before, not itself.
\<close>

lemma stage_process_spec:
  assumes "stage_wf st" and "stage_process xxh3 st h data = (outcome, st')"
  shows "stage_wf st' \<and> ss_config st' = ss_config st
    \<and> (case outcome of
         TooSmall h' data' \<Rightarrow> h' = h \<and> data' = data \<and> length data < 64 \<and> st' = st
       | Unique h' data' \<Rightarrow> h' = h \<and> data' = data \<and> 64 \<le> length data
           \<and> stage_live st' \<subseteq> insert h (stage_live st)
       | NearDuplicate h' data' similar_to tier \<Rightarrow> h' = h \<and> data' = data \<and> 64 \<le> length data
           \<and> similar_to \<in> stage_live st \<and> similar_to \<noteq> h \<and> stage_live st' = stage_live st
           \<and> tier_ok (ss_config st) tier)"
proof (cases "extract_signature xxh3 data")
  case None
  with assms show ?thesis
    by (auto simp: stage_process_def extract_signature_None_iff)
next
  case (Some sg)
  have long: "64 \<le> length data" using Some extract_signature_None_iff [of xxh3 data] by auto
  obtain c index where q: "sharded_query (ss_index st) h sg = (c, index)" by force
  have len: "length (ss_index st) = NUM_SHARDS" using assms(1) by (simp add: stage_wf_def)
  note live = sharded_query_live [OF len q]
  note ins = sharded_insert_live [of index h sg]
  show ?thesis
    using assms(2) Some q live ins long len
    by (auto simp: stage_process_def stage_wf_def stage_live_def split: option.splits if_splits)
qed

text \<open>A stricter tier is accepted whenever a laxer one is; NaN accepts none.\<close>

lemma tier_ok_monotone: "tier_ok config t \<Longrightarrow> t \<le> t' \<Longrightarrow> tier_ok config t'"
  by (cases "sc_threshold config"; cases t; cases t')
    (auto simp: tier_ok_def lit_1_0_def lit_0_85_def lit_0_70_def less_eq_similarity_tier_def)

lemma tier_ok_high_only:
  "sc_threshold config = Fin r \<Longrightarrow> 9 / 10 \<le> r \<Longrightarrow> tier_ok config t \<Longrightarrow> t = High"
  by (cases t) (auto simp: tier_ok_def lit_1_0_def lit_0_85_def lit_0_70_def)

section \<open>Without eviction a near duplicate stays one\<close>

text \<open>\<open>stage_roomy n\<close>: no shard evicts in the next \<open>n\<close> insertions.\<close>

definition stage_roomy :: "nat \<Rightarrow> similarity_stage \<Rightarrow> bool" where
  "stage_roomy n st \<longleftrightarrow> (\<forall>s \<in> set (ss_index st). pi_count s + n \<le> pi_memory_budget s)"

definition is_near :: "similarity_outcome \<Rightarrow> bool" where
  "is_near outcome = (case outcome of NearDuplicate _ _ _ _ \<Rightarrow> True | _ \<Rightarrow> False)"

text \<open>The stage, as it is, calls the chunk a near duplicate.\<close>

definition stage_near :: "(bytes \<Rightarrow> u64) \<Rightarrow> similarity_stage \<Rightarrow> hash \<Rightarrow> bytes \<Rightarrow> bool" where
  "stage_near xxh3 st h data \<longleftrightarrow> is_near (fst (stage_process xxh3 st h data))"

text \<open>A tier has a match when a bucket has one among its first five entries; it keeps it.\<close>

definition tier_hit :: "palantir_index \<Rightarrow> hash \<Rightarrow> u64 list \<Rightarrow> sf_map list \<Rightarrow> bool" where
  "tier_hit s q sfs maps \<longleftrightarrow> (\<exists>(sf, m) \<in> set (zip sfs maps).
     \<exists>k \<in> set (take MAX_CANDIDATES_PER_SF (bucket m sf)). k \<noteq> q \<and> k \<in> pal_live s)"

lemma query_tier_hit: "query_tier s q sfs maps \<noteq> None \<longleftrightarrow> tier_hit s q sfs maps"
proof -
  have "query_tier s q sfs maps \<noteq> None
      \<longleftrightarrow> (\<exists>k \<in> fst ` set (tier_candidates q sfs maps). k \<in> pal_live s)"
    by (auto simp: query_tier_def best_match_None pal_live_def)
  then show ?thesis unfolding tier_candidates_set tier_hit_def by fastforce
qed

lemma set_take_append_mono: "set (take n xs) \<subseteq> set (take n (xs @ ys))"
  by (simp add: set_take_subset_set_take)

lemma tier_hit_push:
  assumes "tier_hit s q sfs maps" and "length sfs' = length maps" and "pal_live s \<subseteq> pal_live s'"
  shows "tier_hit s' q sfs (push_tier h maps sfs')"
proof -
  from assms(1) obtain i k where i: "i < length sfs" "i < length maps"
    and k: "k \<in> set (take MAX_CANDIDATES_PER_SF (bucket (maps ! i) (sfs ! i)))" "k \<noteq> q" "k \<in> pal_live s"
    by (auto simp: tier_hit_def set_zip)
  have "k \<in> set (take MAX_CANDIDATES_PER_SF (bucket (push_tier h maps sfs' ! i) (sfs ! i)))"
    using k(1) i(2) assms(2) set_take_append_mono [of MAX_CANDIDATES_PER_SF "bucket (maps ! i) (sfs ! i)" "[h]"]
    by (auto simp: push_tier_def)
  moreover have "(sfs ! i, push_tier h maps sfs' ! i) \<in> set (zip sfs (push_tier h maps sfs'))"
    using i assms(2) by (auto simp: set_zip)
  ultimately show ?thesis using k(2,3) assms(3) unfolding tier_hit_def by blast
qed

definition pal_tier :: "palantir_index \<Rightarrow> hash \<Rightarrow> chunk_signature \<Rightarrow> similarity_tier option" where
  "pal_tier s q sg = map_option mc_tier (fst (pal_query s q sg))"

lemma pal_tier_eq:
  "pal_tier s q sg =
     (if tier_hit s q (tier1 sg) (pi_tier1 s) then Some High
      else if tier_hit s q (tier2 sg) (pi_tier2 s) then Some Medium
      else if tier_hit s q (tier3 sg) (pi_tier3 s) then Some Low else None)"
  unfolding query_tier_hit [symmetric]
  by (simp add: pal_tier_def pal_query_def split: option.splits)

definition tiers_ok :: "palantir_index \<Rightarrow> bool" where
  "tiers_ok s \<longleftrightarrow> length (pi_tier1 s) = 3 \<and> length (pi_tier2 s) = 4 \<and> length (pi_tier3 s) = 6"

lemma pal_insert_keeps_tier:
  assumes ok: "tiers_ok s" and sg: "wf_signature sg'" and room: "pi_count s < pi_memory_budget s"
    and t: "pal_tier s q sg = Some t"
  shows "\<exists>t'. pal_tier (pal_insert s h sg') q sg = Some t' \<and> t \<le> t'"
proof -
  have e: "enforce_budget s = s" by (subst enforce_budget.simps) (use room in auto)
  have live: "pal_live s \<subseteq> pal_live (pal_insert s h sg')"
    by (auto simp: pal_live_def pal_insert_def e Let_def update_conv' split: if_splits)
  have "tier_hit s q (tier1 sg) (pi_tier1 s) \<Longrightarrow> tier_hit (pal_insert s h sg') q (tier1 sg) (pi_tier1 (pal_insert s h sg'))"
    "tier_hit s q (tier2 sg) (pi_tier2 s) \<Longrightarrow> tier_hit (pal_insert s h sg') q (tier2 sg) (pi_tier2 (pal_insert s h sg'))"
    "tier_hit s q (tier3 sg) (pi_tier3 s) \<Longrightarrow> tier_hit (pal_insert s h sg') q (tier3 sg) (pi_tier3 (pal_insert s h sg'))"
    using tier_hit_push [OF _ _ live] ok sg
    by (simp_all add: pal_insert_def e Let_def tiers_ok_def wf_signature_def)
  with t show ?thesis
    by (auto simp: pal_tier_eq less_eq_similarity_tier_def split: if_splits)
qed

lemma pal_insert_room:
  assumes "tiers_ok s" and "wf_signature sg" and "pi_count s < pi_memory_budget s"
  shows "tiers_ok (pal_insert s h sg) \<and> pi_count (pal_insert s h sg) = pi_count s + 1
    \<and> pi_memory_budget (pal_insert s h sg) = pi_memory_budget s \<and> h \<in> pal_live (pal_insert s h sg)
    \<and> pal_live s \<subseteq> pal_live (pal_insert s h sg)"
proof -
  have e: "enforce_budget s = s" by (subst enforce_budget.simps) (use assms in auto)
  show ?thesis using assms(1,2)
    by (auto simp: pal_insert_def e Let_def tiers_ok_def wf_signature_def pal_live_def update_conv'
        split: if_splits)
qed

lemma pal_touch_tiers [simp]:
  "pi_tier1 (pal_touch s h) = pi_tier1 s" "pi_tier2 (pal_touch s h) = pi_tier2 s"
  "pi_tier3 (pal_touch s h) = pi_tier3 s" "pi_count (pal_touch s h) = pi_count s"
  by (simp_all add: pal_touch_def)

lemma pal_query_same:
  assumes "pal_query s h sg = (r, s')"
  shows "pi_tier1 s' = pi_tier1 s \<and> pi_tier2 s' = pi_tier2 s \<and> pi_tier3 s' = pi_tier3 s
    \<and> pi_signatures s' = pi_signatures s \<and> pi_count s' = pi_count s
    \<and> pi_memory_budget s' = pi_memory_budget s"
  using assms by (auto simp: pal_query_def split: option.splits)

definition stage_ok :: "similarity_stage \<Rightarrow> bool" where
  "stage_ok st \<longleftrightarrow> stage_wf st \<and> (\<forall>s \<in> set (ss_index st). tiers_ok s)"

lemma stage_near_iff:
  "stage_near xxh3 st q d \<longleftrightarrow> (\<exists>sg t. extract_signature xxh3 d = Some sg
     \<and> pal_tier (ss_index st ! shard_id q) q sg = Some t \<and> tier_ok (ss_config st) t)"
  by (auto simp: stage_near_def stage_process_def is_near_def pal_tier_def sharded_query_def Let_def
      split: option.splits prod.splits)

text \<open>Both ways of changing one shard keep what the stage knows.\<close>

definition shard_grows :: "palantir_index \<Rightarrow> palantir_index \<Rightarrow> bool" where
  "shard_grows s s' \<longleftrightarrow> tiers_ok s' \<and> pi_count s' \<le> pi_count s + 1
     \<and> pi_memory_budget s' = pi_memory_budget s \<and> pal_live s \<subseteq> pal_live s'
     \<and> (\<forall>q sg t. pal_tier s q sg = Some t \<longrightarrow> (\<exists>t'. pal_tier s' q sg = Some t' \<and> t \<le> t'))"

lemma shard_grows_query:
  assumes "tiers_ok s" and "pal_query s h sg = (r, s')"
  shows "shard_grows s s'"
proof -
  note same = pal_query_same [OF assms(2)]
  have "pal_live s' = pal_live s" using same by (simp add: pal_live_def)
  then have "tier_hit s' q sfs maps = tier_hit s q sfs maps" for q sfs maps by (simp add: tier_hit_def)
  with same assms(1) \<open>pal_live s' = pal_live s\<close> show ?thesis
    by (simp add: shard_grows_def tiers_ok_def pal_tier_eq)
qed

lemma shard_grows_trans_insert:
  assumes "tiers_ok s" and q: "pal_query s h sg = (r, s1)" and "wf_signature sg'"
    and "pi_count s < pi_memory_budget s"
  shows "shard_grows s (pal_insert s1 k sg') \<and> k \<in> pal_live (pal_insert s1 k sg')"
proof -
  note same = pal_query_same [OF q] and g = shard_grows_query [OF assms(1) q]
  have ok: "tiers_ok s1" using g by (simp add: shard_grows_def)
  have room: "pi_count s1 < pi_memory_budget s1" using same assms(4) by simp
  have "\<exists>t'. pal_tier (pal_insert s1 k sg') x y = Some t' \<and> t \<le> t'" if t: "pal_tier s x y = Some t" for x y t
  proof -
    obtain t1 where t1: "pal_tier s1 x y = Some t1" "t \<le> t1"
      using g t unfolding shard_grows_def by blast
    from pal_insert_keeps_tier [OF ok assms(3) room t1(1)] t1(2) show ?thesis
      by (meson order_trans)
  qed
  moreover have "pal_live s \<subseteq> pal_live s1" using g by (simp add: shard_grows_def)
  ultimately show ?thesis
    using pal_insert_room [OF ok assms(3) room, of k] same unfolding shard_grows_def by auto
qed

lemma stage_grows:
  assumes ok: "stage_ok st" and room: "stage_roomy (Suc n) st"
    and g: "shard_grows (ss_index st ! shard_id h) s'"
    and st': "st' = st\<lparr>ss_index := (ss_index st)[shard_id h := s']\<rparr>"
  shows "stage_ok st' \<and> stage_roomy n st' \<and> stage_live st \<subseteq> stage_live st'
    \<and> pal_live s' \<subseteq> stage_live st'
    \<and> (\<forall>k d. stage_near xxh3 st k d \<longrightarrow> stage_near xxh3 st' k d)"
proof -
  let ?i = "shard_id h" and ?ix = "ss_index st"
  have i: "?i < length ?ix" using ok shard_id_less [of h] by (simp add: stage_ok_def stage_wf_def)
  have sub: "set (?ix[?i := s']) \<subseteq> insert s' (set ?ix)" by (rule set_update_subset_insert)
  have old: "?ix ! ?i \<in> set ?ix" using i by simp
  have new: "s' \<in> set (?ix[?i := s'])" using i by (rule set_update_memI)
  have "stage_ok st'"
    using ok g sub by (auto simp: stage_ok_def stage_wf_def st' shard_grows_def)
  moreover have "stage_roomy n st'"
  proof -
    have "pi_count s' + n \<le> pi_memory_budget s'" using g room old by (fastforce simp: stage_roomy_def shard_grows_def)
    moreover have "pi_count s + n \<le> pi_memory_budget s" if "s \<in> set ?ix" for s
      using room that by (fastforce simp: stage_roomy_def)
    ultimately show ?thesis using sub by (auto simp: stage_roomy_def st')
  qed
  moreover have "stage_live st \<subseteq> stage_live st'"
  proof
    fix k assume "k \<in> stage_live st"
    then obtain j where j: "j < length ?ix" "k \<in> pal_live (?ix ! j)"
      by (auto simp: stage_live_def sharded_live_def in_set_conv_nth)
    have grow: "pal_live (?ix ! ?i) \<subseteq> pal_live s'" using g by (simp add: shard_grows_def)
    have "k \<in> pal_live (?ix[?i := s'] ! j)" using j grow by (cases "j = ?i") auto
    moreover have "?ix[?i := s'] ! j \<in> set (?ix[?i := s'])" using j(1) by (intro nth_mem) simp
    ultimately show "k \<in> stage_live st'" unfolding stage_live_def sharded_live_def st' by auto
  qed
  moreover have "pal_live s' \<subseteq> stage_live st'"
    using new by (auto simp: stage_live_def sharded_live_def st')
  moreover have "stage_near xxh3 st' k d" if near: "stage_near xxh3 st k d" for k d
  proof -
    from near obtain sg t where sg: "extract_signature xxh3 d = Some sg"
      "pal_tier (?ix ! shard_id k) k sg = Some t" "tier_ok (ss_config st) t"
      by (auto simp: stage_near_iff)
    have "\<exists>t'. pal_tier (?ix[?i := s'] ! shard_id k) k sg = Some t' \<and> t \<le> t'"
    proof (cases "shard_id k = ?i")
      case True
      with g sg(2) i show ?thesis unfolding shard_grows_def by simp
    next
      case False
      with sg(2) show ?thesis by simp
    qed
    with sg tier_ok_monotone show ?thesis by (fastforce simp: stage_near_iff st')
  qed
  ultimately show ?thesis by blast
qed

lemma stage_process_keeps:
  assumes ok: "stage_ok st" and room: "stage_roomy (Suc n) st"
    and p: "stage_process xxh3 st h data = (outcome, st')"
  shows "stage_ok st' \<and> stage_roomy n st' \<and> stage_live st \<subseteq> stage_live st'
    \<and> (\<forall>k d. stage_near xxh3 st k d \<longrightarrow> stage_near xxh3 st' k d)
    \<and> (is_near outcome \<longrightarrow> stage_near xxh3 st' h data)
    \<and> (\<not> is_near outcome \<longrightarrow> \<not> stage_near xxh3 st h data)"
proof -
  have n: "is_near outcome \<longleftrightarrow> stage_near xxh3 st h data" using p by (simp add: stage_near_def)
  show ?thesis
  proof (cases "extract_signature xxh3 data")
    case None
    with p have st': "st' = st" by (simp add: stage_process_def)
    have "stage_roomy n st" using room by (fastforce simp: stage_roomy_def)
    with ok n show ?thesis by (simp add: st')
  next
    case (Some sg)
    let ?s = "ss_index st ! shard_id h"
    have s: "?s \<in> set (ss_index st)" using ok shard_id_less [of h] by (simp add: stage_ok_def stage_wf_def)
    then have t: "tiers_ok ?s" and c: "pi_count ?s < pi_memory_budget ?s"
      using ok room by (fastforce simp: stage_ok_def stage_roomy_def)+
    obtain r s1 where q: "pal_query ?s h sg = (r, s1)" by force
    have wf: "wf_signature sg" using Some by (rule extract_signature_wf)
    have "st' = st\<lparr>ss_index := (ss_index st)[shard_id h := s1]\<rparr>
        \<or> st' = st\<lparr>ss_index := (ss_index st)[shard_id h := pal_insert s1 h sg]\<rparr>"
      using p Some q shard_id_less [of h] ok
      by (auto simp: stage_process_def sharded_query_def sharded_insert_def Let_def stage_ok_def
          stage_wf_def split: option.splits if_splits)
    then have "\<exists>s'. shard_grows ?s s' \<and> st' = st\<lparr>ss_index := (ss_index st)[shard_id h := s']\<rparr>"
      using shard_grows_query [OF t q] shard_grows_trans_insert [OF t q wf c] by blast
    then obtain s' where g: "shard_grows ?s s'" "st' = st\<lparr>ss_index := (ss_index st)[shard_id h := s']\<rparr>"
      by blast
    from stage_grows [OF ok room g] n show ?thesis by blast
  qed
qed

lemma stage_new_ok:
  assumes "n \<le> sc_memory_budget config div NUM_SHARDS"
  shows "stage_ok (stage_new config) \<and> stage_roomy n (stage_new config)"
  using assms by (auto simp: stage_ok_def stage_wf_def stage_roomy_def stage_new_def sharded_new_def
      Let_def tiers_ok_def pal_new_def)

section \<open>Properties\<close>

text \<open>
  C26. What the stage calls a near duplicate is one it can name a base for: the base is a chunk
  that the stage called unique before and still remembers, it is not the chunk itself, the chunk
  has at least 64 bytes, and with a threshold of 0.9 or more only matches of the highest tier
  count. The chunk itself is not remembered, so it never becomes the base of another chunk.
\<close>

theorem stage_near_duplicate_sound:
  assumes "stage_wf st" and "stage_process xxh3 st h data = (NearDuplicate h' data' base tier, st')"
  shows "h' = h \<and> data' = data \<and> 64 \<le> length data
    \<and> base \<in> stage_live st \<and> base \<noteq> h
    \<and> stage_live st' = stage_live st
    \<and> (\<forall>r. sc_threshold (ss_config st) = Fin r \<longrightarrow> 9 / 10 \<le> r \<longrightarrow> tier = High)"
  using stage_process_spec [OF assms] tier_ok_high_only by auto

lemma replicate_numeral_expand:
  "replicate 3 x = [x, x, x]" "replicate 4 x = [x, x, x, x]" "replicate 6 x = [x, x, x, x, x, x]"
  by (simp_all add: numeral_eq_Suc)

text \<open>A run for the witness: a remembered base, then a chunk with the same signature.\<close>

definition two_stage_run :: "similarity_outcome \<times> similarity_stage" where
  "two_stage_run =
     (let st = stage_new default_similarity_config;
          sg = flat_signature 0;
          st1 = st\<lparr>ss_index := sharded_insert (ss_index st) (Hash [4]) sg\<rparr>
      in stage_process (\<lambda>d. 0) st1 (Hash [0]) (replicate 100 7))"

theorem stage_near_duplicate_sound_witness:
  "fst two_stage_run = NearDuplicate (Hash [0]) (replicate 100 7) (Hash [4]) High
   \<and> (\<exists>st. stage_wf st \<and> Hash [4] \<in> stage_live st \<and> stage_live (snd two_stage_run) = stage_live st)"
proof -
  let ?st = "(stage_new default_similarity_config)\<lparr>ss_index :=
      sharded_insert (ss_index (stage_new default_similarity_config)) (Hash [4]) (flat_signature 0)\<rparr>"
  have run: "fst two_stage_run = NearDuplicate (Hash [0]) (replicate 100 7) (Hash [4]) High"
    by (simp add: two_stage_run_def stage_process_def extract_signature_def feature_consts
        full_chunk_signature_def sharded_query_def sharded_insert_def shard_id_def NUM_SHARDS_def
        stage_new_def sharded_new_def default_similarity_config_def pal_new_def pal_insert_def
        enforce_budget.simps flat_signature_def push_tier_def pal_query_def query_tier_def
        tier_candidates_def MAX_CANDIDATES_PER_SF_def count_entry_def tier_ok_def lit_0_70_def
        lit_1_0_def push_sf_def bucket_def Let_def replicate_numeral_expand)
  then have "stage_process (\<lambda>d. 0) ?st (Hash [0]) (replicate 100 7)
      = (NearDuplicate (Hash [0]) (replicate 100 7) (Hash [4]) High, snd two_stage_run)"
    by (simp add: two_stage_run_def Let_def prod_eq_iff)
  moreover have "stage_wf ?st" using stage_new_wf by (simp add: stage_wf_def)
  ultimately show ?thesis using run stage_near_duplicate_sound by blast
qed

end
