(* ===== verification/Delta.thy ===== *)
theory Delta
  imports Prelude
begin

text \<open>
  Delta compression: \<^verbatim>\<open>packt-lib/src/store/delta.rs\<close>, and the functions of the
  \<^verbatim>\<open>zstd\<close> crate the library calls, gathered in a record. What its documentation promises of
  them is the predicate \<open>zstd_ok\<close>; \<open>toy_zstd\<close> is a concrete codec that keeps the promise,
  for the witnesses.
\<close>

section \<open>The zstd crate\<close>

text \<open>
  \<^verbatim>\<open>bulk::compress(data, level)\<close>, \<^verbatim>\<open>bulk::decompress(data, capacity)\<close>,
  \<^verbatim>\<open>stream::Encoder\<close> with a level and a number of workers (the message names the stage that
  failed), and \<^verbatim>\<open>bulk::Compressor\<close> and \<^verbatim>\<open>bulk::Decompressor\<close> with a dictionary. \<open>None\<close> is
  an error of the crate.
\<close>

record zstd_lib =
  z_compress :: "int \<Rightarrow> bytes \<Rightarrow> bytes option"
  z_decompress :: "bytes \<Rightarrow> nat \<Rightarrow> bytes option"
  z_stream :: "int \<Rightarrow> nat \<Rightarrow> bytes \<Rightarrow> string + bytes"
  z_compress_dict :: "int \<Rightarrow> bytes \<Rightarrow> bytes \<Rightarrow> bytes option"
  z_decompress_dict :: "bytes \<Rightarrow> bytes \<Rightarrow> nat \<Rightarrow> bytes option"

text \<open>
  The documented contract: a frame is not empty, and decompressing it with a capacity that
  suffices (and the same dictionary) gives back the data.
\<close>

definition zstd_ok :: "zstd_lib \<Rightarrow> bool" where
  "zstd_ok Z \<longleftrightarrow>
     (\<forall>level d c n. z_compress Z level d = Some c \<longrightarrow> length d \<le> n \<longrightarrow> z_decompress Z c n = Some d)
   \<and> (\<forall>level w d c. z_stream Z level w d = Inr c
        \<longrightarrow> c \<noteq> [] \<and> (\<forall>n \<ge> length d. z_decompress Z c n = Some d))
   \<and> (\<forall>level dict d c n. z_compress_dict Z level dict d = Some c \<longrightarrow> length d \<le> n
        \<longrightarrow> z_decompress_dict Z dict c n = Some d)"

lemma zstd_okD:
  assumes "zstd_ok Z"
  shows "z_compress Z level d = Some c \<Longrightarrow> length d \<le> n \<Longrightarrow> z_decompress Z c n = Some d"
    and "z_stream Z level w d = Inr c \<Longrightarrow> length d \<le> n \<Longrightarrow> z_decompress Z c n = Some d"
    and "z_stream Z level w d = Inr c \<Longrightarrow> c \<noteq> []"
    and "z_compress_dict Z level dict d = Some c \<Longrightarrow> length d \<le> n \<Longrightarrow> z_decompress_dict Z dict c n = Some d"
  using assms by (auto simp: zstd_ok_def)

section \<open>The encoder\<close>

text \<open>
  \<^verbatim>\<open>should_attempt\<close>. The quotient of the two lengths is compared with 4 in floating point,
  which agrees with the exact comparison for lengths below \<open>2^51\<close>.
\<close>

definition should_attempt :: "bytes \<Rightarrow> bytes \<Rightarrow> bool" where
  "should_attempt base_chunk new_chunk =
     (let base_len = length base_chunk; new_len = length new_chunk
      in if base_len < 256 \<or> new_len < 256 then False
         else (let (larger, smaller) =
                     (if base_len \<ge> new_len then (base_len, new_len) else (new_len, base_len))
               in if smaller = 0 then False else larger \<le> 4 * smaller))"

definition try_encode :: "zstd_lib \<Rightarrow> int \<Rightarrow> bytes \<Rightarrow> bytes \<Rightarrow> bytes option result" where
  "try_encode Z level base_chunk new_chunk =
     (if \<not> should_attempt base_chunk new_chunk then Inr None
      else bind_res (or_err (Serialization ''zstd dict compress'')
             (z_compress_dict Z level base_chunk new_chunk)) (\<lambda>delta_frame.
           bind_res (or_err (Serialization ''zstd compress'')
             (z_compress Z level new_chunk)) (\<lambda>standalone.
           if length delta_frame < length standalone * 90 div 100
           then Inr (Some delta_frame) else Inr None)))"

definition delta_decode :: "zstd_lib \<Rightarrow> bytes \<Rightarrow> bytes \<Rightarrow> nat \<Rightarrow> bytes result" where
  "delta_decode Z base_chunk delta_data output_size =
     or_err (Serialization ''zstd dict decompress'')
       (z_decompress_dict Z base_chunk delta_data output_size)"

lemma try_encode_Some:
  assumes "try_encode Z level base new = Inr (Some d)"
  shows "z_compress_dict Z level base new = Some d \<and> 256 \<le> length base \<and> 256 \<le> length new
    \<and> (\<exists>standalone. z_compress Z level new = Some standalone
         \<and> length d < length standalone * 90 div 100)"
  using assms
  by (auto simp: try_encode_def should_attempt_def Let_def res_simps split: if_splits)

lemma try_encode_no_panic: "\<not> panics (try_encode Z level base new)"
  by (cases "z_compress_dict Z level base new"; cases "z_compress Z level new")
    (simp_all add: try_encode_def)

section \<open>A concrete codec\<close>

text \<open>
  Runs of one byte are written as the byte and the length, everything else as it is; a chunk
  equal to the dictionary is one byte.
\<close>

definition toy_compress :: "bytes \<Rightarrow> bytes" where
  "toy_compress d =
     (if d \<noteq> [] \<and> d = replicate (length d) (hd d) \<and> length d < 256 ^ 8
      then 0 # hd d # nat_to_le 8 (length d) else 1 # d)"

definition toy_decompress :: "bytes \<Rightarrow> nat \<Rightarrow> bytes option" where
  "toy_decompress c n =
     (let d = (case c of [] \<Rightarrow> None
               | t # r \<Rightarrow> if t = 0 then (case r of [] \<Rightarrow> None | b # ls \<Rightarrow> Some (replicate (le_to_nat ls) b))
                         else Some r)
      in case d of None \<Rightarrow> None | Some x \<Rightarrow> if length x \<le> n then Some x else None)"

definition toy_zstd :: zstd_lib where
  "toy_zstd =
     \<lparr>z_compress = (\<lambda>level d. Some (toy_compress d)),
      z_decompress = toy_decompress,
      z_stream = (\<lambda>level w d. Inr (toy_compress d)),
      z_compress_dict = (\<lambda>level dict d. Some (if d = dict then [0] else 1 # d)),
      z_decompress_dict = (\<lambda>dict c n.
        let d = (if c = [0] then dict else tl c) in if length d \<le> n then Some d else None)\<rparr>"

lemma toy_roundtrip: "length d \<le> n \<Longrightarrow> toy_decompress (toy_compress d) n = Some d"
  by (auto simp: toy_compress_def toy_decompress_def le_to_nat_to_le Let_def)

lemma toy_zstd_ok: "zstd_ok toy_zstd"
  by (auto simp: zstd_ok_def toy_zstd_def toy_roundtrip Let_def)
    (simp add: toy_compress_def split: if_splits)

text \<open>The documented bound on the size of a compressed frame.\<close>

definition zstd_bounded :: "zstd_lib \<Rightarrow> bool" where
  "zstd_bounded Z \<longleftrightarrow> (\<forall>level d c. z_compress Z level d = Some c
     \<longrightarrow> length c \<le> length d + length d div 256 + 64)"

lemma toy_zstd_bounded: "zstd_bounded toy_zstd"
  by (simp add: zstd_bounded_def toy_zstd_def toy_compress_def)

lemma try_encode_short:
  assumes "zstd_bounded Z" and "try_encode Z level base new = Inr (Some d)" and "length new \<le> 2 ^ 20"
  shows "length d \<le> 2 ^ 20"
proof -
  from try_encode_Some [OF assms(2)] obtain standalone where
    s: "z_compress Z level new = Some standalone" "length d < length standalone * 90 div 100" by blast
  with assms(1) have "length standalone \<le> length new + length new div 256 + 64"
    unfolding zstd_bounded_def by blast
  with assms(3) s(2) show ?thesis by simp
qed

section \<open>Properties\<close>

text \<open>
  C24. Delta encoding is lossless and pays: what \<open>try_encode\<close> returns decodes, against the same
  base, to the chunk that was encoded, and it is smaller than 90 percent of the chunk compressed
  alone; an encoding is only returned for chunks of at least 256 bytes whose lengths differ by a
  factor of 4 at most.
\<close>

theorem delta_roundtrip:
  assumes "zstd_ok Z" and "try_encode Z level base new = Inr (Some d)" and "length new \<le> n"
  shows "delta_decode Z base d n = Inr new
    \<and> (\<exists>standalone. z_compress Z level new = Some standalone
         \<and> 100 * length d < 90 * length standalone)
    \<and> should_attempt base new"
proof -
  from try_encode_Some [OF assms(2)] obtain standalone where s:
    "z_compress_dict Z level base new = Some d" "z_compress Z level new = Some standalone"
    "length d < length standalone * 90 div 100" by blast
  have "100 * length d < 90 * length standalone" using s(3) by linarith
  moreover have "should_attempt base new"
    using assms(2) by (auto simp: try_encode_def split: if_splits)
  ultimately show ?thesis
    using s assms zstd_okD(4) by (auto simp: delta_decode_def)
qed

theorem delta_roundtrip_witness:
  "try_encode toy_zstd 3 (replicate 300 0 @ [1]) (replicate 300 0 @ [1]) = Inr (Some [0])
   \<and> delta_decode toy_zstd (replicate 300 0 @ [1]) [0] 301 = Inr (replicate 300 0 @ [1])"
proof -
  have "replicate 301 0 \<noteq> replicate 300 (0 :: u8) @ [1]"
    by (metis last_replicate last_snoc zero_neq_numeral zero_neq_one)
  then have e: "try_encode toy_zstd 3 (replicate 300 0 @ [1]) (replicate 300 0 @ [1]) = Inr (Some [0])"
    by (auto simp: try_encode_def should_attempt_def toy_zstd_def toy_compress_def)
  show ?thesis using e delta_roundtrip [OF toy_zstd_ok e, of 301] by simp
qed

end
