(* ===== verification/Pack.thy ===== *)
theory Pack
  imports Types Delta
begin

text \<open>
  The pack format: \<^verbatim>\<open>packt-lib/src/store/pack.rs\<close>. Writing (the super-block of full chunks,
  the delta frames, the index, the footer with its checksum), reading all three versions of the
  format with every check of the source, and reading single chunks. The digest, zstd and the
  postcard encoding of the index are library functions, gathered in \<open>libs\<close>.
\<close>

section \<open>Data\<close>

datatype entry_type = Full | Delta hash | FullRaw

record pack_entry =
  pe_hash :: hash
  pe_data :: bytes
  pe_orig_length :: u32
  pe_entry_type :: entry_type
  pe_signature :: "bytes option"

record index_entry =
  ie_hash :: hash
  ie_offset :: u64
  ie_length :: u32
  ie_orig_length :: u32
  ie_entry_type :: entry_type
  ie_signature :: "bytes option"

record footer =
  ft_index_offset :: u64
  ft_index_len :: u32
  ft_checksum :: bytes
  ft_magic :: u64

record index_entry_v1 =
  v1_hash :: hash
  v1_offset :: u64
  v1_length :: u32
  v1_orig_length :: u32

text \<open>
  \<open>lib_ser_index\<close> is \<^verbatim>\<open>postcard::to_stdvec\<close> on \<^verbatim>\<open>PackIndex\<close>; \<open>lib_de_index\<close> and
  \<open>lib_de_index_v1\<close> are \<^verbatim>\<open>postcard::take_from_bytes\<close> on \<^verbatim>\<open>PackIndex\<close> and
  \<^verbatim>\<open>PackIndexV1\<close> (the rest of the bytes is dropped).
\<close>

record libs =
  lib_blake3 :: "bytes \<Rightarrow> bytes"
  lib_zstd :: zstd_lib
  lib_ser_index :: "index_entry list \<Rightarrow> bytes option"
  lib_de_index :: "bytes \<Rightarrow> index_entry list option"
  lib_de_index_v1 :: "bytes \<Rightarrow> index_entry_v1 list option"

definition libs_ok :: "libs \<Rightarrow> bool" where
  "libs_ok L \<longleftrightarrow>
     (\<forall>d. length (lib_blake3 L d) = 32) \<and> zstd_ok (lib_zstd L)
     \<and> (\<forall>es bs. lib_ser_index L es = Some bs \<longrightarrow> lib_de_index L bs = Some es)"

definition PACK_MAGIC :: u64 where "PACK_MAGIC = 0x3156314B43415050"
definition PACK_MAGIC_V2 :: u64 where "PACK_MAGIC_V2 = 0x3256314B43415050"
definition PACK_MAGIC_V3 :: u64 where "PACK_MAGIC_V3 = 0x3356314B43415050"
definition COMPRESSION_LEVEL :: int where "COMPRESSION_LEVEL = 3"
definition FOOTER_SIZE :: nat where "FOOTER_SIZE = 52"

lemmas pack_consts = PACK_MAGIC_def PACK_MAGIC_V2_def PACK_MAGIC_V3_def FOOTER_SIZE_def

section \<open>The entropy check\<close>

fun entropy_scan :: "(u8 \<Rightarrow> bool) \<Rightarrow> nat \<Rightarrow> bytes \<Rightarrow> bool" where
  "entropy_scan seen count [] = False"
| "entropy_scan seen count (b # bs) =
     (if \<not> seen b
      then (let seen = seen(b := True); count = count + 1
            in if count > 220 then True else entropy_scan seen count bs)
      else entropy_scan seen count bs)"

definition is_high_entropy :: "bytes \<Rightarrow> bool" where
  "is_high_entropy data =
     (let sample = take (min 1024 (length data)) data
      in if length sample < 256 then False else entropy_scan (\<lambda>_. False) 0 sample)"

section \<open>Writing\<close>

text \<open>What is stored of one full chunk, and under which type.\<close>

definition store_full :: "libs \<Rightarrow> pack_entry \<Rightarrow> (bytes \<times> entry_type) result" where
  "store_full L entry =
     (case pe_entry_type entry of
        Full \<Rightarrow>
          if is_high_entropy (pe_data entry) then Inr (pe_data entry, FullRaw)
          else bind_res (or_err (Serialization ''zstd compress failed'')
                 (z_compress (lib_zstd L) COMPRESSION_LEVEL (pe_data entry))) (\<lambda>c.
               if length c \<ge> length (pe_data entry) * 95 div 100
               then Inr (pe_data entry, FullRaw) else Inr (c, Full))
      | FullRaw \<Rightarrow> Inr (pe_data entry, FullRaw)
      | Delta _ \<Rightarrow> Inl (Panic ''internal error: entered unreachable code''))"

fun full_pass ::
    "libs \<Rightarrow> pack_entry list \<Rightarrow> index_entry list \<Rightarrow> bytes \<Rightarrow> u64
      \<Rightarrow> (index_entry list \<times> bytes \<times> u64) result" where
  "full_pass L [] index_entries full_raw_data full_offset =
     Inr (index_entries, full_raw_data, full_offset)"
| "full_pass L (entry # entries) index_entries full_raw_data full_offset =
     (case pe_entry_type entry of
        Delta _ \<Rightarrow> full_pass L entries index_entries full_raw_data full_offset
      | _ \<Rightarrow> bind_res (store_full L entry) (\<lambda>(compressed, actual_type).
          full_pass L entries
            (index_entries @ [\<lparr>ie_hash = pe_hash entry, ie_offset = full_offset,
               ie_length = of_nat (length compressed), ie_orig_length = pe_orig_length entry,
               ie_entry_type = actual_type, ie_signature = pe_signature entry\<rparr>])
            (full_raw_data @ compressed)
            (full_offset + of_nat (length compressed))))"

fun delta_pass ::
    "u64 \<Rightarrow> pack_entry list \<Rightarrow> index_entry list \<Rightarrow> bytes \<Rightarrow> index_entry list \<times> bytes" where
  "delta_pass delta_base_offset [] index_entries pack = (index_entries, pack)"
| "delta_pass delta_base_offset (entry # entries) index_entries pack =
     (case pe_entry_type entry of
        Delta _ \<Rightarrow>
          (let entry_offset = delta_base_offset + of_nat (length pack) - delta_base_offset
           in delta_pass delta_base_offset entries
                (index_entries @ [\<lparr>ie_hash = pe_hash entry, ie_offset = entry_offset,
                   ie_length = of_nat (length (pe_data entry)),
                   ie_orig_length = pe_orig_length entry,
                   ie_entry_type = pe_entry_type entry, ie_signature = pe_signature entry\<rparr>])
                (pack @ pe_data entry))
      | _ \<Rightarrow> delta_pass delta_base_offset entries index_entries pack)"

definition encode_footer :: "footer \<Rightarrow> bytes" where
  "encode_footer f =
     u64_to_le (ft_index_offset f) @ u32_to_le (ft_index_len f) @ ft_checksum f
     @ u64_to_le (ft_magic f)"

definition decode_footer :: "bytes \<Rightarrow> footer result" where
  "decode_footer data =
     (if length data < FOOTER_SIZE then Inl (Err (InvalidPackFormat ''footer too short''))
      else (let bs = take FOOTER_SIZE data
            in Inr \<lparr>ft_index_offset = u64_from_le (take 8 bs),
                    ft_index_len = u32_from_le (take 4 (drop 8 bs)),
                    ft_checksum = take 32 (drop 12 bs),
                    ft_magic = u64_from_le (take 8 (drop 44 bs))\<rparr>))"

text \<open>The bytes the checksum of a version 3 pack covers besides the contents.\<close>

definition footer_fields :: "u64 \<Rightarrow> u32 \<Rightarrow> u64 \<Rightarrow> bytes" where
  "footer_fields index_offset index_len magic =
     u64_to_le index_offset @ u32_to_le index_len @ u64_to_le magic"

definition seal_pack :: "libs \<Rightarrow> bytes \<Rightarrow> index_entry list \<Rightarrow> bytes result" where
  "seal_pack L pack index_entries =
     (let index_offset = of_nat (length pack)
      in bind_res (or_err (Serialization ''postcard index'') (lib_ser_index L index_entries))
           (\<lambda>index_bytes.
              let index_len = of_nat (length index_bytes);
                  pack = pack @ index_bytes;
                  checksum = lib_blake3 L (pack @ footer_fields index_offset index_len PACK_MAGIC_V3);
                  footer = \<lparr>ft_index_offset = index_offset, ft_index_len = index_len,
                            ft_checksum = checksum, ft_magic = PACK_MAGIC_V3\<rparr>
              in Inr (pack @ encode_footer footer)))"

definition write_superblock :: "libs \<Rightarrow> bytes \<Rightarrow> bytes result" where
  "write_superblock L full_raw_data =
     (if full_raw_data \<noteq> [] then
        (case z_stream (lib_zstd L) COMPRESSION_LEVEL 4 full_raw_data of
           Inl m \<Rightarrow> Inl (Err (Serialization m))
         | Inr compressed \<Rightarrow> Inr compressed)
      else Inr [])"

definition write_pack :: "libs \<Rightarrow> pack_entry list \<Rightarrow> bytes result" where
  "write_pack L entries =
     bind_res (full_pass L entries [] [] 0) (\<lambda>(index_entries, full_raw_data, full_offset).
     bind_res (write_superblock L full_raw_data) (\<lambda>pack.
       let delta_base_offset = of_nat (length pack);
           (index_entries, pack) = delta_pass delta_base_offset entries index_entries pack
       in seal_pack L pack index_entries))"

section \<open>Reading\<close>

definition is_delta :: "index_entry \<Rightarrow> bool" where
  "is_delta e = (case ie_entry_type e of Delta _ \<Rightarrow> True | _ \<Rightarrow> False)"

definition entry_of_v1 :: "index_entry_v1 \<Rightarrow> index_entry" where
  "entry_of_v1 e = \<lparr>ie_hash = v1_hash e, ie_offset = v1_offset e, ie_length = v1_length e,
     ie_orig_length = v1_orig_length e, ie_entry_type = Full, ie_signature = None\<rparr>"

definition pack_digest :: "libs \<Rightarrow> bytes \<Rightarrow> footer \<Rightarrow> bytes" where
  "pack_digest L data_to_verify ft =
     lib_blake3 L (data_to_verify @
       (if ft_magic ft = PACK_MAGIC_V3
        then footer_fields (ft_index_offset ft) (ft_index_len ft) (ft_magic ft) else []))"

definition read_entries :: "libs \<Rightarrow> footer \<Rightarrow> bytes \<Rightarrow> index_entry list result" where
  "read_entries L ft index_slice =
     (if ft_magic ft = PACK_MAGIC
      then bind_res (or_err (InvalidPackFormat ''bad index'') (lib_de_index_v1 L index_slice))
             (\<lambda>es. Inr (map entry_of_v1 es))
      else or_err (InvalidPackFormat ''bad index'') (lib_de_index L index_slice))"

definition superblock_end :: "nat \<Rightarrow> index_entry list \<Rightarrow> nat" where
  "superblock_end index_start entries =
     (case map (\<lambda>e. unat (ie_offset e)) (filter is_delta entries) of
        [] \<Rightarrow> index_start
      | o1 # os \<Rightarrow> fold min os o1)"

definition entry_end :: "index_entry \<Rightarrow> nat" where
  "entry_end e = unat (ie_offset e + ucast (ie_length e) :: usize)"

definition superblock_size :: "index_entry list \<Rightarrow> nat" where
  "superblock_size entries = fold max (map entry_end (filter (\<lambda>e. \<not> is_delta e) entries)) 0"

definition read_superblock ::
    "libs \<Rightarrow> bytes \<Rightarrow> nat \<Rightarrow> index_entry list \<Rightarrow> bytes option result" where
  "read_superblock L data index_start entries =
     bind_res (slice 0 (superblock_end index_start entries) data) (\<lambda>superblock_compressed.
       if superblock_compressed = [] then Inr None
       else bind_res (or_err (Serialization ''zstd superblock decompress'')
              (z_decompress (lib_zstd L) superblock_compressed (superblock_size entries)))
            (\<lambda>decompressed.
              if \<exists>e \<in> set entries. \<not> is_delta e \<and> entry_end e > length decompressed
              then Inl (Err (InvalidPackFormat ''entry offset+length exceeds superblock size''))
              else Inr (Some decompressed)))"

definition read_pack ::
    "libs \<Rightarrow> bytes \<Rightarrow> (index_entry list \<times> bytes \<times> bytes option) result" where
  "read_pack L data =
     (if length data < FOOTER_SIZE then Inl (Err (InvalidPackFormat ''Pack too short''))
      else bind_res (decode_footer (drop (length data - FOOTER_SIZE) data)) (\<lambda>ft.
      if ft_magic ft \<noteq> PACK_MAGIC \<and> ft_magic ft \<noteq> PACK_MAGIC_V2 \<and> ft_magic ft \<noteq> PACK_MAGIC_V3
      then Inl (Err (InvalidPackFormat ''bad magic''))
      else (let footer_start = length data - FOOTER_SIZE;
                computed = pack_digest L (take footer_start data) ft
            in if computed \<noteq> ft_checksum ft
               then Inl (Err (ChecksumMismatch (hex_encode (ft_checksum ft)) (hex_encode computed)))
               else (let index_start = unat (ft_index_offset ft);
                         index_end = index_start + unat (ft_index_len ft)
                     in if index_end \<ge> 2 ^ 64
                        then Inl (Err (InvalidPackFormat ''index offset overflow''))
                        else if index_end > footer_start
                        then Inl (Err (InvalidPackFormat ''index extends past data''))
                        else bind_res (slice index_start index_end data) (\<lambda>index_slice.
                             bind_res (read_entries L ft index_slice) (\<lambda>entries.
                             bind_res (if ft_magic ft = PACK_MAGIC_V3
                                       then read_superblock L data index_start entries
                                       else Inr None) (\<lambda>superblock.
                             Inr (entries, ft_checksum ft, superblock))))))))"

section \<open>Single chunks\<close>

definition checked_range :: "u64 \<Rightarrow> u32 \<Rightarrow> nat \<Rightarrow> (nat \<times> nat) result" where
  "checked_range offset len data_len =
     (let start = unat offset; stop = start + unat len
      in if stop \<ge> 2 ^ 64 then Inl (Err (InvalidPackFormat ''chunk offset/length overflow''))
         else if stop > data_len then Inl (Err (InvalidPackFormat ''chunk exceeds data size''))
         else Inr (start, stop))"

definition read_chunk :: "libs \<Rightarrow> bytes \<Rightarrow> pack_location \<Rightarrow> bytes result" where
  "read_chunk L pack_data loc =
     bind_res (checked_range (pl_offset loc) (pl_length loc) (length pack_data)) (\<lambda>(start, stop).
     bind_res (slice start stop pack_data) (\<lambda>compressed.
     or_err (Serialization ''zstd decompress'')
       (z_decompress (lib_zstd L) compressed (unat (pl_orig_length loc)))))"

definition read_raw_chunk :: "bytes \<Rightarrow> pack_location \<Rightarrow> bytes result" where
  "read_raw_chunk pack_data loc =
     bind_res (checked_range (pl_offset loc) (pl_length loc) (length pack_data)) (\<lambda>(start, stop).
     slice start stop pack_data)"

definition read_delta_chunk :: "libs \<Rightarrow> bytes \<Rightarrow> pack_location \<Rightarrow> bytes \<Rightarrow> bytes result" where
  "read_delta_chunk L pack_data loc base_chunk =
     bind_res (checked_range (pl_offset loc) (pl_length loc) (length pack_data)) (\<lambda>(start, stop).
     bind_res (slice start stop pack_data) (\<lambda>compressed.
     or_err (Serialization ''zstd dict decompress'')
       (z_decompress_dict (lib_zstd L) base_chunk compressed (unat (pl_orig_length loc)))))"

text \<open>
  The data of a full chunk, which both stores read in the same way (lines 366 to 388 of
  \<^verbatim>\<open>store/local.rs\<close>, 499 to 521 of \<^verbatim>\<open>store/cloud.rs\<close>): from the decompressed super-block
  when the pack has one, else from the pack.
\<close>

definition full_chunk_data ::
    "libs \<Rightarrow> bytes \<Rightarrow> pack_location \<Rightarrow> bool \<Rightarrow> bytes option \<Rightarrow> bytes result" where
  "full_chunk_data L pack_data loc needs_raw superblock =
     (case superblock of
        Some sb \<Rightarrow>
          (let start = unat (pl_offset loc);
               stop = unat (pl_offset loc + ucast (pl_length loc) :: usize)
           in if stop > length sb
              then Inl (Err (InvalidPackFormat ''chunk exceeds superblock size''))
              else bind_res (slice start stop sb) (\<lambda>raw.
                if needs_raw then Inr raw
                else or_err (Serialization ''zstd decompress'')
                       (z_decompress (lib_zstd L) raw (unat (pl_orig_length loc)))))
      | None \<Rightarrow>
          if needs_raw then read_raw_chunk pack_data loc else read_chunk L pack_data loc)"

definition entry_location :: "u32 \<Rightarrow> index_entry \<Rightarrow> pack_location" where
  "entry_location pack_id e = \<lparr>pl_pack_id = pack_id, pl_offset = ie_offset e,
     pl_length = ie_length e, pl_orig_length = ie_orig_length e\<rparr>"

lemma entry_location_simps [simp]:
  "pl_offset (entry_location i e) = ie_offset e" "pl_length (entry_location i e) = ie_length e"
  "pl_orig_length (entry_location i e) = ie_orig_length e" "pl_pack_id (entry_location i e) = i"
  by (simp_all add: entry_location_def)

section \<open>The footer\<close>

lemma length_encode_footer [simp, codec_simps]:
  "length (encode_footer f) = 20 + length (ft_checksum f)"
  by (simp add: encode_footer_def)

lemma decode_encode_footer [simp, codec_simps]:
  assumes "length (ft_checksum f) = 32"
  shows "decode_footer (encode_footer f) = Inr f"
  using assms
  by (cases f) (simp add: decode_footer_def encode_footer_def FOOTER_SIZE_def Let_def)

section \<open>The entropy check\<close>

lemma entropy_scan_spec:
  "count \<le> 220 \<Longrightarrow> entropy_scan seen count bs \<longleftrightarrow> 220 < count + card (set bs - {b. seen b})"
proof (induction seen count bs rule: entropy_scan.induct)
  case (1 seen count)
  then show ?case by simp
next
  case (2 seen count b bs)
  show ?case
  proof (cases "seen b")
    case True
    then have "set (b # bs) - {b. seen b} = set bs - {b. seen b}" by auto
    with 2 True show ?thesis by simp
  next
    case False
    have "{x. (seen(b := True)) x} = insert b {x. seen x}" by auto
    then have "set (b # bs) - {x. seen x} = insert b (set bs - {x. (seen(b := True)) x})"
      using False by auto
    then have c: "card (set (b # bs) - {x. seen x}) = Suc (card (set bs - {x. (seen(b := True)) x}))"
      by simp
    show ?thesis
    proof (cases "count = 220")
      case True
      with False c show ?thesis by simp
    next
      case less: False
      then have le: "count + 1 \<le> 220" using "2.prems" by simp
      have "entropy_scan (seen(b := True)) (count + 1) bs
          \<longleftrightarrow> 220 < count + 1 + card (set bs - {x. (seen(b := True)) x})"
        by (rule "2.IH"(1) [OF False refl refl]) (use le in simp_all)
      moreover have "entropy_scan seen count (b # bs) = entropy_scan (seen(b := True)) (count + 1) bs"
        using False le by (simp add: Let_def)
      ultimately show ?thesis using c by simp
    qed
  qed
qed

lemma is_high_entropy_iff:
  "is_high_entropy data \<longleftrightarrow> 256 \<le> length data \<and> 220 < card (set (take 1024 data))"
  using entropy_scan_spec [of 0 "\<lambda>_. False" "take 1024 data"]
  by (auto simp: is_high_entropy_def Let_def min_def)

section \<open>The layout of a written pack\<close>

definition is_full_input :: "pack_entry \<Rightarrow> bool" where
  "is_full_input e = (case pe_entry_type e of Delta _ \<Rightarrow> False | _ \<Rightarrow> True)"

fun full_index :: "nat \<Rightarrow> (pack_entry \<times> bytes \<times> entry_type) list \<Rightarrow> index_entry list" where
  "full_index n [] = []"
| "full_index n ((e, c, t) # r) =
     \<lparr>ie_hash = pe_hash e, ie_offset = of_nat n, ie_length = of_nat (length c),
      ie_orig_length = pe_orig_length e, ie_entry_type = t, ie_signature = pe_signature e\<rparr>
     # full_index (n + length c) r"

fun delta_index :: "nat \<Rightarrow> pack_entry list \<Rightarrow> index_entry list" where
  "delta_index n [] = []"
| "delta_index n (e # r) =
     \<lparr>ie_hash = pe_hash e, ie_offset = of_nat n, ie_length = of_nat (length (pe_data e)),
      ie_orig_length = pe_orig_length e, ie_entry_type = pe_entry_type e,
      ie_signature = pe_signature e\<rparr>
     # delta_index (n + length (pe_data e)) r"

definition stored_bytes :: "(pack_entry \<times> bytes \<times> entry_type) list \<Rightarrow> bytes" where
  "stored_bytes zs = concat (map (\<lambda>(e, c, t). c) zs)"

lemma stored_bytes_simps [simp]:
  "stored_bytes [] = []"
  "stored_bytes ((e, c, t) # zs) = c @ stored_bytes zs"
  by (simp_all add: stored_bytes_def)

lemma store_full_cases:
  assumes "store_full L e = Inr (c, t)"
  shows "length c \<le> length (pe_data e) \<and> (t = FullRaw \<and> c = pe_data e
     \<or> t = Full \<and> z_compress (lib_zstd L) COMPRESSION_LEVEL (pe_data e) = Some c)"
  using assms
  by (auto simp: store_full_def res_simps split: entry_type.splits if_splits)

lemma full_pass_spec:
  "full_pass L entries ies raw (of_nat n) = Inr (ies', raw', off') \<Longrightarrow>
     \<exists>zs. map fst zs = filter is_full_input entries
       \<and> (\<forall>(e, c, t)\<in>set zs. store_full L e = Inr (c, t))
       \<and> ies' = ies @ full_index n zs \<and> raw' = raw @ stored_bytes zs"
proof (induction entries arbitrary: ies raw n)
  case Nil
  then show ?case by (intro exI [of _ "[]"]) auto
next
  case (Cons e entries)
  show ?case
  proof (cases "is_full_input e")
    case False
    then have "full_pass L (e # entries) ies raw (of_nat n) = full_pass L entries ies raw (of_nat n)"
      by (auto simp: is_full_input_def split: entry_type.splits)
    with Cons.IH Cons.prems False show ?thesis by simp
  next
    case True
    with Cons.prems obtain c t where c: "store_full L e = Inr (c, t)"
      and rest: "full_pass L entries
        (ies @ [\<lparr>ie_hash = pe_hash e, ie_offset = of_nat n, ie_length = of_nat (length c),
           ie_orig_length = pe_orig_length e, ie_entry_type = t, ie_signature = pe_signature e\<rparr>])
        (raw @ c) (of_nat (n + length c)) = Inr (ies', raw', off')"
      by (auto simp: is_full_input_def bind_res_eq_Inr split: entry_type.splits)
    from Cons.IH [OF rest] obtain zs where "map fst zs = filter is_full_input entries"
      "\<forall>(e, c, t)\<in>set zs. store_full L e = Inr (c, t)"
      "ies' = (ies @ [\<lparr>ie_hash = pe_hash e, ie_offset = of_nat n, ie_length = of_nat (length c),
           ie_orig_length = pe_orig_length e, ie_entry_type = t, ie_signature = pe_signature e\<rparr>])
         @ full_index (n + length c) zs" "raw' = (raw @ c) @ stored_bytes zs"
      by blast
    with True c show ?thesis by (intro exI [of _ "(e, c, t) # zs"]) auto
  qed
qed

lemma delta_pass_spec:
  "delta_pass base entries ies pack =
     (ies @ delta_index (length pack) (filter (\<lambda>e. \<not> is_full_input e) entries),
      pack @ concat (map pe_data (filter (\<lambda>e. \<not> is_full_input e) entries)))"
  by (induction entries arbitrary: ies pack)
    (auto simp: is_full_input_def Let_def split: entry_type.split)

section \<open>Reading back\<close>

lemma magic_distinct [simp]:
  "PACK_MAGIC_V3 \<noteq> PACK_MAGIC" "PACK_MAGIC_V3 \<noteq> PACK_MAGIC_V2" "PACK_MAGIC_V2 \<noteq> PACK_MAGIC"
  by (simp_all add: pack_consts)

lemma read_sealed:
  assumes ok: "libs_ok L" and seal: "seal_pack L pack ies = Inr p" and len: "length p < 2 ^ 32"
  shows "\<exists>rest ck. p = pack @ rest \<and> length ck = 32
    \<and> read_pack L p = bind_res (read_superblock L p (length pack) ies) (\<lambda>sb. Inr (ies, ck, sb))"
proof -
  from seal obtain ib where ib: "lib_ser_index L ies = Some ib"
    by (auto simp: seal_pack_def Let_def res_simps)
  define ck where "ck = lib_blake3 L ((pack @ ib) @
      footer_fields (of_nat (length pack)) (of_nat (length ib)) PACK_MAGIC_V3)"
  define ft where "ft = \<lparr>ft_index_offset = of_nat (length pack), ft_index_len = of_nat (length ib),
      ft_checksum = ck, ft_magic = PACK_MAGIC_V3\<rparr>"
  have ck: "length ck = 32" using ok by (simp add: ck_def libs_ok_def)
  have p: "p = (pack @ ib) @ encode_footer ft"
    using seal ib by (simp add: seal_pack_def Let_def ft_def ck_def)
  have lft: "length (encode_footer ft) = FOOTER_SIZE" using ck by (simp add: ft_def FOOTER_SIZE_def)
  have total: "length p = length pack + length ib + FOOTER_SIZE" using p lft by simp
  have dec: "decode_footer (drop (length p - FOOTER_SIZE) p) = Inr ft"
    using ck by (simp add: total) (simp add: p ft_def)
  have body: "take (length p - FOOTER_SIZE) p = pack @ ib"
    by (simp add: total) (simp add: p)
  have start: "unat (of_nat (length pack) :: u64) = length pack"
    "unat (of_nat (length ib) :: u32) = length ib"
    using len total by (simp_all add: unat_of_nat_u64 unat_of_nat_u32)
  have idx: "slice (length pack) (length pack + length ib) p = Inr ib"
    using total by (simp add: p)
  have ents: "read_entries L ft ib = Inr ies"
    using ok ib by (simp add: read_entries_def ft_def libs_ok_def)
  have digest: "pack_digest L (pack @ ib) ft = ck"
    by (simp add: pack_digest_def ft_def ck_def)
  have "read_pack L p = bind_res (read_superblock L p (length pack) ies) (\<lambda>sb. Inr (ies, ck, sb))"
    unfolding read_pack_def Let_def dec body bind_res_simps digest
    using start idx ents total len
    by (simp add: ft_def FOOTER_SIZE_def)
  with p ck show ?thesis by (metis append_assoc)
qed

text \<open>Offsets in the index entries of a written pack.\<close>

lemma fold_min_least: "\<forall>x\<in>set xs. a \<le> x \<Longrightarrow> fold min xs a = (a :: nat)"
  by (induction xs) (simp_all add: min_absorb2)

lemma ucast_of_nat_u32: "k < 2 ^ 32 \<Longrightarrow> (ucast (of_nat k :: u32) :: u64) = of_nat k"
  by (rule word_unat_eq_iff [THEN iffD2])
    (simp only: ucast_u32_bound unat_of_nat_u32, simp add: unat_of_nat_u64)

lemma entry_end_of_nat:
  assumes "k < 2 ^ 32" and "n + k < 2 ^ 64"
  shows "unat (of_nat n + ucast (of_nat k :: u32) :: usize) = n + k"
proof -
  have "of_nat n + ucast (of_nat k :: u32) = (of_nat (n + k) :: usize)"
    using assms(1) by (simp add: ucast_of_nat_u32)
  then show ?thesis using assms(2) by (simp only: unat_of_nat_u64)
qed

lemma full_index_filters:
  assumes "\<forall>(e, c, t)\<in>set zs. t = Full \<or> t = FullRaw"
  shows "filter is_delta (full_index n zs) = []"
    and "filter (\<lambda>e. \<not> is_delta e) (full_index n zs) = full_index n zs"
  using assms by (induction n zs rule: full_index.induct) (auto simp: is_delta_def)

lemma delta_index_filters:
  assumes "\<forall>e\<in>set ds. \<not> is_full_input e"
  shows "filter is_delta (delta_index n ds) = delta_index n ds"
    and "filter (\<lambda>e. \<not> is_delta e) (delta_index n ds) = []"
  using assms by (induction n ds rule: delta_index.induct)
    (auto simp: is_delta_def is_full_input_def split: entry_type.splits)

lemma delta_index_offsets:
  "n + length (concat (map pe_data ds)) < 2 ^ 64 \<Longrightarrow> ie \<in> set (delta_index n ds)
     \<Longrightarrow> n \<le> unat (ie_offset ie)"
proof (induction n ds rule: delta_index.induct)
  case (2 n e r)
  then have "ie = hd (delta_index n (e # r)) \<or> n + length (pe_data e) \<le> unat (ie_offset ie)"
    by auto
  with 2(2) show ?case by (auto simp: unat_of_nat_u64)
qed simp

lemma superblock_end_written:
  assumes fs: "\<forall>(e, c, t)\<in>set zs. t = Full \<or> t = FullRaw" and ds: "\<forall>e\<in>set ds. \<not> is_full_input e"
    and len: "n + length (concat (map pe_data ds)) < 2 ^ 64"
  shows "superblock_end (n + length (concat (map pe_data ds))) (full_index 0 zs @ delta_index n ds) = n"
proof (cases ds)
  case Nil
  then show ?thesis using fs by (simp add: superblock_end_def full_index_filters)
next
  case (Cons e r)
  have "\<forall>x\<in>set (map (\<lambda>e. unat (ie_offset e)) (delta_index (n + length (pe_data e)) r)). n \<le> x"
    using delta_index_offsets [of "n + length (pe_data e)" r] len Cons by force
  then show ?thesis
    using Cons fs ds len delta_index_filters [of r "n + length (pe_data e)"]
    by (auto simp: superblock_end_def full_index_filters is_delta_def is_full_input_def
        unat_of_nat_u64 fold_min_least split: entry_type.splits)
qed

lemma superblock_size_written:
  assumes fs: "\<forall>(e, c, t)\<in>set zs. (t = Full \<or> t = FullRaw) \<and> length c < 2 ^ 32"
    and ds: "\<forall>e\<in>set ds. \<not> is_full_input e" and len: "length (stored_bytes zs) < 2 ^ 64"
  shows "superblock_size (full_index 0 zs @ delta_index n ds) = length (stored_bytes zs)"
proof -
  have "\<forall>(e, c, t)\<in>set zs. length c < 2 ^ 32 \<Longrightarrow> m + length (stored_bytes zs) < 2 ^ 64 \<Longrightarrow>
      fold max (map entry_end (full_index m zs)) m = m + length (stored_bytes zs)" for m zs
    by (induction m zs rule: full_index.induct)
      (auto simp: entry_end_def entry_end_of_nat max_def)
  moreover have "\<forall>(e, c, t)\<in>set zs. length c < 2 ^ 32" "\<forall>(e, c, t)\<in>set zs. t = Full \<or> t = FullRaw"
    using fs by auto
  ultimately show ?thesis
    using len ds by (auto simp: superblock_size_def full_index_filters delta_index_filters)
qed

lemma fold_max_ge: "x \<in> set xs \<or> x \<le> a \<Longrightarrow> x \<le> fold max xs (a :: nat)"
proof (induction xs arbitrary: a)
  case (Cons y ys)
  then have "x \<in> set ys \<or> x \<le> max y a" by auto
  with Cons.IH show ?case by simp
qed simp

lemma entry_end_le_superblock_size:
  "e \<in> set es \<Longrightarrow> \<not> is_delta e \<Longrightarrow> entry_end e \<le> superblock_size es"
  unfolding superblock_size_def by (rule fold_max_ge) simp

lemma read_superblock_written:
  assumes ok: "zstd_ok (lib_zstd L)" and sb: "write_superblock L (stored_bytes zs) = Inr sbc"
    and fs: "\<forall>(e, c, t)\<in>set zs. (t = Full \<or> t = FullRaw) \<and> length c < 2 ^ 32"
    and ds: "\<forall>e\<in>set ds. \<not> is_full_input e"
    and len: "length (stored_bytes zs) < 2 ^ 64" "length sbc + length (concat (map pe_data ds)) < 2 ^ 64"
  shows "read_superblock L (sbc @ concat (map pe_data ds) @ rest)
      (length sbc + length (concat (map pe_data ds))) (full_index 0 zs @ delta_index (length sbc) ds)
    = Inr (if stored_bytes zs = [] then None else Some (stored_bytes zs))"
proof -
  let ?es = "full_index 0 zs @ delta_index (length sbc) ds"
  have t: "\<forall>(e, c, t)\<in>set zs. t = Full \<or> t = FullRaw" using fs by auto
  have fin: "superblock_end (length sbc + length (concat (map pe_data ds))) ?es = length sbc"
    by (rule superblock_end_written [OF t ds len(2)])
  have size: "superblock_size ?es = length (stored_bytes zs)"
    by (rule superblock_size_written [OF fs ds len(1)])
  have inside: "\<not> (\<exists>e\<in>set ?es. \<not> is_delta e \<and> length (stored_bytes zs) < entry_end e)"
    using entry_end_le_superblock_size [of _ ?es] size by fastforce
  have sl: "slice 0 (length sbc) (sbc @ concat (map pe_data ds) @ rest) = Inr sbc" by simp
  show ?thesis
  proof (cases "stored_bytes zs = []")
    case True
    with sb have "sbc = []" by (simp add: write_superblock_def)
    with True show ?thesis unfolding read_superblock_def fin sl by simp
  next
    case False
    with sb have z: "z_stream (lib_zstd L) COMPRESSION_LEVEL 4 (stored_bytes zs) = Inr sbc"
      by (auto simp: write_superblock_def split: sum.splits)
    have "z_decompress (lib_zstd L) sbc (superblock_size ?es) = Some (stored_bytes zs)"
      and "sbc \<noteq> []"
      using zstd_okD(2,3) [OF ok z] size by auto
    with False inside show ?thesis unfolding read_superblock_def fin sl by simp
  qed
qed

lemma full_chunk_recovered:
  assumes ok: "zstd_ok (lib_zstd L)" and st: "store_full L e = Inr (c, t)"
    and orig: "length (pe_data e) \<le> unat (pl_orig_length loc)"
    and sb: "case sb of Some s \<Rightarrow> s = pre @ c @ post | None \<Rightarrow> c = [] \<and> pre = []"
    and len: "length pre + length c < 2 ^ 32"
    and loc: "pl_offset loc = of_nat (length pre)" "pl_length loc = of_nat (length c)"
  shows "full_chunk_data L p loc (t = FullRaw) sb = Inr (pe_data e)"
proof -
  have stop: "unat (pl_offset loc + ucast (pl_length loc) :: usize) = length pre + length c"
    using len by (simp add: loc entry_end_of_nat)
  have start: "unat (pl_offset loc) = length pre" "unat (pl_length loc) = length c"
    using len by (simp_all add: loc unat_of_nat_u64 unat_of_nat_u32)
  from store_full_cases [OF st]
  have val: "(if t = FullRaw then Inr c else or_err (Serialization ''zstd decompress'')
      (z_decompress (lib_zstd L) c (unat (pl_orig_length loc)))) = Inr (pe_data e)"
    using zstd_okD(1) [OF ok _ orig] by auto
  show ?thesis
  proof (cases sb)
    case None
    with sb have "c = []" "pre = []" by simp_all
    with val start None show ?thesis
      by (auto simp: full_chunk_data_def read_raw_chunk_def read_chunk_def checked_range_def Let_def
          split: if_splits)
  next
    case (Some s)
    with sb have s: "s = pre @ c @ post" by simp
    have "slice (length pre) (length pre + length c) s = Inr c" by (simp add: s)
    with Some start stop val show ?thesis
      by (simp add: full_chunk_data_def Let_def) (simp add: s)
  qed
qed

lemma raw_chunk_at:
  assumes "p = pre @ d @ post" and "length p < 2 ^ 32"
    and "pl_offset loc = of_nat (length pre)" "pl_length loc = of_nat (length d)"
  shows "read_raw_chunk p loc = Inr d"
proof -
  have "unat (pl_offset loc) = length pre" "unat (pl_length loc) = length d"
    using assms by (simp_all add: unat_of_nat_u64 unat_of_nat_u32)
  with assms show ?thesis by (simp add: read_raw_chunk_def checked_range_def Let_def)
qed

text \<open>
  \<open>stored_as\<close>: entry \<open>e\<close> of a pack \<open>p\<close> with super-block \<open>sb\<close> is described by index entry
  \<open>ie\<close>: the metadata agree and the data can be read back.
\<close>

definition stored_as :: "libs \<Rightarrow> bytes \<Rightarrow> bytes option \<Rightarrow> pack_entry \<Rightarrow> index_entry \<Rightarrow> bool" where
  "stored_as L p sb e ie \<longleftrightarrow>
     ie_hash ie = pe_hash e \<and> ie_orig_length ie = pe_orig_length e
   \<and> ie_signature ie = pe_signature e \<and> ie_length ie \<le> of_nat (length (pe_data e))
   \<and> (case pe_entry_type e of
        Delta b \<Rightarrow> ie_entry_type ie = Delta b
          \<and> read_raw_chunk p (entry_location 0 ie) = Inr (pe_data e)
      | _ \<Rightarrow> ie_entry_type ie \<in> {Full, FullRaw}
          \<and> (length (pe_data e) \<le> unat (pe_orig_length e)
             \<longrightarrow> full_chunk_data L p (entry_location 0 ie) (ie_entry_type ie = FullRaw) sb
                 = Inr (pe_data e)))"

lemma of_nat_u32_mono: "m \<le> n \<Longrightarrow> n < 2 ^ 32 \<Longrightarrow> (of_nat m :: u32) \<le> of_nat n"
  by (simp add: word_le_nat_alt unat_of_nat_u32)

lemma full_index_stored:
  assumes ok: "zstd_ok (lib_zstd L)"
  shows "\<forall>(e, c, t)\<in>set zs. is_full_input e \<and> store_full L e = Inr (c, t) \<and> length (pe_data e) < 2 ^ 32
    \<Longrightarrow> length pre + length (stored_bytes zs) < 2 ^ 32
    \<Longrightarrow> case sb of Some s \<Rightarrow> s = pre @ stored_bytes zs | None \<Rightarrow> stored_bytes zs = [] \<and> pre = []
    \<Longrightarrow> list_all2 (stored_as L p sb) (map fst zs) (full_index (length pre) zs)"
proof (induction zs arbitrary: pre)
  case (Cons z zs)
  obtain e c t where z: "z = (e, c, t)" by (cases z)
  have st: "store_full L e = Inr (c, t)" "is_full_input e" "length (pe_data e) < 2 ^ 32"
    using Cons.prems(1) by (auto simp: z)
  have sb: "case sb of Some s \<Rightarrow> s = pre @ c @ stored_bytes zs | None \<Rightarrow> c = [] \<and> pre = []"
    using Cons.prems(3) by (auto simp: z split: option.splits)
  have len: "length pre + length c < 2 ^ 32" using Cons.prems(2) by (simp add: z)
  have "list_all2 (stored_as L p sb) (map fst zs) (full_index (length (pre @ c)) zs)"
    by (rule Cons.IH) (use Cons.prems in \<open>auto simp: z split: option.splits\<close>)
  moreover have "t = Full \<or> t = FullRaw" "length c \<le> length (pe_data e)"
    using store_full_cases [OF st(1)] by auto
  then have "stored_as L p sb e \<lparr>ie_hash = pe_hash e, ie_offset = of_nat (length pre),
      ie_length = of_nat (length c), ie_orig_length = pe_orig_length e, ie_entry_type = t,
      ie_signature = pe_signature e\<rparr>"
    using st full_chunk_recovered [OF ok st(1) _ sb len] of_nat_u32_mono [of "length c" "length (pe_data e)"]
    by (auto simp: stored_as_def is_full_input_def split: entry_type.splits)
  ultimately show ?case by (simp add: z)
qed simp

lemma delta_index_stored:
  "\<forall>e\<in>set ds. \<not> is_full_input e \<Longrightarrow> p = pre @ concat (map pe_data ds) @ post \<Longrightarrow> length p < 2 ^ 32
    \<Longrightarrow> list_all2 (stored_as L p sb) ds (delta_index (length pre) ds)"
proof (induction ds arbitrary: pre)
  case (Cons e ds)
  have "list_all2 (stored_as L p sb) ds (delta_index (length (pre @ pe_data e)) ds)"
    by (rule Cons.IH) (use Cons.prems in auto)
  moreover have "read_raw_chunk p loc = Inr (pe_data e)"
    if "pl_offset loc = of_nat (length pre)" "pl_length loc = of_nat (length (pe_data e))" for loc
    by (rule raw_chunk_at [OF _ Cons.prems(3) that]) (use Cons.prems(2) in simp)
  then have "stored_as L p sb e \<lparr>ie_hash = pe_hash e, ie_offset = of_nat (length pre),
      ie_length = of_nat (length (pe_data e)), ie_orig_length = pe_orig_length e,
      ie_entry_type = pe_entry_type e, ie_signature = pe_signature e\<rparr>"
    using Cons.prems(1) by (auto simp: stored_as_def is_full_input_def split: entry_type.splits)
  ultimately show ?case by simp
qed simp

text \<open>What every written pack is made of.\<close>

lemma write_pack_layout:
  assumes "write_pack L entries = Inr p"
  shows "\<exists>zs sbc. let ds = filter (\<lambda>e. \<not> is_full_input e) entries in
      map fst zs = filter is_full_input entries
    \<and> (\<forall>(e, c, t)\<in>set zs. store_full L e = Inr (c, t))
    \<and> write_superblock L (stored_bytes zs) = Inr sbc
    \<and> seal_pack L (sbc @ concat (map pe_data ds)) (full_index 0 zs @ delta_index (length sbc) ds) = Inr p"
proof -
  from assms obtain ies raw off where full: "full_pass L entries [] [] (of_nat 0) = Inr (ies, raw, off)"
    by (cases "full_pass L entries [] [] 0") (auto simp: write_pack_def)
  with assms obtain sbc where sbc: "write_superblock L raw = Inr sbc"
    by (cases "write_superblock L raw") (auto simp: write_pack_def)
  from assms full sbc have seal: "(let (index_entries, pack) = delta_pass (of_nat (length sbc)) entries ies sbc
        in seal_pack L pack index_entries) = Inr p"
    by (simp add: write_pack_def Let_def)
  from full_pass_spec [OF full] obtain zs where "map fst zs = filter is_full_input entries"
    "\<forall>(e, c, t)\<in>set zs. store_full L e = Inr (c, t)" "ies = full_index 0 zs" "raw = stored_bytes zs"
    by auto
  with sbc seal show ?thesis
    by (intro exI [of _ zs] exI [of _ sbc]) (simp add: delta_pass_spec Let_def)
qed

lemma sum_length_stored:
  "\<forall>(e, c, t)\<in>set zs. store_full L e = Inr (c, t) \<Longrightarrow>
     length (stored_bytes zs) \<le> sum_list (map (\<lambda>e. length (pe_data e)) (map fst zs))"
proof (induction zs)
  case (Cons z zs)
  obtain e c t where z: "z = (e, c, t)" by (cases z)
  with Cons.prems have "length c \<le> length (pe_data e)" using store_full_cases [of L e c t] by auto
  with Cons z show ?case by fastforce
qed simp

lemma sum_list_filter_le: "sum_list (map f (filter P xs)) \<le> sum_list (map (f :: 'a \<Rightarrow> nat) xs)"
  by (induction xs) auto

text \<open>
  The order in which the entries of a pack are indexed: the full chunks, then the deltas, each
  group in the order of the input.
\<close>

definition pack_order :: "pack_entry list \<Rightarrow> pack_entry list" where
  "pack_order entries =
     filter is_full_input entries @ filter (\<lambda>e. \<not> is_full_input e) entries"

lemma set_pack_order [simp]: "set (pack_order entries) = set entries"
  by (auto simp: pack_order_def)

lemma write_pack_readable:
  assumes ok: "libs_ok L" and w: "write_pack L entries = Inr p" and p32: "length p < 2 ^ 32"
    and d32: "sum_list (map (\<lambda>e. length (pe_data e)) entries) < 2 ^ 32"
  shows "\<exists>ies ck sb. read_pack L p = Inr (ies, ck, sb)
    \<and> list_all2 (stored_as L p sb) (pack_order entries) ies"
proof -
  define ds where "ds = filter (\<lambda>e. \<not> is_full_input e) entries"
  from write_pack_layout [OF w] obtain zs sbc where
    zs: "map fst zs = filter is_full_input entries"
    and st: "\<forall>(e, c, t)\<in>set zs. store_full L e = Inr (c, t)"
    and sbc: "write_superblock L (stored_bytes zs) = Inr sbc"
    and seal: "seal_pack L (sbc @ concat (map pe_data ds))
      (full_index 0 zs @ delta_index (length sbc) ds) = Inr p"
    by (auto simp: Let_def ds_def)
  have zok: "zstd_ok (lib_zstd L)" using ok by (simp add: libs_ok_def)
  from read_sealed [OF ok seal p32] obtain rest ck where
    p: "p = (sbc @ concat (map pe_data ds)) @ rest"
    and rd: "read_pack L p = bind_res (read_superblock L p (length (sbc @ concat (map pe_data ds)))
        (full_index 0 zs @ delta_index (length sbc) ds))
        (\<lambda>sb. Inr (full_index 0 zs @ delta_index (length sbc) ds, ck, sb))"
    by blast
  have dsf: "\<forall>e\<in>set ds. \<not> is_full_input e" by (simp add: ds_def)
  have sum: "length (stored_bytes zs) < 2 ^ 32"
    using sum_length_stored [OF st] sum_list_filter_le [of "\<lambda>e. length (pe_data e)" is_full_input entries]
      d32 by (simp add: zs)
  have member: "length (pe_data e) < 2 ^ 32" if "e \<in> set entries" for e
    using member_le_sum_list [of "length (pe_data e)" "map (\<lambda>e. length (pe_data e)) entries"] that d32
    by auto
  have fsts: "fst z \<in> set entries \<and> is_full_input (fst z)" if "z \<in> set zs" for z
  proof -
    have "fst z \<in> set (map fst zs)" using that by simp
    then show ?thesis by (simp add: zs)
  qed
  have "\<forall>(e, c, t)\<in>set zs. (t = Full \<or> t = FullRaw) \<and> length c < 2 ^ 32"
    using st fsts member store_full_cases by (fastforce intro: le_less_trans)
  from read_superblock_written [OF zok sbc this dsf, of rest] sum p32
  have sb: "read_pack L p = Inr (full_index 0 zs @ delta_index (length sbc) ds, ck,
      if stored_bytes zs = [] then None else Some (stored_bytes zs))"
    by (simp add: rd) (simp add: p)
  let ?sb = "if stored_bytes zs = [] then None else Some (stored_bytes zs)"
  have "list_all2 (stored_as L p ?sb) (map fst zs) (full_index (length ([] :: bytes)) zs)"
    by (rule full_index_stored [OF zok]) (use st fsts member sum in auto)
  moreover have "list_all2 (stored_as L p ?sb) ds (delta_index (length sbc) ds)"
    by (rule delta_index_stored [OF dsf _ p32]) (use p in simp)
  ultimately have "list_all2 (stored_as L p ?sb) (pack_order entries)
      (full_index 0 zs @ delta_index (length sbc) ds)"
    by (auto simp: pack_order_def zs ds_def intro: list_all2_appendI)
  with sb show ?thesis by blast
qed

section \<open>What the checksum protects\<close>

text \<open>The bytes of a pack the digest in its footer is taken over, and that digest.\<close>

definition digest_input :: "bytes \<Rightarrow> bytes" where
  "digest_input data =
     (let footer_start = length data - FOOTER_SIZE;
          f = drop footer_start data;
          magic = u64_from_le (take 8 (drop 44 f))
      in take footer_start data @
         (if magic = PACK_MAGIC_V3 then take 12 f @ u64_to_le magic else []))"

definition checksum_field :: "bytes \<Rightarrow> bytes" where
  "checksum_field data = take 32 (drop 12 (drop (length data - FOOTER_SIZE) data))"

lemma read_pack_digest:
  assumes "read_pack L data = Inr (ies, ck, sb)"
  shows "FOOTER_SIZE \<le> length data \<and> ck = checksum_field data
    \<and> lib_blake3 L (digest_input data) = ck"
proof -
  from assms have len: "FOOTER_SIZE \<le> length data"
    by (auto simp: read_pack_def split: if_splits)
  let ?f = "drop (length data - FOOTER_SIZE) data"
  obtain ft where ft: "decode_footer ?f = Inr ft"
    using len by (simp add: decode_footer_def Let_def)
  have lf: "length ?f = 52" using len by (simp add: FOOTER_SIZE_def)
  then have fields: "ft_checksum ft = checksum_field data"
    "ft_magic ft = u64_from_le (take 8 (drop 44 ?f))"
    "u64_to_le (ft_index_offset ft) @ u32_to_le (ft_index_len ft) = take 12 ?f"
    using ft by (auto simp: decode_footer_def Let_def FOOTER_SIZE_def checksum_field_def
        u64_le_surj u32_le_surj take_add [of 8 4, simplified])
  have "pack_digest L (take (length data - FOOTER_SIZE) data) ft = lib_blake3 L (digest_input data)"
    by (simp add: pack_digest_def digest_input_def Let_def footer_fields_def
        fields(2) fields(3) [symmetric])
  with assms ft fields(1) len show ?thesis
    by (auto simp: read_pack_def Let_def res_simps split: if_splits)
qed

lemma digest_input_sealed:
  assumes "seal_pack L pack ies = Inr p" and "\<forall>d. length (lib_blake3 L d) = 32"
  shows "FOOTER_SIZE \<le> length p \<and> length (digest_input p) = length p - 32"
proof -
  from assms obtain ib ck where "length ck = 32" and p: "p = (pack @ ib) @ encode_footer
    \<lparr>ft_index_offset = of_nat (length pack), ft_index_len = of_nat (length ib),
     ft_checksum = ck, ft_magic = PACK_MAGIC_V3\<rparr>"
    by (auto simp: seal_pack_def Let_def res_simps)
  then show ?thesis by (simp add: digest_input_def Let_def FOOTER_SIZE_def encode_footer_def)
qed

lemma footer_parts:
  assumes "length f = 52"
  shows "f = take 12 f @ take 32 (drop 12 f) @ take 8 (drop 44 f)"
proof -
  have "take 32 (drop 12 f) @ drop 32 (drop 12 f) = drop 12 f" by (rule append_take_drop_id)
  moreover have "drop 32 (drop 12 f) = drop 44 f" by simp
  moreover have "take 8 (drop 44 f) = drop 44 f" using assms by simp
  ultimately show ?thesis using append_take_drop_id [of 12 f] by metis
qed

lemma seal_digest:
  assumes "seal_pack L pack ies = Inr p" and "\<forall>d. length (lib_blake3 L d) = 32"
  shows "lib_blake3 L (digest_input p) = checksum_field p"
proof -
  from assms obtain ib ck where "length ck = 32" and p: "p = (pack @ ib) @ encode_footer
    \<lparr>ft_index_offset = of_nat (length pack), ft_index_len = of_nat (length ib),
     ft_checksum = ck, ft_magic = PACK_MAGIC_V3\<rparr>"
    and "ck = lib_blake3 L ((pack @ ib) @
      footer_fields (of_nat (length pack)) (of_nat (length ib)) PACK_MAGIC_V3)"
    by (auto simp: seal_pack_def Let_def res_simps)
  then show ?thesis
    by (simp add: digest_input_def checksum_field_def Let_def FOOTER_SIZE_def encode_footer_def
        footer_fields_def)
qed

text \<open>The magic number of a pack, and the index fields of its footer.\<close>

definition pack_magic :: "bytes \<Rightarrow> u64" where
  "pack_magic data = u64_from_le (take 8 (drop 44 (drop (length data - FOOTER_SIZE) data)))"

definition index_fields :: "bytes \<Rightarrow> bytes" where
  "index_fields data = take 12 (drop (length data - FOOTER_SIZE) data)"

lemma read_pack_parts:
  assumes "read_pack L data = Inr (ies, ck, sb)"
  obtains ft where "FOOTER_SIZE \<le> length data" "decode_footer (drop (length data - FOOTER_SIZE) data) = Inr ft"
    "ft_magic ft \<in> {PACK_MAGIC, PACK_MAGIC_V2, PACK_MAGIC_V3}" "ck = ft_checksum ft"
    "pack_digest L (take (length data - FOOTER_SIZE) data) ft = ck"
    "unat (ft_index_offset ft) + unat (ft_index_len ft) < 2 ^ 64"
    "unat (ft_index_offset ft) + unat (ft_index_len ft) \<le> length data - FOOTER_SIZE"
    "read_entries L ft (take (unat (ft_index_len ft)) (drop (unat (ft_index_offset ft)) data)) = Inr ies"
proof -
  have len: "FOOTER_SIZE \<le> length data" using assms by (auto simp: read_pack_def split: if_splits)
  then obtain ft where ft: "decode_footer (drop (length data - FOOTER_SIZE) data) = Inr ft"
    by (simp add: decode_footer_def Let_def)
  show ?thesis
    by (rule that [OF len ft]) (use assms len ft in \<open>auto simp: read_pack_def Let_def res_simps split: if_splits\<close>)
qed

lemma read_pack_magic:
  assumes "read_pack L data = Inr (ies, ck, sb)"
  shows "pack_magic data \<in> {PACK_MAGIC, PACK_MAGIC_V2, PACK_MAGIC_V3}"
  using assms
proof (rule read_pack_parts)
  fix ft assume "FOOTER_SIZE \<le> length data" "decode_footer (drop (length data - FOOTER_SIZE) data) = Inr ft"
    "ft_magic ft \<in> {PACK_MAGIC, PACK_MAGIC_V2, PACK_MAGIC_V3}"
  then show ?thesis by (auto simp: decode_footer_def Let_def FOOTER_SIZE_def pack_magic_def)
qed

lemma sealed_magic:
  assumes "seal_pack L pack ies = Inr p" and "\<forall>d. length (lib_blake3 L d) = 32"
  shows "pack_magic p = PACK_MAGIC_V3"
proof -
  from assms obtain ib ck where "length ck = 32" and p: "p = (pack @ ib) @ encode_footer
    \<lparr>ft_index_offset = of_nat (length pack), ft_index_len = of_nat (length ib),
     ft_checksum = ck, ft_magic = PACK_MAGIC_V3\<rparr>"
    by (auto simp: seal_pack_def Let_def res_simps)
  then show ?thesis by (simp add: pack_magic_def FOOTER_SIZE_def encode_footer_def)
qed

lemma take_drop_prefix: "i + l \<le> n \<Longrightarrow> n \<le> length p \<Longrightarrow> take l (drop i (take n p @ r)) = take l (drop i p)"
  by (simp add: take_drop add.commute)

text \<open>
  The bytes that version 3 added to the digest are taken for contents when the magic number is that
  of an older version: the same input of the digest is then that of a pack with free index fields.
\<close>

lemma old_version_input:
  assumes "FOOTER_SIZE \<le> length p'" and "pack_magic p' = m" and "m \<noteq> PACK_MAGIC_V3"
  shows "p' = digest_input p' @ index_fields p' @ checksum_field p' @ u64_to_le m"
proof -
  let ?n = "length p' - FOOTER_SIZE"
  let ?f = "drop ?n p'"
  have lf: "length ?f = 52" using assms(1) by (simp add: FOOTER_SIZE_def)
  then have "take 8 (drop 44 ?f) = u64_to_le m"
    using assms(2) u64_le_surj [of "take 8 (drop 44 ?f)"] by (simp add: pack_magic_def)
  moreover have "digest_input p' = take ?n p'"
    using assms(2,3) by (simp add: digest_input_def Let_def pack_magic_def)
  ultimately show ?thesis
    using footer_parts [OF lf] append_take_drop_id [of ?n p']
    unfolding index_fields_def checksum_field_def by metis
qed

text \<open>Of a version 3 pack, the digest input and the checksum field are all there is.\<close>

lemma digest_input_inj:
  assumes len: "length p = length q" "FOOTER_SIZE \<le> length p"
    and inp: "length (digest_input p) = length p - 32" "digest_input p = digest_input q"
    and ck: "checksum_field p = checksum_field q"
  shows "p = q"
proof -
  let ?n = "length p - FOOTER_SIZE"
  let ?f = "drop ?n p" and ?g = "drop ?n q"
  have lf: "length ?f = 52" "length ?g = 52" using len by (simp_all add: FOOTER_SIZE_def)
  have p: "digest_input p = take ?n p @ take 12 ?f @ take 8 (drop 44 ?f)"
    using inp(1) lf len(2) u64_le_surj [of "take 8 (drop 44 ?f)"]
    by (simp add: digest_input_def Let_def FOOTER_SIZE_def split: if_splits)
  moreover have "digest_input q = take ?n q @ take 12 ?g @ take 8 (drop 44 ?g)"
    using inp lf len u64_le_surj [of "take 8 (drop 44 ?g)"]
    by (simp add: digest_input_def Let_def FOOTER_SIZE_def split: if_splits)
  ultimately have "take ?n p = take ?n q" "take 12 ?f = take 12 ?g"
    "take 8 (drop 44 ?f) = take 8 (drop 44 ?g)"
    using inp(2) len lf by auto
  moreover have "take 32 (drop 12 ?f) = take 32 (drop 12 ?g)"
    using ck len by (simp add: checksum_field_def)
  ultimately have "?f = ?g" using footer_parts [OF lf(1)] footer_parts [OF lf(2)] by metis
  with \<open>take ?n p = take ?n q\<close> show ?thesis by (metis append_take_drop_id)
qed

section \<open>Concrete libraries\<close>

text \<open>
  A digest, a codec and an index encoding that keep the promises of \<open>libs_ok\<close>, for the
  witnesses: byte strings are written with one byte of length, integers little-endian.
\<close>

definition toy_digest :: "bytes \<Rightarrow> bytes" where
  "toy_digest d = take 32 (of_nat (length d) # d @ replicate 32 0)"

definition enc_blob :: "bytes \<Rightarrow> bytes" where
  "enc_blob b = of_nat (length b) # b"

definition enc_type :: "entry_type \<Rightarrow> bytes" where
  "enc_type t = (case t of Full \<Rightarrow> [0] | Delta b \<Rightarrow> 1 # enc_blob (hash_bytes b) | FullRaw \<Rightarrow> [2])"

definition enc_entry :: "index_entry \<Rightarrow> bytes" where
  "enc_entry e =
     enc_blob (hash_bytes (ie_hash e)) @ u64_to_le (ie_offset e) @ u32_to_le (ie_length e)
     @ u32_to_le (ie_orig_length e) @ enc_type (ie_entry_type e)
     @ (case ie_signature e of None \<Rightarrow> [0] | Some s \<Rightarrow> 1 # enc_blob s)"

definition small_entry :: "index_entry \<Rightarrow> bool" where
  "small_entry e \<longleftrightarrow> length (hash_bytes (ie_hash e)) < 256
     \<and> (case ie_entry_type e of Delta b \<Rightarrow> length (hash_bytes b) < 256 | _ \<Rightarrow> True)
     \<and> (case ie_signature e of Some s \<Rightarrow> length s < 256 | None \<Rightarrow> True)"

fun dec_blob :: "bytes \<Rightarrow> bytes \<times> bytes" where
  "dec_blob [] = ([], [])"
| "dec_blob (n # r) = (take (unat n) r, drop (unat n) r)"

definition dec_type :: "bytes \<Rightarrow> entry_type \<times> bytes" where
  "dec_type bs = (if hd bs = 0 then (Full, tl bs)
     else if hd bs = 1 then (let (b, r) = dec_blob (tl bs) in (Delta (Hash b), r))
     else (FullRaw, tl bs))"

definition dec_sig :: "bytes \<Rightarrow> bytes option \<times> bytes" where
  "dec_sig bs = (if hd bs = 0 then (None, tl bs) else (let (b, r) = dec_blob (tl bs) in (Some b, r)))"

definition dec_entry :: "bytes \<Rightarrow> index_entry \<times> bytes" where
  "dec_entry bs =
     (let (h, r) = dec_blob bs; (t, r') = dec_type (drop 16 r); (s, r'') = dec_sig r'
      in (\<lparr>ie_hash = Hash h, ie_offset = u64_from_le (take 8 r),
           ie_length = u32_from_le (take 4 (drop 8 r)),
           ie_orig_length = u32_from_le (take 4 (drop 12 r)),
           ie_entry_type = t, ie_signature = s\<rparr>, r''))"

fun dec_entries :: "nat \<Rightarrow> bytes \<Rightarrow> index_entry list" where
  "dec_entries 0 bs = []"
| "dec_entries (Suc n) bs = (let (e, r) = dec_entry bs in e # dec_entries n r)"

definition toy_ser :: "index_entry list \<Rightarrow> bytes option" where
  "toy_ser es = (if length es < 256 \<and> list_all small_entry es
     then Some (of_nat (length es) # concat (map enc_entry es)) else None)"

definition toy_de :: "bytes \<Rightarrow> index_entry list option" where
  "toy_de bs = (case bs of [] \<Rightarrow> None | n # r \<Rightarrow> Some (dec_entries (unat n) r))"

definition toy_libs :: libs where
  "toy_libs = \<lparr>lib_blake3 = toy_digest, lib_zstd = toy_zstd, lib_ser_index = toy_ser,
     lib_de_index = toy_de, lib_de_index_v1 = (\<lambda>bs. Some [])\<rparr>"

lemma dec_enc_blob [simp]: "length b < 256 \<Longrightarrow> dec_blob (enc_blob b @ r) = (b, r)"
  by (simp add: enc_blob_def unat_of_nat_byte)

lemma dec_enc_type [simp]:
  "(case t of Delta b \<Rightarrow> length (hash_bytes b) < 256 | _ \<Rightarrow> True) \<Longrightarrow>
     dec_type (enc_type t @ r) = (t, r)"
  by (cases t) (auto simp: dec_type_def enc_type_def hash_eq_iff)

lemma dec_enc_sig [simp]:
  "(case s of Some b \<Rightarrow> length b < 256 | None \<Rightarrow> True) \<Longrightarrow>
     dec_sig ((case s of None \<Rightarrow> [0] | Some b \<Rightarrow> 1 # enc_blob b) @ r) = (s, r)"
  by (cases s) (auto simp: dec_sig_def)

lemma dec_enc_entry [simp]: "small_entry e \<Longrightarrow> dec_entry (enc_entry e @ r) = (e, r)"
  by (cases e) (simp add: dec_entry_def enc_entry_def small_entry_def hash_eq_iff Let_def)

lemma dec_enc_entries:
  "list_all small_entry es \<Longrightarrow> dec_entries (length es) (concat (map enc_entry es)) = es"
  by (induction es) simp_all

lemma toy_libs_ok: "libs_ok toy_libs"
  by (auto simp: libs_ok_def toy_libs_def toy_zstd_ok toy_digest_def toy_ser_def toy_de_def
      unat_of_nat_byte dec_enc_entries split: if_splits)

section \<open>Properties\<close>

text \<open>
  C7. Nothing a pack stores is lost: reading a pack that was just written succeeds, gives one
  index entry for each entry written (the full chunks first, then the deltas), with its hash, its
  original length and its signature, and every chunk can be read back from it: a full chunk as
  the very data that was put in, whether it was stored raw or compressed and inside the
  super-block or not, a delta as the frame and the base it was given.
\<close>

theorem pack_roundtrip:
  assumes "libs_ok L" and "write_pack L entries = Inr p"
    and "length p < 2 ^ 32" and "sum_list (map (\<lambda>e. length (pe_data e)) entries) < 2 ^ 32"
  shows "\<exists>ies ck sb. read_pack L p = Inr (ies, ck, sb)
    \<and> list_all2 (stored_as L p sb) (pack_order entries) ies"
  using assms by (rule write_pack_readable)

definition sample_entries :: "u8 \<Rightarrow> pack_entry list" where
  "sample_entries s =
     [\<lparr>pe_hash = Hash (replicate 32 8), pe_data = [7, 7], pe_orig_length = 300,
       pe_entry_type = Delta (Hash (replicate 32 9)), pe_signature = None\<rparr>,
      \<lparr>pe_hash = Hash (replicate 32 9), pe_data = replicate 300 5, pe_orig_length = 300,
       pe_entry_type = Full, pe_signature = Some [s]\<rparr>]"

definition sample_index :: "u8 \<Rightarrow> index_entry list" where
  "sample_index s =
     [\<lparr>ie_hash = Hash (replicate 32 9), ie_offset = 0, ie_length = 10, ie_orig_length = 300,
       ie_entry_type = Full, ie_signature = Some [s]\<rparr>,
      \<lparr>ie_hash = Hash (replicate 32 8), ie_offset = 11, ie_length = 2, ie_orig_length = 300,
       ie_entry_type = Delta (Hash (replicate 32 9)), ie_signature = None\<rparr>]"

lemma write_sample:
  "write_pack toy_libs (sample_entries s) =
     seal_pack toy_libs [1, 0, 5, 44, 1, 0, 0, 0, 0, 0, 0, 7, 7] (sample_index s)"
proof -
  have e: "\<not> is_high_entropy (replicate 300 5)" by (simp add: is_high_entropy_iff)
  have c: "toy_compress (replicate 300 5) = [0, 5, 44, 1, 0, 0, 0, 0, 0, 0]"
    by (simp add: toy_compress_def nat_to_le_numeral)
  have full: "full_pass toy_libs (sample_entries s) [] [] 0 =
      Inr ([hd (sample_index s)], [0, 5, 44, 1, 0, 0, 0, 0, 0, 0], 10)"
    using e c by (simp add: sample_entries_def sample_index_def store_full_def toy_libs_def toy_zstd_def)
  have sb: "write_superblock toy_libs [0, 5, 44, 1, 0, 0, 0, 0, 0, 0] =
      Inr [1, 0, 5, 44, 1, 0, 0, 0, 0, 0, 0]"
    by (simp add: write_superblock_def toy_libs_def toy_zstd_def toy_compress_def)
  show ?thesis
    by (simp add: write_pack_def full sb) (simp add: sample_entries_def sample_index_def Let_def)
qed

lemma sample_ser:
  "toy_ser (sample_index s) = Some ([2, 32] @ replicate 32 9
     @ [0, 0, 0, 0, 0, 0, 0, 0, 10, 0, 0, 0, 44, 1, 0, 0, 0, 1, 1, s, 32] @ replicate 32 8
     @ [11, 0, 0, 0, 0, 0, 0, 0, 2, 0, 0, 0, 44, 1, 0, 0, 1, 32] @ replicate 32 9 @ [0])"
  by (simp add: toy_ser_def sample_index_def small_entry_def enc_entry_def enc_blob_def enc_type_def
      u64_to_le_def u32_to_le_def nat_to_le_numeral)

lemma sample_pack:
  "\<exists>p. write_pack toy_libs (sample_entries s) = Inr p \<and> length p = 203
    \<and> checksum_field p = [171, 1, 0, 5, 44, 1, 0, 0, 0, 0, 0, 0, 7, 7, 2, 32] @ replicate 16 9
    \<and> p ! 66 = s"
proof -
  let ?ib = "the (toy_ser (sample_index s))"
  let ?p = "[1, 0, 5, 44, 1, 0, 0, 0, 0, 0, 0, 7, 7] @ ?ib @ u64_to_le 13 @ u32_to_le 138
    @ ([171, 1, 0, 5, 44, 1, 0, 0, 0, 0, 0, 0, 7, 7, 2, 32] @ replicate 16 9) @ u64_to_le PACK_MAGIC_V3"
  have "write_pack toy_libs (sample_entries s) = Inr ?p"
    unfolding write_sample
    by (simp add: seal_pack_def toy_libs_def sample_ser toy_digest_def encode_footer_def
        footer_fields_def)
  moreover have "length ?p = 203" "?p ! 66 = s"
    by (simp_all add: sample_ser nth_append)
  moreover have "checksum_field ?p = [171, 1, 0, 5, 44, 1, 0, 0, 0, 0, 0, 0, 7, 7, 2, 32] @ replicate 16 9"
    by (simp add: checksum_field_def sample_ser FOOTER_SIZE_def)
  ultimately show ?thesis by blast
qed

theorem pack_roundtrip_witness:
  "\<exists>p ies ck sb. write_pack toy_libs (sample_entries 1) = Inr p \<and> read_pack toy_libs p = Inr (ies, ck, sb)
     \<and> list_all2 (stored_as toy_libs p sb) (pack_order (sample_entries 1)) ies"
proof -
  obtain p where p: "write_pack toy_libs (sample_entries 1) = Inr p" "length p = 203"
    using sample_pack by blast
  show ?thesis
    using pack_roundtrip [OF toy_libs_ok p(1)] p by (simp add: sample_entries_def)
qed

text \<open>
  C14. What the checksum tells of a damaged pack. Let \<open>read_pack\<close> accept any bytes \<open>p'\<close> other than a pack
  \<open>p\<close> that \<open>write_pack\<close> has made, longer, shorter or of its length. Then the 32 bytes of its checksum
  are the digest of what it covers of \<open>p'\<close>, and either they are not those of \<open>p\<close>, so the checksum was
  computed anew, or the digest takes the same value on two different inputs, or \<open>p'\<close> consists of
  what the digest of \<open>p\<close> covers, some twelve bytes, the checksum of \<open>p\<close> and the magic number of an
  older version.
\<close>

theorem pack_tampering_detected:
  assumes "\<forall>d. length (lib_blake3 L d) = 32" and "write_pack L entries = Inr p"
    and "p' \<noteq> p" and "read_pack L p' = Inr (ies, ck, sb)"
  shows "lib_blake3 L (digest_input p') = checksum_field p'
    \<and> (checksum_field p' \<noteq> checksum_field p
       \<or> digest_input p' \<noteq> digest_input p \<and> lib_blake3 L (digest_input p') = lib_blake3 L (digest_input p)
       \<or> (\<exists>m \<in> {PACK_MAGIC, PACK_MAGIC_V2}. \<exists>fields. length fields = 12
            \<and> p' = digest_input p @ fields @ checksum_field p @ u64_to_le m))"
proof -
  from write_pack_layout [OF assms(2)] obtain pack es where seal: "seal_pack L pack es = Inr p"
    by (auto simp: Let_def)
  from digest_input_sealed [OF seal assms(1)]
  have p: "FOOTER_SIZE \<le> length p" "length (digest_input p) = length p - 32" by auto
  have dp: "lib_blake3 L (digest_input p) = checksum_field p"
    by (rule seal_digest [OF seal assms(1)])
  from read_pack_digest [OF assms(4)] have p': "FOOTER_SIZE \<le> length p'"
    "lib_blake3 L (digest_input p') = checksum_field p'" by auto
  show ?thesis
  proof (cases "checksum_field p' = checksum_field p \<and> digest_input p' = digest_input p")
    case False
    then show ?thesis using dp p'(2) by auto
  next
    case True
    have "pack_magic p' \<noteq> PACK_MAGIC_V3"
    proof
      assume "pack_magic p' = PACK_MAGIC_V3"
      then have "length (digest_input p') = length p' - FOOTER_SIZE + 20"
        using p'(1) by (simp add: digest_input_def pack_magic_def Let_def FOOTER_SIZE_def)
      then have "length p = length p'" using True p p'(1) by (simp add: FOOTER_SIZE_def)
      moreover have "digest_input p = digest_input p'" "checksum_field p = checksum_field p'" using True by simp_all
      ultimately have "p = p'" by (rule digest_input_inj [OF _ p])
      with assms(3) show False by blast
    qed
    moreover from this read_pack_magic [OF assms(4)] have "pack_magic p' \<in> {PACK_MAGIC, PACK_MAGIC_V2}" by auto
    moreover have "length (index_fields p') = 12" using p'(1) by (simp add: index_fields_def FOOTER_SIZE_def)
    ultimately show ?thesis using old_version_input [OF p'(1) refl] True p'(2) by metis
  qed
qed

theorem pack_tampering_detected_witness:
  "\<exists>p p' ies ck sb. write_pack toy_libs (sample_entries 1) = Inr p \<and> p' \<noteq> p
     \<and> read_pack toy_libs p' = Inr (ies, ck, sb) \<and> lib_blake3 toy_libs (digest_input p') = checksum_field p'"
proof -
  obtain p where p: "write_pack toy_libs (sample_entries 1) = Inr p" "p ! 66 = 1" using sample_pack by blast
  obtain q where q: "write_pack toy_libs (sample_entries 2) = Inr q" "length q = 203" "q ! 66 = 2"
    using sample_pack by blast
  obtain ies ck sb where r: "read_pack toy_libs q = Inr (ies, ck, sb)"
    using write_pack_readable [OF toy_libs_ok q(1)] q(2) by (auto simp: sample_entries_def)
  have d: "\<forall>d. length (lib_blake3 toy_libs d) = 32" using toy_libs_ok by (simp add: libs_ok_def)
  have "q \<noteq> p" using p(2) q(3) by auto
  with pack_tampering_detected [OF d p(1) _ r] p q r show ?thesis by blast
qed

text \<open>The same contents and footer fields, with the magic number of version 2.\<close>

definition downgraded :: "bytes \<Rightarrow> bytes" where
  "downgraded p = digest_input p @ index_fields p @ checksum_field p @ u64_to_le PACK_MAGIC_V2"

text \<open>
  C33. The last of these cases is one: a pack of version 3 can be rewritten as one of version 2 without
  knowing or breaking the digest. The rewritten pack, 20 bytes longer, passes every check and has the
  same entries, but its super-block is not unpacked, so that the offsets of full chunks count from the
  start of the file instead.
\<close>

theorem pack_downgrade_accepted:
  assumes "read_pack L p = Inr (ies, ck, sb)" and "pack_magic p = PACK_MAGIC_V3"
  shows "read_pack L (downgraded p) = Inr (ies, ck, None) \<and> length (downgraded p) = length p + 20"
proof -
  obtain ft where ft: "FOOTER_SIZE \<le> length p" "decode_footer (drop (length p - FOOTER_SIZE) p) = Inr ft"
    "ck = ft_checksum ft" "pack_digest L (take (length p - FOOTER_SIZE) p) ft = ck"
    "unat (ft_index_offset ft) + unat (ft_index_len ft) < 2 ^ 64"
    "unat (ft_index_offset ft) + unat (ft_index_len ft) \<le> length p - FOOTER_SIZE"
    "read_entries L ft (take (unat (ft_index_len ft)) (drop (unat (ft_index_offset ft)) p)) = Inr ies"
    by (rule read_pack_parts [OF assms(1)])
  let ?n = "length p - FOOTER_SIZE"
  let ?f = "drop ?n p"
  have lf: "length ?f = 52" using ft(1) by (simp add: FOOTER_SIZE_def)
  have fields: "index_fields p = u64_to_le (ft_index_offset ft) @ u32_to_le (ft_index_len ft)"
    "checksum_field p = ck" "ft_magic ft = PACK_MAGIC_V3" "length ck = 32"
    using ft(2,3) lf assms(2) by (auto simp: decode_footer_def Let_def FOOTER_SIZE_def checksum_field_def
        index_fields_def pack_magic_def u64_le_surj u32_le_surj take_add [of 8 4, simplified])
  have input: "digest_input p = take ?n p @ index_fields p @ u64_to_le PACK_MAGIC_V3"
    using assms(2) by (simp add: digest_input_def index_fields_def pack_magic_def Let_def)
  then have li: "length (digest_input p) = ?n + 20" using ft(1) fields(1) by simp
  define ft2 where "ft2 = ft\<lparr>ft_magic := PACK_MAGIC_V2\<rparr>"
  have q: "downgraded p = digest_input p @ encode_footer ft2"
    using fields(1,2) ft(3) by (simp add: downgraded_def encode_footer_def ft2_def)
  have lq: "length (encode_footer ft2) = FOOTER_SIZE"
    using fields(4) ft(3) by (simp add: encode_footer_def ft2_def FOOTER_SIZE_def)
  have dec: "decode_footer (drop (length (downgraded p) - FOOTER_SIZE) (downgraded p)) = Inr ft2"
    using fields(4) ft(3) lq by (simp add: q ft2_def)
  have body: "take (length (downgraded p) - FOOTER_SIZE) (downgraded p) = digest_input p" using lq by (simp add: q)
  note old = magic_distinct(2) [symmetric]
  have digest: "pack_digest L (digest_input p) ft2 = ck"
    using ft(4) fields(1,3) old by (simp add: pack_digest_def ft2_def input footer_fields_def)
  let ?i = "unat (ft_index_offset ft)" and ?l = "unat (ft_index_len ft)"
  have "take ?l (drop ?i (downgraded p)) = take ?l (drop ?i p)"
    unfolding q input append_assoc by (rule take_drop_prefix) (use ft(1,6) in simp_all)
  then have idx: "slice ?i (?i + ?l) (downgraded p) = Inr (take ?l (drop ?i p))"
    using ft(6) li by (simp add: slice_def q)
  have ents: "read_entries L ft2 (take ?l (drop ?i p)) = Inr ies"
    using ft(7) fields(3) by (simp add: read_entries_def ft2_def)
  have "read_pack L (downgraded p) = Inr (ies, ck, None)"
    unfolding read_pack_def Let_def dec body bind_res_simps digest
    using idx ents ft(3,5,6) li lq old by (simp add: q) (simp add: ft2_def)
  then show ?thesis using li lq ft(1) by (simp add: q FOOTER_SIZE_def)
qed

theorem pack_downgrade_accepted_witness:
  "\<exists>p ies ck sb. write_pack toy_libs (sample_entries 1) = Inr p \<and> read_pack toy_libs p = Inr (ies, ck, Some sb)
     \<and> read_pack toy_libs (downgraded p) = Inr (ies, ck, None)"
proof -
  obtain p where p: "write_pack toy_libs (sample_entries 1) = Inr p" "length p = 203"
    using sample_pack by blast
  have d: "\<forall>d. length (lib_blake3 toy_libs d) = 32" using toy_libs_ok by (simp add: libs_ok_def)
  let ?raw = "[1, 0, 5, 44, 1, 0, 0, 0, 0, 0, 0, 7, 7] :: bytes"
  have seal: "seal_pack toy_libs ?raw (sample_index 1) = Inr p" using p(1) by (simp add: write_sample)
  from read_sealed [OF toy_libs_ok seal] p(2) obtain rest ck where r: "p = ?raw @ rest"
    "read_pack toy_libs p = bind_res (read_superblock toy_libs p (length ?raw) (sample_index 1))
       (\<lambda>sb. Inr (sample_index 1, ck, sb))" by auto
  obtain sb where "read_superblock toy_libs (?raw @ rest) (length ?raw) (sample_index 1) = Inr (Some sb)"
    by (simp add: read_superblock_def sample_index_def superblock_end_def superblock_size_def is_delta_def
        entry_end_def slice_def toy_libs_def toy_zstd_def toy_decompress_def)
  then have r: "read_pack toy_libs p = Inr (sample_index 1, ck, Some sb)"
    unfolding r(2) unfolding r(1) by (simp only: bind_res_simps)
  from pack_downgrade_accepted [OF r sealed_magic [OF seal d]] p r show ?thesis by blast
qed

text \<open>
  C29. The reader is not total: an index that passes every check, with a delta entry whose offset
  lies beyond the end of the pack, makes \<open>read_pack\<close> panic when it takes the super-block's bytes,
  instead of returning an error.
\<close>

theorem read_pack_panics_on_delta_offset:
  assumes "libs_ok L" and "seal_pack L [] [ie] = Inr p" and "length p < 2 ^ 32"
    and "ie_entry_type ie = Delta b" and "length p < unat (ie_offset ie)"
  shows "panics (read_pack L p)"
proof -
  from read_sealed [OF assms(1,2,3)] obtain ck where
    "read_pack L p = bind_res (read_superblock L p 0 [ie]) (\<lambda>sb. Inr ([ie], ck, sb))" by auto
  moreover have "superblock_end 0 [ie] = unat (ie_offset ie)"
    using assms(4) by (simp add: superblock_end_def is_delta_def)
  ultimately show ?thesis
    using assms(5) by (simp add: read_superblock_def slice_def)
qed

theorem read_pack_panics_on_delta_offset_witness:
  "\<exists>p. seal_pack toy_libs [] [\<lparr>ie_hash = Hash [], ie_offset = 1000, ie_length = 1,
      ie_orig_length = 1, ie_entry_type = Delta (Hash []), ie_signature = None\<rparr>] = Inr p
    \<and> panics (read_pack toy_libs p)"
proof -
  let ?ie = "\<lparr>ie_hash = Hash [], ie_offset = 1000, ie_length = 1,
      ie_orig_length = 1, ie_entry_type = Delta (Hash []), ie_signature = None\<rparr>"
  obtain p where p: "seal_pack toy_libs [] [?ie] = Inr p" "length p < 1000"
    by (simp add: seal_pack_def toy_libs_def toy_ser_def small_entry_def enc_entry_def enc_blob_def
        enc_type_def toy_digest_def)
  then show ?thesis
    using read_pack_panics_on_delta_offset [OF toy_libs_ok p(1)] by auto
qed

text \<open>
  The entropy check is exact: a chunk is taken as incompressible exactly when it has at least
  256 bytes and more than 220 different byte values among its first 1024.
\<close>

theorem is_high_entropy_exact:
  "is_high_entropy data \<longleftrightarrow> 256 \<le> length data \<and> 220 < card (set (take 1024 data))"
  by (rule is_high_entropy_iff)

end
