(* ===== verification/Content_Store.thy ===== *)
theory Content_Store
  imports Pack
begin

text \<open>
  The interface of the stores: the trait \<^verbatim>\<open>ContentStore\<close> of
  \<^verbatim>\<open>packt-lib/src/store/mod.rs\<close> as a record of operations, and the contract the pipeline
  relies on as the locale \<open>content_store_contract\<close>. The record is the table of a
  \<^verbatim>\<open>dyn ContentStore\<close>; \<open>'s\<close> is the state of the store, and the first argument of the
  operations that consult it is the lookup of the shared dedup index.
\<close>

record 's content_store =
  cs_put :: "(hash \<Rightarrow> pack_location option) \<Rightarrow> 's \<Rightarrow> hash \<Rightarrow> bytes \<Rightarrow> pack_location result \<times> 's"
  cs_put_delta :: "(hash \<Rightarrow> pack_location option) \<Rightarrow> 's \<Rightarrow> hash \<Rightarrow> hash \<Rightarrow> bytes \<Rightarrow> u32
    \<Rightarrow> pack_location result \<times> 's"
  cs_get :: "(hash \<Rightarrow> pack_location option) \<Rightarrow> 's \<Rightarrow> hash \<Rightarrow> bytes result \<times> 's"
  cs_contains :: "(hash \<Rightarrow> pack_location option) \<Rightarrow> 's \<Rightarrow> hash \<Rightarrow> bool"
  cs_put_signature :: "'s \<Rightarrow> hash \<Rightarrow> bytes \<Rightarrow> unit result \<times> 's"
  cs_flush :: "'s \<Rightarrow> unit result \<times> 's"

section \<open>Kinds of entries\<close>

text \<open>
  How a store holds its chunks: \<open>(h, None)\<close> for a chunk held in full, \<open>(h, Some b)\<close> for one held
  as a delta against \<open>b\<close>. In good order a delta has a base held in full and is not held in full
  itself.
\<close>

definition base_of :: "entry_type \<Rightarrow> hash option" where
  "base_of t = (case t of Delta b \<Rightarrow> Some b | _ \<Rightarrow> None)"

definition kinds_ok :: "(hash \<times> hash option) set \<Rightarrow> bool" where
  "kinds_ok K \<longleftrightarrow> (\<forall>h b. (h, Some b) \<in> K \<longrightarrow> (h, None) \<notin> K \<and> (b, None) \<in> K)"

lemma kinds_ok_insert_full:
  "kinds_ok K \<Longrightarrow> (\<forall>k. (h, k) \<notin> K) \<Longrightarrow> kinds_ok (insert (h, None) K)"
  by (auto simp: kinds_ok_def)

lemma kinds_ok_insert_delta:
  "kinds_ok K \<Longrightarrow> (\<forall>k. (h, k) \<notin> K) \<Longrightarrow> (b, None) \<in> K \<Longrightarrow> kinds_ok (insert (h, Some b) K)"
  by (auto simp: kinds_ok_def)

text \<open>
  \<open>V\<close> gives the chunk a hash stands for. A hash is genuine when that chunk, and no other byte
  string, has it as its digest.
\<close>

definition genuine :: "libs \<Rightarrow> (hash \<Rightarrow> bytes) \<Rightarrow> hash \<Rightarrow> bool" where
  "genuine L V h \<longleftrightarrow> (\<forall>d. Hash (lib_blake3 L d) = h \<longleftrightarrow> d = V h)"

section \<open>The contract\<close>

text \<open>
  \<open>held\<close> is what the store holds, \<open>ready n\<close> its invariant, with ids for \<open>n\<close> more packs, \<open>settled\<close>
  says that nothing is pending. A hash the index knows is not stored again; a new chunk is held
  once it has been put; a chunk held in full can be read at once, a delta once all is settled;
  flushing settles and loses nothing.
\<close>

locale content_store_contract =
  fixes S :: "'s content_store"
    and L :: libs
    and V :: "hash \<Rightarrow> bytes"
    and held :: "'s \<Rightarrow> (hash \<times> hash option) set"
    and ready :: "nat \<Rightarrow> 's \<Rightarrow> bool"
    and settled :: "'s \<Rightarrow> bool"
  assumes held_ok: "ready n s \<Longrightarrow> kinds_ok (held s)"
    and ready_mono: "ready (Suc n) s \<Longrightarrow> ready n s"
    and held_genuine: "ready n s \<Longrightarrow> (h, k) \<in> held s \<Longrightarrow> genuine L V h"
    and put_known: "ready n s \<Longrightarrow> ix h = Some loc \<Longrightarrow> cs_put S ix s h d = (Inr loc, s)"
    and put_delta_known: "ready n s \<Longrightarrow> ix h = Some loc
          \<Longrightarrow> cs_put_delta S ix s h b d l = (Inr loc, s)"
    and put_new: "ready (Suc n) s \<Longrightarrow> ix h = None \<Longrightarrow> (\<forall>k. (h, k) \<notin> held s) \<Longrightarrow> genuine L V h
          \<Longrightarrow> length (V h) \<le> 2 ^ 20 \<Longrightarrow> cs_put S ix s h (V h) = (Inr loc, s')
          \<Longrightarrow> ready n s' \<and> held s' = insert (h, None) (held s)"
    and put_delta_new: "ready (Suc n) s \<Longrightarrow> ix h = None \<Longrightarrow> (\<forall>k. (h, k) \<notin> held s) \<Longrightarrow> genuine L V h
          \<Longrightarrow> (b, None) \<in> held s \<Longrightarrow> length d \<le> 2 ^ 20
          \<Longrightarrow> z_decompress_dict (lib_zstd L) (V b) d (unat l) = Some (V h)
          \<Longrightarrow> cs_put_delta S ix s h b d l = (Inr loc, s')
          \<Longrightarrow> ready n s' \<and> held s' = insert (h, Some b) (held s)"
    and sign_ok: "ready n s \<Longrightarrow> cs_put_signature S s h sg = (r, s')
          \<Longrightarrow> ready n s' \<and> held s' = held s"
    and get_full: "ready n s \<Longrightarrow> (h, None) \<in> held s \<Longrightarrow> cs_get S ix s h = (got, s')
          \<Longrightarrow> got = Inr (V h) \<and> ready n s' \<and> held s' = held s"
    and get_settled: "ready n s \<Longrightarrow> settled s \<Longrightarrow> (h, k) \<in> held s \<Longrightarrow> cs_get S ix s h = (got, s')
          \<Longrightarrow> got = Inr (V h) \<and> ready n s' \<and> settled s' \<and> held s' = held s"
    and flush_ok: "ready (Suc n) s \<Longrightarrow> cs_flush S s = (Inr (), s')
          \<Longrightarrow> ready n s' \<and> settled s' \<and> held s' = held s"

end
