(* ===== verification/Local_Store.thy ===== *)
theory Local_Store
  imports Content_Store Hash_Index Palantir "HOL-Library.Multiset" "HOL-Library.List_Lexorder" "HOL-Library.Char_ord"
begin

text \<open>
  The store on the local file system: \<^verbatim>\<open>packt-lib/src/store/local.rs\<close>. The record \<open>local_store\<close>
  is the struct with the contents of its mutexes and its atomic counter; \<open>ls_dir\<close> is the directory
  \<^verbatim>\<open>packs\<close> (file names and contents). Every operation returns its result and the next state.
  The shared dedup index is passed as the function \<open>ix\<close> of its lookups; \<open>ls_indexed\<close> tells
  whether the store was given the index. The hash map of the loaded packs is an association list:
  its order stands for the arbitrary order in which the map is walked, and no theorem depends on
  it. The outcomes of the file system calls are the record \<open>pack_io\<close>.
\<close>

section \<open>Data\<close>

record pending_entry =
  pd_hash :: hash
  pd_data :: bytes
  pd_orig_length :: u32
  pd_entry_type :: entry_type
  pd_signature :: "bytes option"

record pack_metadata =
  pm_entries :: "index_entry list"
  pm_superblock :: "bytes option"

type_synonym dir = "(string \<times> bytes) list"

record local_store =
  ls_pending_chunks :: "pending_entry list"
  ls_pending_size :: u64
  ls_packs :: "(u32 \<times> pack_metadata) list"
  ls_pack_target_size :: u64
  ls_next_pack_id :: u32
  ls_indexed :: bool
  ls_dir :: dir

text \<open>
  \<open>io_write\<close>: \<open>None\<close> when the temporary file is written, else how many bytes of it are before the
  failure. \<open>io_sync\<close>: reopening and syncing it. \<open>io_rename\<close>: the outcome of each attempt.
  \<open>io_dir_sync\<close>: false when the directory could be opened but not synced.
\<close>

datatype rename_outcome = Renamed | Permission_Denied | Rename_Failed

record pack_io =
  io_write :: "nat option"
  io_sync :: bool
  io_rename :: "nat \<Rightarrow> rename_outcome"
  io_dir_sync :: bool

definition io_fine :: pack_io where
  "io_fine = \<lparr>io_write = None, io_sync = True, io_rename = (\<lambda>_. Renamed), io_dir_sync = True\<rparr>"

section \<open>Names of pack files\<close>

text \<open>
  Printing a number, and \<^verbatim>\<open>str::parse\<close> of the standard library for the unsigned numbers below
  a bound.
\<close>

definition digit_char :: "nat \<Rightarrow> char" where
  "digit_char n = ''0123456789'' ! n"

fun show_nat :: "nat \<Rightarrow> string" where
  "show_nat n = (if n < 10 then [digit_char n] else show_nat (n div 10) @ [digit_char (n mod 10)])"

declare show_nat.simps [simp del]

definition char_digit :: "char \<Rightarrow> nat option" where
  "char_digit c = (let n = of_char c :: nat in if 48 \<le> n \<and> n \<le> 57 then Some (n - 48) else None)"

fun parse_digits :: "nat \<Rightarrow> nat \<Rightarrow> string \<Rightarrow> nat option" where
  "parse_digits bound acc [] = Some acc"
| "parse_digits bound acc (c # cs) =
     (case char_digit c of
        None \<Rightarrow> None
      | Some d \<Rightarrow> let acc' = 10 * acc + d in if acc' < bound then parse_digits bound acc' cs else None)"

definition parse_uint :: "nat \<Rightarrow> string \<Rightarrow> nat option" where
  "parse_uint bound s =
     (let digits = (case s of c # cs \<Rightarrow> if c = CHR ''+'' then cs else s | [] \<Rightarrow> [])
      in if digits = [] then None else parse_digits bound 0 digits)"

definition parse_u32 :: "string \<Rightarrow> u32 option" where
  "parse_u32 s = map_option of_nat (parse_uint (2 ^ 32) s)"

definition pack_name :: "u32 \<Rightarrow> string" where
  "pack_name pack_id = show_nat (unat pack_id) @ ''.pack''"

definition tmp_name :: "u32 \<Rightarrow> string" where
  "tmp_name pack_id = show_nat (unat pack_id) @ ''.tmp''"

text \<open>The extension of a path is \<^verbatim>\<open>pack\<close>; a name that is only an extension has none.\<close>

definition has_pack_extension :: "string \<Rightarrow> bool" where
  "has_pack_extension name =
     (case strip_suffix ''.pack'' name of None \<Rightarrow> False | Some stem \<Rightarrow> stem \<noteq> [])"

section \<open>Opening\<close>

fun load_packs ::
    "libs \<Rightarrow> (string \<times> bytes) list \<Rightarrow> (u32 \<times> pack_metadata) list \<Rightarrow> u32
      \<Rightarrow> ((u32 \<times> pack_metadata) list \<times> u32) result" where
  "load_packs L [] packs next_pack_id = Inr (packs, next_pack_id)"
| "load_packs L ((name, data) # files) packs next_pack_id =
     (case Option.bind (strip_suffix ''.pack'' name) parse_u32 of
        None \<Rightarrow> load_packs L files packs next_pack_id
      | Some pid \<Rightarrow>
          (case read_pack L data of
             Inr (entries, checksum, superblock) \<Rightarrow>
               load_packs L files
                 (AList.update pid \<lparr>pm_entries = entries, pm_superblock = superblock\<rparr> packs) (pid + 1)
           | Inl (Err e) \<Rightarrow> Inl (Err (StoreCorrupted (''Pack file '' @ name @ '' is corrupted'')))
           | Inl (Panic m) \<Rightarrow> Inl (Panic m)))"

definition local_open :: "libs \<Rightarrow> dir option \<Rightarrow> local_store result" where
  "local_open L packs_dir =
     bind_res (or_err (Io ''packs directory'') packs_dir) (\<lambda>dir.
     let pack_files = sort_key fst (filter (\<lambda>(name, _). has_pack_extension name) dir)
     in bind_res (load_packs L pack_files [] 0) (\<lambda>(packs, next_pack_id).
        Inr \<lparr>ls_pending_chunks = [], ls_pending_size = 0, ls_packs = packs,
             ls_pack_target_size = 16 * 1024 * 1024, ls_next_pack_id = next_pack_id,
             ls_indexed = False, ls_dir = dir\<rparr>))"

section \<open>Flushing\<close>

definition pack_entry_of :: "pending_entry \<Rightarrow> pack_entry" where
  "pack_entry_of e = \<lparr>pe_hash = pd_hash e, pe_data = pd_data e, pe_orig_length = pd_orig_length e,
     pe_entry_type = pd_entry_type e, pe_signature = pd_signature e\<rparr>"

definition flush_prepare :: "local_store \<Rightarrow> pack_entry list \<times> local_store" where
  "flush_prepare st =
     (map pack_entry_of (ls_pending_chunks st),
      st\<lparr>ls_pending_chunks := [], ls_pending_size := 0\<rparr>)"

text \<open>The retries of the rename: it is repeated while permission is denied, ten times at most.\<close>

function rename_loop :: "(nat \<Rightarrow> rename_outcome) \<Rightarrow> nat \<Rightarrow> bool" where
  "rename_loop attempt retries =
     (case attempt retries of
        Renamed \<Rightarrow> True
      | Permission_Denied \<Rightarrow> if retries < 10 then rename_loop attempt (retries + 1) else False
      | Rename_Failed \<Rightarrow> False)"
  by pat_completeness auto
termination by (relation "measure (\<lambda>(_, retries). 10 - retries)") auto

declare rename_loop.simps [simp del]

definition flush_write ::
    "libs \<Rightarrow> pack_io \<Rightarrow> pack_entry list \<Rightarrow> u32 \<Rightarrow> dir \<Rightarrow> pack_metadata result \<times> dir" where
  "flush_write L io chunks pack_id dir =
     (if chunks = [] then (Inr \<lparr>pm_entries = [], pm_superblock = None\<rparr>, dir)
      else (case write_pack L chunks of
        Inl e \<Rightarrow> (Inl e, dir)
      | Inr pack_bytes \<Rightarrow>
          (case io_write io of
             Some k \<Rightarrow> (Inl (Err (Io ''write'')), AList.update (tmp_name pack_id) (take k pack_bytes) dir)
           | None \<Rightarrow>
               (let dir = AList.update (tmp_name pack_id) pack_bytes dir
                in if \<not> io_sync io then (Inl (Err (Io ''sync'')), dir)
                   else if \<not> rename_loop (io_rename io) 0 then (Inl (Err (Io ''rename'')), dir)
                   else (let dir = AList.update (pack_name pack_id) pack_bytes
                                     (AList.delete (tmp_name pack_id) dir)
                         in if \<not> io_dir_sync io then (Inl (Err (Io ''directory sync'')), dir)
                            else (case read_pack L pack_bytes of
                                    Inr (entries, checksum, superblock) \<Rightarrow>
                                      (Inr \<lparr>pm_entries = entries, pm_superblock = superblock\<rparr>, dir)
                                  | Inl (Err e) \<Rightarrow> (Inl (Err (StoreCorrupted
                                      ''Newly-constructed pack failed internal verification'')), dir)
                                  | Inl (Panic m) \<Rightarrow> (Inl (Panic m), dir)))))))"

text \<open>
  Lines 560 to 569, and the same lines in \<^verbatim>\<open>put\<close> and \<^verbatim>\<open>put_delta\<close>: take a pack id,
  drain what is pending, write it, load the metadata of the new pack.
\<close>

definition run_flush :: "libs \<Rightarrow> pack_io \<Rightarrow> local_store \<Rightarrow> unit result \<times> local_store" where
  "run_flush L io st =
     (let pack_id = ls_next_pack_id st;
          (chunks, st) = flush_prepare (st\<lparr>ls_next_pack_id := pack_id + 1\<rparr>);
          (written, dir) = flush_write L io chunks pack_id (ls_dir st);
          st = st\<lparr>ls_dir := dir\<rparr>
      in case written of
           Inl e \<Rightarrow> (Inl e, st)
         | Inr meta \<Rightarrow> (Inr (), st\<lparr>ls_packs := AList.update pack_id meta (ls_packs st)\<rparr>))"

definition local_flush :: "libs \<Rightarrow> pack_io \<Rightarrow> local_store \<Rightarrow> unit result \<times> local_store" where
  "local_flush L io st =
     (if ls_pending_chunks st \<noteq> [] then run_flush L io st else (Inr (), st))"

section \<open>The index\<close>

definition local_set_index :: "local_store \<Rightarrow> local_store" where
  "local_set_index st = st\<lparr>ls_indexed := True\<rparr>"

definition lookup_index :: "(hash \<Rightarrow> pack_location option) \<Rightarrow> local_store \<Rightarrow> hash \<Rightarrow> pack_location option" where
  "lookup_index ix st h = (if ls_indexed st then ix h else None)"

definition index_entries :: "local_store \<Rightarrow> (hash \<times> pack_location) list" where
  "index_entries st =
     concat (map (\<lambda>(pack_id, pack). map (\<lambda>entry. (ie_hash entry, entry_location pack_id entry))
       (pm_entries pack)) (ls_packs st))"

definition populate_index ::
    "(bytes \<Rightarrow> bytes \<Rightarrow> bytes) \<Rightarrow> local_store \<Rightarrow> hash_index \<Rightarrow> hash_index result" where
  "populate_index keyed st ix = insert_all (hi_insert keyed) ix (index_entries st)"

text \<open>\<open>de_sig\<close> is \<^verbatim>\<open>postcard::take_from_bytes\<close> on a chunk signature.\<close>

definition rebuild_similarity_index ::
    "(bytes \<Rightarrow> chunk_signature option) \<Rightarrow> local_store \<Rightarrow> palantir_index \<Rightarrow> palantir_index" where
  "rebuild_similarity_index de_sig st index =
     (let entries = concat (map (\<lambda>(_, pack). concat (map (\<lambda>entry.
            case Option.bind (ie_signature entry) de_sig of
              None \<Rightarrow> []
            | Some sg \<Rightarrow> [(ie_hash entry, sg)]) (pm_entries pack))) (ls_packs st))
      in pal_rebuild index entries)"

section \<open>Reading\<close>

definition base_and_raw :: "index_entry \<Rightarrow> hash option \<times> bool" where
  "base_and_raw entry =
     (case ie_entry_type entry of
        Delta base_hash \<Rightarrow> (Some base_hash, False)
      | Full \<Rightarrow> (None, False)
      | FullRaw \<Rightarrow> (None, True))"

definition read_file :: "dir \<Rightarrow> string \<Rightarrow> bytes result" where
  "read_file dir name = or_err (Io ''read'') (map_of dir name)"

text \<open>\<open>get\<close> is the recursive call for the base of a delta.\<close>

definition read_chunk_data ::
    "libs \<Rightarrow> (hash \<Rightarrow> bytes result) \<Rightarrow> hash \<Rightarrow> bytes \<Rightarrow> pack_location \<Rightarrow> hash option \<Rightarrow> bool
      \<Rightarrow> bytes option \<Rightarrow> bytes result" where
  "read_chunk_data L get h pack_data loc base_hash needs_raw superblock =
     bind_res
       (case base_hash of
          Some b \<Rightarrow> bind_res (get b) (\<lambda>base_chunk. read_delta_chunk L pack_data loc base_chunk)
        | None \<Rightarrow> full_chunk_data L pack_data loc needs_raw superblock) (\<lambda>stored_data.
     let actual_hash = lib_blake3 L stored_data
     in if Hash actual_hash \<noteq> h
        then Inl (Err (ChecksumMismatch (to_hex h) (to_hex (Hash actual_hash))))
        else Inr stored_data)"

definition read_from_location ::
    "libs \<Rightarrow> (hash \<Rightarrow> bytes result) \<Rightarrow> local_store \<Rightarrow> hash \<Rightarrow> pack_location \<Rightarrow> bytes result" where
  "read_from_location L get st h loc =
     (case map_of (ls_packs st) (pl_pack_id loc) of
        None \<Rightarrow> Inl (Err (ChunkNotFound (to_hex h)))
      | Some pack \<Rightarrow>
          (case List.find (\<lambda>entry. ie_offset entry = pl_offset loc \<and> ie_length entry = pl_length loc)
                  (pm_entries pack) of
             None \<Rightarrow> Inl (Err (ChunkNotFound (to_hex h)))
           | Some entry \<Rightarrow>
               (let (base_hash, needs_raw) = base_and_raw entry
                in bind_res (read_file (ls_dir st) (pack_name (pl_pack_id loc))) (\<lambda>pack_data.
                   read_chunk_data L get h pack_data loc base_hash needs_raw (pm_superblock pack)))))"

text \<open>The linear scan: the first entry of the hash in the first pack that has one.\<close>

fun scan_packs :: "(u32 \<times> pack_metadata) list \<Rightarrow> hash \<Rightarrow> (u32 \<times> pack_metadata \<times> index_entry) option" where
  "scan_packs [] h = None"
| "scan_packs ((pack_id, pack) # packs) h =
     (case List.find (\<lambda>entry. ie_hash entry = h) (pm_entries pack) of
        Some entry \<Rightarrow> Some (pack_id, pack, entry)
      | None \<Rightarrow> scan_packs packs h)"

function get_inner ::
    "libs \<Rightarrow> (hash \<Rightarrow> pack_location option) \<Rightarrow> local_store \<Rightarrow> hash \<Rightarrow> nat \<Rightarrow> bytes result" where
  "get_inner L ix st h depth =
     (if depth > 16 then Inl (Err (InvalidPackFormat ''delta chain too deep (possible cycle)''))
      else
       (let get = (\<lambda>base_hash. get_inner L ix st base_hash (depth + 1));
            linear_scan =
              (case scan_packs (ls_packs st) h of
                 None \<Rightarrow> Inl (Err (ChunkNotFound (to_hex h)))
               | Some (pack_id, pack, entry) \<Rightarrow>
                   (let (base_hash, needs_raw) = base_and_raw entry
                    in bind_res (read_file (ls_dir st) (pack_name pack_id)) (\<lambda>pack_data.
                       read_chunk_data L get h pack_data (entry_location pack_id entry)
                         base_hash needs_raw (pm_superblock pack))))
        in case List.find (\<lambda>entry. pd_hash entry = h) (ls_pending_chunks st) of
             Some entry \<Rightarrow> Inr (pd_data entry)
           | None \<Rightarrow>
               (case lookup_index ix st h of
                  None \<Rightarrow> linear_scan
                | Some loc \<Rightarrow>
                    (case read_from_location L get st h loc of
                       Inr data \<Rightarrow> Inr data
                     | Inl (Err _) \<Rightarrow> linear_scan
                     | Inl (Panic m) \<Rightarrow> Inl (Panic m)))))"
  by pat_completeness auto
termination by (relation "measure (\<lambda>(_, _, _, _, depth). 17 - depth)") auto

declare get_inner.simps [simp del]

definition local_get :: "libs \<Rightarrow> (hash \<Rightarrow> pack_location option) \<Rightarrow> local_store \<Rightarrow> hash \<Rightarrow> bytes result" where
  "local_get L ix st h = get_inner L ix st h 0"

definition local_contains :: "(hash \<Rightarrow> pack_location option) \<Rightarrow> local_store \<Rightarrow> hash \<Rightarrow> bool" where
  "local_contains ix st h =
     (if lookup_index ix st h \<noteq> None then True
      else if \<exists>entry \<in> set (ls_pending_chunks st). pd_hash entry = h then True
      else \<exists>(_, pack) \<in> set (ls_packs st). \<exists>entry \<in> set (pm_entries pack). ie_hash entry = h)"

section \<open>Writing\<close>

definition placeholder :: "local_store \<Rightarrow> u32 \<Rightarrow> pack_location" where
  "placeholder st orig_length = \<lparr>pl_pack_id = ls_next_pack_id st, pl_offset = 0, pl_length = 0,
     pl_orig_length = orig_length\<rparr>"

text \<open>
  Lines 404 to 454 of \<^verbatim>\<open>put\<close>, which are those of \<^verbatim>\<open>put_delta\<close> but for the entry they append.
\<close>

definition put_entry ::
    "libs \<Rightarrow> pack_io \<Rightarrow> (hash \<Rightarrow> pack_location option) \<Rightarrow> local_store \<Rightarrow> pending_entry
      \<Rightarrow> pack_location result \<times> local_store" where
  "put_entry L io ix st new =
     (case lookup_index ix st (pd_hash new) of
        Some loc \<Rightarrow> (Inr loc, st)
      | None \<Rightarrow>
          (case List.find (\<lambda>entry. pd_hash entry = pd_hash new) (ls_pending_chunks st) of
             Some entry \<Rightarrow> (Inr (placeholder st (pd_orig_length entry)), st)
           | None \<Rightarrow>
               (let st = st\<lparr>ls_pending_chunks := ls_pending_chunks st @ [new],
                            ls_pending_size := ls_pending_size st + of_nat (length (pd_data new))\<rparr>
                in if ls_pending_size st \<ge> ls_pack_target_size st
                   then (let (flushed, st) = run_flush L io st
                         in case flushed of
                              Inl e \<Rightarrow> (Inl e, st)
                            | Inr _ \<Rightarrow> (Inr (placeholder st (pd_orig_length new)), st))
                   else (Inr (placeholder st (pd_orig_length new)), st))))"

text \<open>The pending entry of a whole chunk.\<close>

definition full_entry :: "hash \<Rightarrow> bytes \<Rightarrow> pending_entry" where
  "full_entry h data = \<lparr>pd_hash = h, pd_data = data, pd_orig_length = of_nat (length data),
     pd_entry_type = Full, pd_signature = None\<rparr>"

definition local_put ::
    "libs \<Rightarrow> pack_io \<Rightarrow> (hash \<Rightarrow> pack_location option) \<Rightarrow> local_store \<Rightarrow> hash \<Rightarrow> bytes
      \<Rightarrow> pack_location result \<times> local_store" where
  "local_put L io ix st h data =
     put_entry L io ix st \<lparr>pd_hash = h, pd_data = data, pd_orig_length = of_nat (length data),
       pd_entry_type = Full, pd_signature = None\<rparr>"

definition local_put_delta ::
    "libs \<Rightarrow> pack_io \<Rightarrow> (hash \<Rightarrow> pack_location option) \<Rightarrow> local_store \<Rightarrow> hash \<Rightarrow> hash \<Rightarrow> bytes \<Rightarrow> u32
      \<Rightarrow> pack_location result \<times> local_store" where
  "local_put_delta L io ix st h base_hash delta_data orig_length =
     put_entry L io ix st \<lparr>pd_hash = h, pd_data = delta_data, pd_orig_length = orig_length,
       pd_entry_type = Delta base_hash, pd_signature = None\<rparr>"

fun sign_first :: "hash \<Rightarrow> bytes \<Rightarrow> pending_entry list \<Rightarrow> pending_entry list option" where
  "sign_first h sg [] = None"
| "sign_first h sg (e # es) =
     (if pd_hash e = h then Some (e\<lparr>pd_signature := Some sg\<rparr> # es)
      else map_option ((#) e) (sign_first h sg es))"

definition local_put_signature :: "local_store \<Rightarrow> hash \<Rightarrow> bytes \<Rightarrow> unit result \<times> local_store" where
  "local_put_signature st h sg =
     (case sign_first h sg (ls_pending_chunks st) of
        Some es \<Rightarrow> (Inr (), st\<lparr>ls_pending_chunks := es\<rparr>)
      | None \<Rightarrow> (Inl (Err (ChunkNotFound (to_hex h))), st))"

section \<open>What the store holds\<close>

text \<open>
  The chunks of a store and how they are held.
\<close>

definition pending_kinds :: "pending_entry list \<Rightarrow> (hash \<times> hash option) set" where
  "pending_kinds es = set (map (\<lambda>e. (pd_hash e, base_of (pd_entry_type e))) es)"

definition pack_kinds :: "pack_metadata \<Rightarrow> (hash \<times> hash option) set" where
  "pack_kinds m = set (map (\<lambda>e. (ie_hash e, base_of (ie_entry_type e))) (pm_entries m))"

definition packs_kinds :: "(u32 \<times> pack_metadata) list \<Rightarrow> (hash \<times> hash option) set" where
  "packs_kinds packs = (\<Union>p \<in> set packs. pack_kinds (snd p))"

definition kinds :: "local_store \<Rightarrow> (hash \<times> hash option) set" where
  "kinds st = pending_kinds (ls_pending_chunks st) \<union> packs_kinds (ls_packs st)"

text \<open>
  \<open>V\<close> gives the chunk each hash stands for. The invariant: every pending entry and every entry
  of a loaded pack leads to that chunk, the metadata is that of the file, a delta has a base held
  in full and is not itself held in full, and the hashes are the digests of the chunks.
\<close>

definition pending_good :: "libs \<Rightarrow> (hash \<Rightarrow> bytes) \<Rightarrow> pending_entry \<Rightarrow> bool" where
  "pending_good L V e =
     (case base_of (pd_entry_type e) of
        None \<Rightarrow> pd_data e = V (pd_hash e) \<and> length (pd_data e) < 2 ^ 32
          \<and> pd_orig_length e = of_nat (length (pd_data e))
      | Some b \<Rightarrow> z_decompress_dict (lib_zstd L) (V b) (pd_data e) (unat (pd_orig_length e))
          = Some (V (pd_hash e)))"

definition entry_good :: "libs \<Rightarrow> (hash \<Rightarrow> bytes) \<Rightarrow> bytes \<Rightarrow> bytes option \<Rightarrow> index_entry \<Rightarrow> bool" where
  "entry_good L V p sb e =
     (case base_of (ie_entry_type e) of
        None \<Rightarrow> full_chunk_data L p (entry_location 0 e) (ie_entry_type e = FullRaw) sb = Inr (V (ie_hash e))
      | Some b \<Rightarrow> read_delta_chunk L p (entry_location 0 e) (V b) = Inr (V (ie_hash e)))"

definition pack_good :: "libs \<Rightarrow> (hash \<Rightarrow> bytes) \<Rightarrow> dir \<Rightarrow> u32 \<Rightarrow> pack_metadata \<Rightarrow> bool" where
  "pack_good L V dir pack_id m \<longleftrightarrow>
     (\<exists>p ck. map_of dir (pack_name pack_id) = Some p
        \<and> read_pack L p = Inr (pm_entries m, ck, pm_superblock m)
        \<and> (\<forall>e \<in> set (pm_entries m). entry_good L V p (pm_superblock m) e))"

definition local_inv :: "libs \<Rightarrow> (hash \<Rightarrow> bytes) \<Rightarrow> local_store \<Rightarrow> bool" where
  "local_inv L V st \<longleftrightarrow>
     (\<forall>e \<in> set (ls_pending_chunks st). pending_good L V e)
   \<and> (\<forall>(i, m) \<in> set (ls_packs st). pack_good L V (ls_dir st) i m)
   \<and> kinds_ok (kinds st) \<and> kinds_ok (packs_kinds (ls_packs st))
   \<and> (\<forall>h k. (h, k) \<in> kinds st \<longrightarrow> Hash (lib_blake3 L (V h)) = h)"

text \<open>The next pack id is larger than that of every loaded pack.\<close>

definition local_fresh :: "local_store \<Rightarrow> bool" where
  "local_fresh st \<longleftrightarrow> distinct (map fst (ls_packs st))
     \<and> (\<forall>i \<in> fst ` set (ls_packs st). i < ls_next_pack_id st)"

text \<open>
  A shared index that is stale is harmless as long as no chunk it points to has, by a collision
  of the digest, the hash it is asked for.
\<close>

definition ix_sound :: "libs \<Rightarrow> (hash \<Rightarrow> bytes) \<Rightarrow> local_store \<Rightarrow> (hash \<Rightarrow> pack_location option) \<Rightarrow> bool" where
  "ix_sound L V st ix \<longleftrightarrow>
     (\<forall>h k loc d. (h, k) \<in> kinds st \<longrightarrow> lookup_index ix st h = Some loc
        \<longrightarrow> read_from_location L (\<lambda>b. Inr (V b)) st h loc = Inr d \<longrightarrow> d = V h)"

lemma fst_base_and_raw: "fst (base_and_raw e) = base_of (ie_entry_type e)"
  and snd_base_and_raw: "snd (base_and_raw e) \<longleftrightarrow> ie_entry_type e = FullRaw"
  by (auto simp: base_and_raw_def base_of_def split: entry_type.splits)

lemma base_and_raw_eq: "base_and_raw e = (base_of (ie_entry_type e), ie_entry_type e = FullRaw)"
  using fst_base_and_raw [of e] snd_base_and_raw [of e] by (cases "base_and_raw e") simp

text \<open>The pack id of a location plays no part in reading a pack.\<close>

lemma full_chunk_data_cong:
  "pl_offset l = pl_offset l' \<Longrightarrow> pl_length l = pl_length l' \<Longrightarrow> pl_orig_length l = pl_orig_length l'
    \<Longrightarrow> full_chunk_data L p l raw sb = full_chunk_data L p l' raw sb"
  by (simp add: full_chunk_data_def read_raw_chunk_def read_chunk_def Let_def cong: if_cong split: option.splits)

lemma read_delta_chunk_cong:
  "pl_offset l = pl_offset l' \<Longrightarrow> pl_length l = pl_length l' \<Longrightarrow> pl_orig_length l = pl_orig_length l'
    \<Longrightarrow> read_delta_chunk L p l b = read_delta_chunk L p l' b"
  by (simp add: read_delta_chunk_def)

text \<open>Reading where a good entry lies does not panic, whatever the original length.\<close>

lemma read_delta_chunk_no_panic: "\<not> panics (read_delta_chunk L p l b)"
  by (auto simp: read_delta_chunk_def checked_range_def Let_def or_err_def split: option.splits)

lemma full_chunk_data_no_panic:
  assumes "full_chunk_data L p l raw sb = Inr d"
    and "pl_offset l' = pl_offset l" "pl_length l' = pl_length l"
  shows "\<not> panics (full_chunk_data L p l' raw sb)"
  using assms
  by (auto simp: full_chunk_data_def read_raw_chunk_def read_chunk_def checked_range_def Let_def
      or_err_def slice_def split: option.splits if_splits)

lemma find_append_None: "List.find P xs = None \<Longrightarrow> List.find P (xs @ ys) = List.find P ys"
  by (induction xs) (auto split: if_splits)

lemma scan_packs_Some:
  "scan_packs packs h = Some (i, m, e) \<Longrightarrow>
     (i, m) \<in> set packs \<and> e \<in> set (pm_entries m) \<and> ie_hash e = h"
  by (induction packs h rule: scan_packs.induct) (auto split: option.splits dest!: find_Some_in)

lemma scan_packs_None:
  "scan_packs packs h = None \<longleftrightarrow> (\<forall>(i, m) \<in> set packs. \<forall>e \<in> set (pm_entries m). ie_hash e \<noteq> h)"
  by (induction packs h rule: scan_packs.induct)
    (auto split: option.splits dest!: find_Some_in simp: find_None_iff_all)

lemma in_kinds_pack:
  "(i, m) \<in> set (ls_packs st) \<Longrightarrow> e \<in> set (pm_entries m)
     \<Longrightarrow> (ie_hash e, base_of (ie_entry_type e)) \<in> kinds st"
  by (force simp: kinds_def packs_kinds_def pack_kinds_def)

lemma in_kinds_pending:
  "e \<in> set (ls_pending_chunks st) \<Longrightarrow> (pd_hash e, base_of (pd_entry_type e)) \<in> kinds st"
  by (force simp: kinds_def pending_kinds_def)

lemma kinds_cases:
  assumes "(h, k) \<in> kinds st"
  obtains (pending) e where "e \<in> set (ls_pending_chunks st)" "pd_hash e = h" "base_of (pd_entry_type e) = k"
  | (pack) i m e where "(i, m) \<in> set (ls_packs st)" "e \<in> set (pm_entries m)" "ie_hash e = h"
      "base_of (ie_entry_type e) = k"
  using assms by (auto simp: kinds_def pending_kinds_def packs_kinds_def pack_kinds_def)

section \<open>Reading what is held\<close>

text \<open>The entry of a pack leads to the chunk, given the bases.\<close>

lemma read_entry_good:
  assumes inv: "local_inv L V st" and m: "(i, m) \<in> set (ls_packs st)" and e: "e \<in> set (pm_entries m)"
    and get: "\<forall>b. base_of (ie_entry_type e) = Some b \<longrightarrow> get b = Inr (V b)"
  shows "bind_res (read_file (ls_dir st) (pack_name i)) (\<lambda>pack_data.
      read_chunk_data L get (ie_hash e) pack_data (entry_location i e) (base_of (ie_entry_type e))
        (ie_entry_type e = FullRaw) (pm_superblock m)) = Inr (V (ie_hash e))"
proof -
  from inv m obtain p where p: "map_of (ls_dir st) (pack_name i) = Some p"
    "entry_good L V p (pm_superblock m) e"
    using e by (fastforce simp: local_inv_def pack_good_def)
  have dig: "Hash (lib_blake3 L (V (ie_hash e))) = ie_hash e"
    using inv in_kinds_pack [OF m e] by (auto simp: local_inv_def)
  show ?thesis
  proof (cases "base_of (ie_entry_type e)")
    case None
    with p dig show ?thesis
      using full_chunk_data_cong [of "entry_location i e" "entry_location 0 e"]
      by (simp add: read_file_def read_chunk_data_def entry_good_def Let_def)
  next
    case (Some b)
    with p dig get show ?thesis
      using read_delta_chunk_cong [of "entry_location i e" "entry_location 0 e"]
      by (simp add: read_file_def read_chunk_data_def entry_good_def Let_def)
  qed
qed

text \<open>
  The index path gives the chunk or an error, provided the recursive call gives the bases or an
  error: it never panics and never gives anything else.
\<close>

lemma read_from_location_safe:
  assumes inv: "local_inv L V st" and ix: "ix_sound L V st ix" and loc: "lookup_index ix st h = Some loc" and k: "(h, k) \<in> kinds st"
    and get: "\<And>b. (b, None) \<in> kinds st \<Longrightarrow> get b = Inr (V b) \<or> (\<exists>e. get b = Inl (Err e))"
  shows "read_from_location L get st h loc = Inr (V h)
    \<or> (\<exists>e. read_from_location L get st h loc = Inl (Err e))"
proof (cases "map_of (ls_packs st) (pl_pack_id loc)")
  case None
  then show ?thesis by (simp add: read_from_location_def)
next
  case (Some m)
  then have m: "(pl_pack_id loc, m) \<in> set (ls_packs st)" by (rule map_of_SomeD)
  show ?thesis
  proof (cases "List.find (\<lambda>entry. ie_offset entry = pl_offset loc \<and> ie_length entry = pl_length loc)
        (pm_entries m)")
    case None
    with Some show ?thesis by (simp add: read_from_location_def)
  next
    case found: (Some e)
    then have e: "e \<in> set (pm_entries m)" "ie_offset e = pl_offset loc" "ie_length e = pl_length loc"
      by (auto dest: find_Some_in)
    from inv m obtain p where p: "map_of (ls_dir st) (pack_name (pl_pack_id loc)) = Some p"
      "entry_good L V p (pm_superblock m) e"
      using e(1) by (fastforce simp: local_inv_def pack_good_def)
    have base: "(b, None) \<in> kinds st" if "base_of (ie_entry_type e) = Some b" for b
      using inv in_kinds_pack [OF m e(1)] that by (auto simp: local_inv_def kinds_ok_def)
    have rd: "read_from_location L g st h loc = read_chunk_data L g h p loc
        (base_of (ie_entry_type e)) (ie_entry_type e = FullRaw) (pm_superblock m)" for g
      using Some found p(1) by (simp add: read_from_location_def base_and_raw_eq read_file_def)
    have np: "\<not> panics (read_from_location L (\<lambda>b. Inr (V b)) st h loc)"
    proof (cases "base_of (ie_entry_type e)")
      case None
      with p(2) have "full_chunk_data L p (entry_location 0 e) (ie_entry_type e = FullRaw)
          (pm_superblock m) = Inr (V (ie_hash e))" by (simp add: entry_good_def)
      from full_chunk_data_no_panic [OF this, of loc] e None show ?thesis
        by (cases "full_chunk_data L p loc (ie_entry_type e = FullRaw) (pm_superblock m)")
          (auto simp: rd read_chunk_data_def Let_def panics_def)
    next
      case (Some b)
      then show ?thesis using read_delta_chunk_no_panic [of L p loc "V b"]
        by (cases "read_delta_chunk L p loc (V b)") (auto simp: rd read_chunk_data_def Let_def panics_def)
    qed
    have "read_from_location L get st h loc = read_from_location L (\<lambda>b. Inr (V b)) st h loc
        \<or> (\<exists>x. read_from_location L get st h loc = Inl (Err x))"
      using get base by (cases "base_of (ie_entry_type e)") (fastforce simp: rd read_chunk_data_def)+
    moreover have "read_from_location L (\<lambda>b. Inr (V b)) st h loc = Inr (V h)
        \<or> (\<exists>x. read_from_location L (\<lambda>b. Inr (V b)) st h loc = Inl (Err x))"
      using ix loc k np unfolding ix_sound_def panics_def
      by (cases "read_from_location L (\<lambda>b. Inr (V b)) st h loc") (auto split: failure.splits)
    ultimately show ?thesis by metis
  qed
qed

text \<open>A chunk held in full is read at every depth the code allows.\<close>

lemma find_pending_full:
  assumes inv: "local_inv L V st" and k: "(h, None) \<in> kinds st"
    and f: "List.find (\<lambda>e. pd_hash e = h) (ls_pending_chunks st) = Some e"
  shows "pd_data e = V h"
proof -
  from f have e: "e \<in> set (ls_pending_chunks st)" "pd_hash e = h" by (auto dest: find_Some_in)
  have "base_of (pd_entry_type e) = None"
    using inv in_kinds_pending [OF e(1)] k e(2)
    by (cases "base_of (pd_entry_type e)") (auto simp: local_inv_def kinds_ok_def)
  with inv e show ?thesis by (auto simp: local_inv_def pending_good_def)
qed

lemma scan_reads:
  assumes inv: "local_inv L V st" and k: "(h, k) \<in> kinds st"
    and np: "List.find (\<lambda>e. pd_hash e = h) (ls_pending_chunks st) = None"
    and get: "\<And>b. (h, Some b) \<in> kinds st \<Longrightarrow> get b = Inr (V b)"
  shows "(case scan_packs (ls_packs st) h of
      None \<Rightarrow> Inl (Err (ChunkNotFound (to_hex h)))
    | Some (i, m, e) \<Rightarrow>
        (let (base_hash, needs_raw) = base_and_raw e
         in bind_res (read_file (ls_dir st) (pack_name i)) (\<lambda>pack_data.
            read_chunk_data L get h pack_data (entry_location i e) base_hash needs_raw
              (pm_superblock m)))) = Inr (V h)"
proof (cases "scan_packs (ls_packs st) h")
  case None
  from k show ?thesis
  proof (cases rule: kinds_cases)
    case (pending e)
    with np show ?thesis by (auto simp: find_None_iff_all)
  next
    case (pack i m e)
    with None show ?thesis by (fastforce simp: scan_packs_None)
  qed
next
  case (Some r)
  obtain i m e where r: "r = (i, m, e)" by (cases r)
  from scan_packs_Some [of "ls_packs st" h i m e] Some r
  have m: "(i, m) \<in> set (ls_packs st)" "e \<in> set (pm_entries m)" "ie_hash e = h" by auto
  have "\<forall>b. base_of (ie_entry_type e) = Some b \<longrightarrow> get b = Inr (V b)"
    using get in_kinds_pack [OF m(1,2)] m(3) by auto
  from read_entry_good [OF inv m(1,2) this] m(3) show ?thesis
    by (simp add: Some r base_and_raw_eq)
qed

lemma get_inner_pending:
  "depth \<le> 16 \<Longrightarrow> List.find (\<lambda>e. pd_hash e = h) (ls_pending_chunks st) = Some e
    \<Longrightarrow> get_inner L ix st h depth = Inr (pd_data e)"
  by (simp add: get_inner.simps Let_def)

lemma get_inner_reads:
  assumes inv: "local_inv L V st" and ix: "ix_sound L V st ix" and d: "depth \<le> 16"
    and k: "(h, k) \<in> kinds st"
    and np: "k \<noteq> None \<Longrightarrow> List.find (\<lambda>e. pd_hash e = h) (ls_pending_chunks st) = None"
    and get: "\<And>b. (b, None) \<in> kinds st \<Longrightarrow> get_inner L ix st b (Suc depth) = Inr (V b)
        \<or> (k = None \<and> (\<exists>e. get_inner L ix st b (Suc depth) = Inl (Err e)))"
  shows "get_inner L ix st h depth = Inr (V h)"
proof (cases "List.find (\<lambda>e. pd_hash e = h) (ls_pending_chunks st)")
  case (Some e)
  with np k have "k = None" by (cases k) auto
  with k find_pending_full [OF inv _ Some] get_inner_pending [OF d Some] show ?thesis by simp
next
  case None
  have ko: "kinds_ok (kinds st)" using inv by (simp add: local_inv_def)
  let ?get = "\<lambda>b. get_inner L ix st b (Suc depth)"
  let ?scan = "case scan_packs (ls_packs st) h of
      None \<Rightarrow> Inl (Err (ChunkNotFound (to_hex h)))
    | Some (i, m, e) \<Rightarrow>
        (let (base_hash, needs_raw) = base_and_raw e
         in bind_res (read_file (ls_dir st) (pack_name i)) (\<lambda>pack_data.
            read_chunk_data L ?get h pack_data (entry_location i e) base_hash needs_raw
              (pm_superblock m)))"
  have scan: "?scan = Inr (V h)"
  proof (rule scan_reads [OF inv k None])
    fix b assume b: "(h, Some b) \<in> kinds st"
    then have "(b, None) \<in> kinds st" "k \<noteq> None" using ko k by (cases k; auto simp: kinds_ok_def)+
    with get [of b] show "?get b = Inr (V b)" by simp
  qed
  have unfold: "get_inner L ix st h depth = (case lookup_index ix st h of
        None \<Rightarrow> ?scan
      | Some loc \<Rightarrow> (case read_from_location L ?get st h loc of
                      Inr data \<Rightarrow> Inr data
                    | Inl (Err _) \<Rightarrow> ?scan
                    | Inl (Panic m) \<Rightarrow> Inl (Panic m)))"
    using d None by (subst get_inner.simps) (simp add: Let_def)
  show ?thesis
  proof (cases "lookup_index ix st h")
    case None
    with unfold scan show ?thesis by simp
  next
    case (Some loc)
    have "read_from_location L ?get st h loc = Inr (V h)
        \<or> (\<exists>e. read_from_location L ?get st h loc = Inl (Err e))"
      by (rule read_from_location_safe [OF inv ix Some k]) (use get in blast)
    with unfold scan Some show ?thesis by auto
  qed
qed

lemma get_inner_full:
  assumes inv: "local_inv L V st" and ix: "ix_sound L V st ix"
  shows "(h, None) \<in> kinds st \<Longrightarrow> depth \<le> 16 \<Longrightarrow> get_inner L ix st h depth = Inr (V h)"
proof (induction "16 - depth" arbitrary: h depth)
  case 0
  then have "get_inner L ix st b (Suc depth) = Inl (Err (InvalidPackFormat
      ''delta chain too deep (possible cycle)''))" for b
    by (simp add: get_inner.simps)
  with get_inner_reads [OF inv ix "0.prems"(2,1)] show ?case by simp
next
  case (Suc n)
  then have "get_inner L ix st b (Suc depth) = Inr (V b)" if "(b, None) \<in> kinds st" for b
    using that by simp
  with get_inner_reads [OF inv ix Suc.prems(2,1)] show ?case by simp
qed

lemma get_inner_delta:
  assumes inv: "local_inv L V st" and ix: "ix_sound L V st ix" and k: "(h, Some b) \<in> kinds st"
    and np: "\<forall>e \<in> set (ls_pending_chunks st). pd_hash e \<noteq> h" and d: "depth \<le> 15"
  shows "get_inner L ix st h depth = Inr (V h)"
proof -
  have "List.find (\<lambda>e. pd_hash e = h) (ls_pending_chunks st) = None"
    using np by (simp add: find_None_iff_all)
  with get_inner_reads [OF inv ix _ k] get_inner_full [OF inv ix] d show ?thesis by simp
qed

section \<open>Names of files\<close>

lemma char_digit_of: "n < 10 \<Longrightarrow> char_digit (digit_char n) = Some n"
proof -
  assume "n < 10"
  then have "n \<in> {0, 1, 2, 3, 4, 5, 6, 7, 8, 9}" by (simp, arith)
  then show ?thesis by (elim insertE emptyE) (simp_all add: char_digit_def digit_char_def)
qed

lemma digit_char_not_plus: "n < 10 \<Longrightarrow> digit_char n \<noteq> CHR ''+''"
  using char_digit_of [of n] by (auto simp: char_digit_def)

lemma parse_digits_append:
  "parse_digits B acc (xs @ ys) = Option.bind (parse_digits B acc xs) (\<lambda>a. parse_digits B a ys)"
  by (induction B acc xs rule: parse_digits.induct) (auto split: option.splits simp: Let_def)

lemma parse_show_nat: "n < B \<Longrightarrow> parse_digits B 0 (show_nat n) = Some n"
proof (induction n rule: show_nat.induct)
  case (1 n)
  show ?case
  proof (cases "n < 10")
    case True
    with 1 show ?thesis by (subst show_nat.simps) (simp add: char_digit_of)
  next
    case False
    with 1 show ?thesis
      by (subst show_nat.simps) (simp add: parse_digits_append char_digit_of Let_def)
  qed
qed

lemma show_nat_first: "\<exists>d cs. show_nat n = digit_char d # cs \<and> d < 10"
proof (induction n rule: show_nat.induct)
  case (1 n)
  show ?case
  proof (cases "n < 10")
    case True
    then show ?thesis by (subst show_nat.simps) auto
  next
    case False
    with 1 obtain d cs where "show_nat (n div 10) = digit_char d # cs" "d < 10" by auto
    with False show ?thesis by (subst show_nat.simps) auto
  qed
qed

lemma parse_uint_show: "n < B \<Longrightarrow> parse_uint B (show_nat n) = Some n"
proof -
  obtain d cs where "show_nat n = digit_char d # cs" "d < 10"
    using show_nat_first by blast
  with digit_char_not_plus [of d] have "parse_uint B (show_nat n) = parse_digits B 0 (show_nat n)"
    by (simp add: parse_uint_def)
  then show "n < B \<Longrightarrow> parse_uint B (show_nat n) = Some n" using parse_show_nat [of n B] by simp
qed

lemma parse_u32_show: "parse_u32 (show_nat (unat i)) = Some i"
  using parse_uint_show [OF unat_less_u32 [of i]] by (simp add: parse_u32_def)

lemma pack_name_inj [simp]: "pack_name i = pack_name j \<longleftrightarrow> i = j"
proof
  assume "pack_name i = pack_name j"
  then have "show_nat (unat i) = show_nat (unat j)" by (simp add: pack_name_def)
  then show "i = j" using parse_u32_show [of i] parse_u32_show [of j] by (metis option.inject)
qed simp

lemma pack_name_not_tmp [simp]: "pack_name i \<noteq> tmp_name j" "tmp_name j \<noteq> pack_name i"
proof -
  have "last (pack_name i) \<noteq> last (tmp_name j)" by (simp add: pack_name_def tmp_name_def)
  then show "pack_name i \<noteq> tmp_name j" "tmp_name j \<noteq> pack_name i" by metis+
qed

lemma pack_name_parts [simp]:
  "has_pack_extension (pack_name i)"
  "Option.bind (strip_suffix ''.pack'' (pack_name i)) parse_u32 = Some i"
proof -
  obtain d cs where "show_nat (unat i) = digit_char d # cs" using show_nat_first by blast
  then show "has_pack_extension (pack_name i)"
    using strip_suffix_append [of "''.pack''" "show_nat (unat i)"]
    by (simp add: has_pack_extension_def pack_name_def)
  show "Option.bind (strip_suffix ''.pack'' (pack_name i)) parse_u32 = Some i"
    using strip_suffix_append [of "''.pack''" "show_nat (unat i)"] parse_u32_show [of i]
    by (simp add: pack_name_def)
qed

lemma tmp_name_no_pack [simp]: "\<not> has_pack_extension (tmp_name i)"
proof -
  have "tmp_name i \<noteq> stem @ ''.pack''" for stem
  proof
    assume "tmp_name i = stem @ ''.pack''"
    then have "last (tmp_name i) = CHR ''k''" by simp
    then show False by (simp add: tmp_name_def)
  qed
  then show ?thesis by (auto simp: has_pack_extension_def strip_suffix_Some split: option.splits)
qed

section \<open>Flushing keeps what is held\<close>

lemma read_raw_then_delta:
  "read_raw_chunk p loc = Inr d \<Longrightarrow> read_delta_chunk L p loc b
     = or_err (Serialization ''zstd dict decompress'')
         (z_decompress_dict (lib_zstd L) b d (unat (pl_orig_length loc)))"
  by (auto simp: read_raw_chunk_def read_delta_chunk_def res_simps)

lemma stored_entry_good:
  assumes st: "stored_as L p sb (pack_entry_of e) ie" and g: "pending_good L V e"
  shows "entry_good L V p sb ie \<and> ie_hash ie = pd_hash e
    \<and> base_of (ie_entry_type ie) = base_of (pd_entry_type e)"
proof (cases "pd_entry_type e")
  case (Delta b)
  with st g read_raw_then_delta [of p "entry_location 0 ie" "pd_data e" L "V b"] show ?thesis
    by (simp add: stored_as_def pack_entry_of_def base_of_def pending_good_def entry_good_def)
next
  case Full
  with st g show ?thesis
    by (auto simp: stored_as_def pack_entry_of_def base_of_def pending_good_def entry_good_def
        unat_of_nat_u32)
next
  case FullRaw
  with st g show ?thesis
    by (auto simp: stored_as_def pack_entry_of_def base_of_def pending_good_def entry_good_def
        unat_of_nat_u32)
qed

lemma list_all2_setD2: "list_all2 P xs ys \<Longrightarrow> y \<in> set ys \<Longrightarrow> \<exists>x \<in> set xs. P x y"
  by (induction rule: list_all2_induct) auto

lemma list_all2_setD1: "list_all2 P xs ys \<Longrightarrow> x \<in> set xs \<Longrightarrow> \<exists>y \<in> set ys. P x y"
  by (induction rule: list_all2_induct) auto

text \<open>The sizes at which nothing wraps: below 4 GiB of pending data, and a pack below 4 GiB.\<close>

definition flush_fits :: "libs \<Rightarrow> pending_entry list \<Rightarrow> bool" where
  "flush_fits L es \<longleftrightarrow> sum_list (map (\<lambda>e. length (pd_data e)) es) < 2 ^ 32
     \<and> (\<forall>p. write_pack L (map pack_entry_of es) = Inr p \<longrightarrow> length p < 2 ^ 32)"

lemma flushed_pack_good:
  assumes ok: "libs_ok L" and fits: "flush_fits L es"
    and w: "write_pack L (map pack_entry_of es) = Inr p"
    and good: "\<forall>e \<in> set es. pending_good L V e"
  shows "\<exists>ies ck sb. read_pack L p = Inr (ies, ck, sb) \<and> (\<forall>ie \<in> set ies. entry_good L V p sb ie)
    \<and> pack_kinds \<lparr>pm_entries = ies, pm_superblock = sb\<rparr> = pending_kinds es"
proof -
  have "sum_list (map (\<lambda>e. length (pe_data e)) (map pack_entry_of es)) < 2 ^ 32"
    using fits by (simp add: flush_fits_def pack_entry_of_def comp_def)
  from write_pack_readable [OF ok w _ this] fits w obtain ies ck sb where
    r: "read_pack L p = Inr (ies, ck, sb)"
    and all: "list_all2 (stored_as L p sb) (pack_order (map pack_entry_of es)) ies"
    by (auto simp: flush_fits_def)
  have bwd: "\<exists>e \<in> set es. entry_good L V p sb ie \<and> ie_hash ie = pd_hash e
      \<and> base_of (ie_entry_type ie) = base_of (pd_entry_type e)" if "ie \<in> set ies" for ie
    using list_all2_setD2 [OF all that] stored_entry_good good by fastforce
  have fwd: "\<exists>ie \<in> set ies. ie_hash ie = pd_hash e
      \<and> base_of (ie_entry_type ie) = base_of (pd_entry_type e)" if "e \<in> set es" for e
    using list_all2_setD1 [OF all, of "pack_entry_of e"] stored_entry_good good that by fastforce
  have "pack_kinds \<lparr>pm_entries = ies, pm_superblock = sb\<rparr> = pending_kinds es"
    using bwd fwd by (auto simp: pack_kinds_def pending_kinds_def image_iff) metis+
  with r bwd show ?thesis by blast
qed

lemma flush_write_others:
  assumes "flush_write L io chunks i dir = (r, dir')" and "j \<noteq> i"
  shows "map_of dir' (pack_name j) = map_of dir (pack_name j)"
  using assms
  by (auto simp: flush_write_def Let_def update_conv' delete_conv' split: if_splits sum.splits
      option.splits failure.splits)

lemma flush_write_ok:
  assumes "flush_write L io chunks i dir = (Inr m, dir')" and "chunks \<noteq> []"
  shows "\<exists>p ck. write_pack L chunks = Inr p
    \<and> read_pack L p = Inr (pm_entries m, ck, pm_superblock m)
    \<and> dir' = AList.update (pack_name i) p (AList.delete (tmp_name i) (AList.update (tmp_name i) p dir))"
  using assms
  by (auto simp: flush_write_def Let_def split: if_splits sum.splits option.splits failure.splits)

lemma flush_write_fine:
  assumes "write_pack L chunks = Inr p" and "read_pack L p = Inr (ies, ck, sb)"
  shows "\<exists>m dir'. flush_write L io_fine chunks i dir = (Inr m, dir')"
  using assms by (simp add: flush_write_def io_fine_def Let_def rename_loop.simps)

lemma run_flush_cases:
  assumes "run_flush L io st = (r, st')"
  obtains (failed) e dir' where "r = Inl e"
      "flush_write L io (map pack_entry_of (ls_pending_chunks st)) (ls_next_pack_id st) (ls_dir st) = (Inl e, dir')"
      "st' = st\<lparr>ls_next_pack_id := ls_next_pack_id st + 1, ls_pending_chunks := [],
         ls_pending_size := 0, ls_dir := dir'\<rparr>"
    | (flushed) m dir' where "r = Inr ()"
      "flush_write L io (map pack_entry_of (ls_pending_chunks st)) (ls_next_pack_id st) (ls_dir st) = (Inr m, dir')"
      "st' = st\<lparr>ls_next_pack_id := ls_next_pack_id st + 1, ls_pending_chunks := [],
         ls_pending_size := 0, ls_dir := dir',
         ls_packs := AList.update (ls_next_pack_id st) m (ls_packs st)\<rparr>"
  using assms
  by (cases "flush_write L io (map pack_entry_of (ls_pending_chunks st)) (ls_next_pack_id st) (ls_dir st)")
    (auto simp: run_flush_def flush_prepare_def Let_def split: sum.splits)

lemma update_new: "k \<notin> fst ` set al \<Longrightarrow> AList.update k v al = al @ [(k, v)]"
  by (induction al) auto

lemma less_next_word: "i < (j :: u32) \<Longrightarrow> j + 1 \<noteq> 0 \<Longrightarrow> i < j + 1"
  using unatSuc [of j] by (simp add: word_less_nat_alt add.commute)

lemma next_word_greater: "(j :: u32) + 1 \<noteq> 0 \<Longrightarrow> j < j + 1"
  using unatSuc [of j] by (simp add: word_less_nat_alt add.commute)

lemma fresh_pack_update:
  assumes "local_fresh st"
  shows "AList.update (ls_next_pack_id st) m (ls_packs st) = ls_packs st @ [(ls_next_pack_id st, m)]"
  by (rule update_new) (use assms in \<open>auto simp: local_fresh_def\<close>)

lemma pack_good_other_dir:
  "pack_good L V dir i m \<Longrightarrow> map_of dir' (pack_name i) = map_of dir (pack_name i)
     \<Longrightarrow> pack_good L V dir' i m"
  by (simp add: pack_good_def)

lemma packs_kinds_simps [simp]:
  "packs_kinds [] = {}" "packs_kinds (p # ps) = pack_kinds (snd p) \<union> packs_kinds ps"
  "packs_kinds (ps @ qs) = packs_kinds ps \<union> packs_kinds qs"
  by (auto simp: packs_kinds_def)

lemma pending_kinds_simps [simp]:
  "pending_kinds [] = {}"
  "pending_kinds (es @ [e]) = insert (pd_hash e, base_of (pd_entry_type e)) (pending_kinds es)"
  by (auto simp: pending_kinds_def)

lemma run_flush_spec:
  assumes inv: "local_inv L V st" and fresh: "local_fresh st" and ok: "libs_ok L"
    and fits: "flush_fits L (ls_pending_chunks st)" and ne: "ls_pending_chunks st \<noteq> []"
    and room: "ls_next_pack_id st + 1 \<noteq> 0" and run: "run_flush L io st = (r, st')"
  shows "local_inv L V st' \<and> local_fresh st' \<and> ls_pending_chunks st' = []
    \<and> ls_next_pack_id st' = ls_next_pack_id st + 1 \<and> ls_indexed st' = ls_indexed st
    \<and> kinds st' = (if is_ok r then kinds st else packs_kinds (ls_packs st))"
proof -
  let ?i = "ls_next_pack_id st"
  have neq: "j \<noteq> ?i" if "(j, m) \<in> set (ls_packs st)" for j m
    using fresh that by (force simp: local_fresh_def)
  from run show ?thesis
  proof (cases rule: run_flush_cases)
    case (failed e dir')
    have "pack_good L V dir' j m" if "(j, m) \<in> set (ls_packs st)" for j m
      using inv that flush_write_others [OF failed(2) neq [OF that]] pack_good_other_dir
      by (fastforce simp: local_inv_def)
    with inv fresh room failed show ?thesis
      by (auto simp: local_inv_def local_fresh_def kinds_def less_next_word)
  next
    case (flushed m dir')
    from flush_write_ok [OF flushed(2)] ne obtain p ck where
      w: "write_pack L (map pack_entry_of (ls_pending_chunks st)) = Inr p"
      and rd: "read_pack L p = Inr (pm_entries m, ck, pm_superblock m)"
      and dir: "map_of dir' (pack_name ?i) = Some p"
      by (auto simp: update_conv')
    have "\<forall>e \<in> set (ls_pending_chunks st). pending_good L V e" using inv by (simp add: local_inv_def)
    from flushed_pack_good [OF ok fits w this] rd
    have good: "\<forall>ie \<in> set (pm_entries m). entry_good L V p (pm_superblock m) ie"
      and k: "pack_kinds m = pending_kinds (ls_pending_chunks st)" by (auto simp: pack_kinds_def)
    have new: "pack_good L V dir' ?i m" using dir rd good by (auto simp: pack_good_def)
    have old: "pack_good L V dir' j m'" if "(j, m') \<in> set (ls_packs st)" for j m'
      using inv that flush_write_others [OF flushed(2) neq [OF that]] pack_good_other_dir
      by (fastforce simp: local_inv_def)
    have ks: "kinds st' = kinds st" "packs_kinds (ls_packs st') = kinds st"
      using flushed(3) k by (auto simp: kinds_def fresh_pack_update [OF fresh])
    have "local_inv L V st'"
      using inv new old unfolding local_inv_def ks
      by (auto simp: flushed(3) fresh_pack_update [OF fresh])
    moreover have "local_fresh st'"
      using fresh room by (auto simp: flushed(3) fresh_pack_update [OF fresh] local_fresh_def
          less_next_word next_word_greater)
    ultimately show ?thesis using ks flushed by simp
  qed
qed

section \<open>Putting keeps what is held\<close>

definition appends :: "(hash \<Rightarrow> pack_location option) \<Rightarrow> local_store \<Rightarrow> hash \<Rightarrow> bool" where
  "appends ix st h \<longleftrightarrow> lookup_index ix st h = None \<and> (\<forall>e \<in> set (ls_pending_chunks st). pd_hash e \<noteq> h)"

definition append_entry :: "local_store \<Rightarrow> pending_entry \<Rightarrow> local_store" where
  "append_entry st new = st\<lparr>ls_pending_chunks := ls_pending_chunks st @ [new],
     ls_pending_size := ls_pending_size st + of_nat (length (pd_data new))\<rparr>"

lemma put_entry_cases:
  "put_entry L io ix st new =
     (if appends ix st (pd_hash new) then
        (let st1 = append_entry st new
         in if ls_pending_size st1 \<ge> ls_pack_target_size st1
            then (case run_flush L io st1 of
                    (Inl e, st2) \<Rightarrow> (Inl e, st2)
                  | (Inr _, st2) \<Rightarrow> (Inr (placeholder st2 (pd_orig_length new)), st2))
            else (Inr (placeholder st1 (pd_orig_length new)), st1))
      else (case lookup_index ix st (pd_hash new) of
              Some loc \<Rightarrow> (Inr loc, st)
            | None \<Rightarrow> (Inr (placeholder st (pd_orig_length
                (the (List.find (\<lambda>e. pd_hash e = pd_hash new) (ls_pending_chunks st))))), st)))"
proof (cases "List.find (\<lambda>e. pd_hash e = pd_hash new) (ls_pending_chunks st)")
  case None
  then have "appends ix st (pd_hash new) \<longleftrightarrow> lookup_index ix st (pd_hash new) = None"
    by (auto simp: appends_def find_None_iff_all)
  with None show ?thesis
    by (simp add: put_entry_def append_entry_def Let_def split: option.splits prod.splits sum.splits)
next
  case (Some e)
  then have "\<not> appends ix st (pd_hash new)" by (auto simp: appends_def dest: find_Some_in)
  with Some show ?thesis by (simp add: put_entry_def split: option.splits)
qed

lemma append_entry_simps [simp]:
  "ls_pending_chunks (append_entry st new) = ls_pending_chunks st @ [new]"
  "ls_packs (append_entry st new) = ls_packs st" "ls_dir (append_entry st new) = ls_dir st"
  "ls_next_pack_id (append_entry st new) = ls_next_pack_id st"
  "ls_indexed (append_entry st new) = ls_indexed st"
  "kinds (append_entry st new) = insert (pd_hash new, base_of (pd_entry_type new)) (kinds st)"
  "local_fresh (append_entry st new) = local_fresh st"
  by (auto simp: append_entry_def kinds_def local_fresh_def)

lemma append_entry_inv:
  assumes "local_inv L V st" and "pending_good L V new"
    and "Hash (lib_blake3 L (V (pd_hash new))) = pd_hash new"
    and "kinds_ok (insert (pd_hash new, base_of (pd_entry_type new)) (kinds st))"
  shows "local_inv L V (append_entry st new)"
  using assms unfolding local_inv_def by auto

lemma put_entry_spec:
  assumes inv: "local_inv L V st" and fresh: "local_fresh st" and ok: "libs_ok L"
    and good: "pending_good L V new" "Hash (lib_blake3 L (V (pd_hash new))) = pd_hash new"
    and fits: "flush_fits L (ls_pending_chunks st @ [new])" and room: "ls_next_pack_id st + 1 \<noteq> 0"
    and kind: "appends ix st (pd_hash new)
      \<Longrightarrow> kinds_ok (insert (pd_hash new, base_of (pd_entry_type new)) (kinds st))"
    and put: "put_entry L io ix st new = (r, st')"
  shows "local_inv L V st' \<and> local_fresh st' \<and> ls_indexed st' = ls_indexed st
    \<and> (ls_next_pack_id st' = ls_next_pack_id st \<or> ls_next_pack_id st' = ls_next_pack_id st + 1)
    \<and> (set (ls_pending_chunks st') \<subseteq> insert new (set (ls_pending_chunks st)))
    \<and> kinds st' = (if is_ok r
         then (if appends ix st (pd_hash new)
               then insert (pd_hash new, base_of (pd_entry_type new)) (kinds st) else kinds st)
         else packs_kinds (ls_packs st))"
proof (cases "appends ix st (pd_hash new)")
  case False
  with put inv fresh show ?thesis
    by (auto simp: put_entry_cases split: option.splits)
next
  case True
  let ?st = "append_entry st new"
  have inv1: "local_inv L V ?st" by (rule append_entry_inv [OF inv good kind [OF True]])
  show ?thesis
  proof (cases "ls_pending_size ?st \<ge> ls_pack_target_size ?st")
    case False
    with True put inv1 fresh show ?thesis by (auto simp: put_entry_cases Let_def)
  next
    case big: True
    obtain r2 st2 where run: "run_flush L io ?st = (r2, st2)" by force
    have "local_inv L V st2 \<and> local_fresh st2 \<and> ls_pending_chunks st2 = []
      \<and> ls_next_pack_id st2 = ls_next_pack_id ?st + 1 \<and> ls_indexed st2 = ls_indexed ?st
      \<and> kinds st2 = (if is_ok r2 then kinds ?st else packs_kinds (ls_packs ?st))"
      by (rule run_flush_spec [OF inv1 _ ok _ _ _ run]) (use fresh fits room in simp_all)
    moreover have "st' = st2 \<and> is_ok r = is_ok r2"
      using put True big run by (cases r2) (auto simp: put_entry_cases Let_def)
    ultimately show ?thesis using True by auto
  qed
qed

lemma sign_first_spec:
  "sign_first h sg es = Some es' \<Longrightarrow> pending_kinds es' = pending_kinds es
    \<and> map pd_data es' = map pd_data es \<and> (\<forall>e' \<in> set es'. \<exists>e \<in> set es. \<exists>s. e' = e\<lparr>pd_signature := s\<rparr>)"
proof (induction h sg es arbitrary: es' rule: sign_first.induct)
  case (2 h sg e es)
  show ?case
  proof (cases "pd_hash e = h")
    case True
    with 2 have "es' = e\<lparr>pd_signature := Some sg\<rparr> # es" by simp
    then show ?thesis by (auto simp: pending_kinds_def) (metis pending_entry.surjective pending_entry.update_convs(5))+
  next
    case False
    with 2 obtain es1 where "sign_first h sg es = Some es1" "es' = e # es1" by auto
    with 2 False show ?thesis
      by (auto simp: pending_kinds_def) (metis pending_entry.surjective pending_entry.update_convs(5))+
  qed
qed simp

lemma pending_good_signature [simp]: "pending_good L V (e\<lparr>pd_signature := s\<rparr>) = pending_good L V e"
  by (simp add: pending_good_def split: option.splits)

lemma put_signature_spec:
  assumes inv: "local_inv L V st" and put: "local_put_signature st h sg = (r, st')"
  shows "local_inv L V st' \<and> kinds st' = kinds st \<and> ls_packs st' = ls_packs st
    \<and> ls_next_pack_id st' = ls_next_pack_id st \<and> ls_indexed st' = ls_indexed st
    \<and> ls_dir st' = ls_dir st \<and> map pd_data (ls_pending_chunks st') = map pd_data (ls_pending_chunks st)"
proof (cases "sign_first h sg (ls_pending_chunks st)")
  case None
  with assms show ?thesis by (auto simp: local_put_signature_def)
next
  case (Some es)
  with put have st': "st' = st\<lparr>ls_pending_chunks := es\<rparr>" by (auto simp: local_put_signature_def)
  note sp = sign_first_spec [OF Some]
  have "kinds st' = kinds st" using sp st' by (simp add: kinds_def)
  moreover have "\<forall>e \<in> set es. pending_good L V e" using sp inv by (fastforce simp: local_inv_def)
  ultimately show ?thesis using inv sp unfolding local_inv_def st' by auto
qed

section \<open>A store that is ready for more\<close>

text \<open>
  The size counter is the size of what is pending, below the target of 16 MiB; \<open>n\<close> more packs can
  get an id. A pack of less than 32 MiB of data is assumed to stay below 4 GiB.
\<close>

definition pending_bytes :: "local_store \<Rightarrow> nat" where
  "pending_bytes st = sum_list (map (\<lambda>e. length (pd_data e)) (ls_pending_chunks st))"

lemma pending_bytes_alt: "pending_bytes st = sum_list (map length (map pd_data (ls_pending_chunks st)))"
  by (simp add: pending_bytes_def comp_def)

definition local_sizes :: "local_store \<Rightarrow> bool" where
  "local_sizes st \<longleftrightarrow> ls_pack_target_size st = 16 * 1024 * 1024
     \<and> unat (ls_pending_size st) = pending_bytes st \<and> pending_bytes st < 16 * 1024 * 1024"

definition packs_fit :: "libs \<Rightarrow> bool" where
  "packs_fit L \<longleftrightarrow> (\<forall>es p. sum_list (map (\<lambda>e. length (pe_data e)) es) < 2 ^ 25
     \<longrightarrow> write_pack L es = Inr p \<longrightarrow> length p < 2 ^ 32)"

definition local_ready :: "libs \<Rightarrow> (hash \<Rightarrow> bytes) \<Rightarrow> nat \<Rightarrow> local_store \<Rightarrow> bool" where
  "local_ready L V n st \<longleftrightarrow> local_inv L V st \<and> local_fresh st \<and> local_sizes st
     \<and> unat (ls_next_pack_id st) + n < 2 ^ 32"

lemma packs_fit_flush:
  assumes "packs_fit L" and "sum_list (map (\<lambda>e. length (pd_data e)) es) < 2 ^ 25"
  shows "flush_fits L es"
proof -
  have "sum_list (map (\<lambda>e. length (pe_data e)) (map pack_entry_of es)) < 2 ^ 25"
    using assms(2) by (simp add: pack_entry_of_def comp_def)
  then have "\<forall>p. write_pack L (map pack_entry_of es) = Inr p \<longrightarrow> length p < 2 ^ 32"
    using assms(1) unfolding packs_fit_def by blast
  with assms(2) show ?thesis by (simp add: flush_fits_def)
qed

lemma room_next: "unat (i :: u32) + Suc n < 2 ^ 32 \<Longrightarrow> i + 1 \<noteq> 0 \<and> unat (i + 1) = Suc (unat i)"
proof -
  assume a: "unat i + Suc n < 2 ^ 32"
  then have "unat i + unat (1 :: u32) < 2 ^ LENGTH(32)" by simp
  then have "unat (i + 1) = Suc (unat i)" by (simp add: unat_add_lem [THEN iffD1])
  then show ?thesis by (metis unsigned_0 nat.distinct(1))
qed

lemma append_sizes:
  assumes "local_sizes st" and "length (pd_data new) \<le> 2 ^ 20"
  shows "unat (ls_pending_size (append_entry st new)) = pending_bytes (append_entry st new)
    \<and> pending_bytes (append_entry st new) < 2 ^ 25"
proof -
  have b: "pending_bytes (append_entry st new) = pending_bytes st + length (pd_data new)"
    by (simp add: pending_bytes_def)
  have "unat (of_nat (length (pd_data new)) :: u64) = length (pd_data new)"
    using assms(2) by (simp add: unat_of_nat_u64)
  then have "unat (ls_pending_size (append_entry st new)) = pending_bytes st + length (pd_data new)"
    using assms by (simp add: append_entry_def local_sizes_def unat_word_ariths)
  with b show ?thesis using assms by (simp add: local_sizes_def)
qed

lemma run_flush_sizes:
  assumes "run_flush L io st = (r, st')" and "ls_pack_target_size st = 16 * 1024 * 1024"
  shows "local_sizes st'"
  using assms(1) by (cases rule: run_flush_cases) (use assms(2) in \<open>auto simp: local_sizes_def pending_bytes_def\<close>)

lemma put_sizes:
  assumes sz: "local_sizes st" and small: "length (pd_data new) \<le> 2 ^ 20"
    and put: "put_entry L io ix st new = (r, st')"
  shows "local_sizes st'"
proof (cases "appends ix st (pd_hash new)")
  case False
  with put sz show ?thesis by (auto simp: put_entry_cases split: option.splits)
next
  case True
  let ?st = "append_entry st new"
  have tgt: "ls_pack_target_size ?st = 16 * 1024 * 1024"
    using sz by (simp add: append_entry_def local_sizes_def)
  show ?thesis
  proof (cases "ls_pending_size ?st \<ge> ls_pack_target_size ?st")
    case False
    then have "unat (ls_pending_size ?st) < 16 * 1024 * 1024"
      using tgt by (simp add: word_less_nat_alt not_le)
    with append_sizes [OF sz small] tgt have "local_sizes ?st" by (simp add: local_sizes_def)
    with True False put show ?thesis by (auto simp: put_entry_cases Let_def)
  next
    case big: True
    obtain r2 st2 where run: "run_flush L io ?st = (r2, st2)" by force
    from run_flush_sizes [OF run tgt] put True big run show ?thesis
      by (cases r2) (auto simp: put_entry_cases Let_def)
  qed
qed

lemma put_ready:
  assumes ok: "libs_ok L" "packs_fit L" and rdy: "local_ready L V (Suc n) st"
    and good: "pending_good L V new" "Hash (lib_blake3 L (V (pd_hash new))) = pd_hash new"
    and small: "length (pd_data new) \<le> 2 ^ 20"
    and kind: "appends ix st (pd_hash new)
      \<Longrightarrow> kinds_ok (insert (pd_hash new, base_of (pd_entry_type new)) (kinds st))"
    and put: "put_entry L io ix st new = (r, st')"
  shows "local_ready L V n st' \<and> ls_indexed st' = ls_indexed st
    \<and> (set (ls_pending_chunks st') \<subseteq> insert new (set (ls_pending_chunks st)))
    \<and> kinds st' = (if is_ok r
         then (if appends ix st (pd_hash new)
               then insert (pd_hash new, base_of (pd_entry_type new)) (kinds st) else kinds st)
         else packs_kinds (ls_packs st))"
proof -
  have sz: "local_sizes st" using rdy by (simp add: local_ready_def)
  have room: "ls_next_pack_id st + 1 \<noteq> 0" "unat (ls_next_pack_id st + 1) = Suc (unat (ls_next_pack_id st))"
    using room_next [of "ls_next_pack_id st" n] rdy by (simp_all add: local_ready_def)
  have fits: "flush_fits L (ls_pending_chunks st @ [new])"
    using packs_fit_flush [OF ok(2)] append_sizes [OF sz small] by (simp add: pending_bytes_def)
  show ?thesis
    using put_entry_spec [OF _ _ ok(1) good fits room(1) kind put] put_sizes [OF sz small put]
      rdy room(2) by (auto simp: local_ready_def)
qed

lemma flush_ready:
  assumes ok: "libs_ok L" "packs_fit L" and rdy: "local_ready L V (Suc n) st"
    and fl: "local_flush L io st = (r, st')"
  shows "local_ready L V n st' \<and> ls_indexed st' = ls_indexed st \<and> ls_pending_chunks st' = []
    \<and> kinds st' = (if is_ok r then kinds st else packs_kinds (ls_packs st))"
proof (cases "ls_pending_chunks st = []")
  case True
  with fl rdy show ?thesis by (auto simp: local_flush_def local_ready_def)
next
  case False
  with fl have run: "run_flush L io st = (r, st')" by (simp add: local_flush_def)
  have sz: "local_sizes st" using rdy by (simp add: local_ready_def)
  have room: "ls_next_pack_id st + 1 \<noteq> 0" "unat (ls_next_pack_id st + 1) = Suc (unat (ls_next_pack_id st))"
    using room_next [of "ls_next_pack_id st" n] rdy by (simp_all add: local_ready_def)
  have "flush_fits L (ls_pending_chunks st)"
    by (rule packs_fit_flush [OF ok(2)]) (use sz in \<open>simp add: local_sizes_def pending_bytes_def\<close>)
  with run_flush_spec [OF _ _ ok(1) this False room(1) run] run_flush_sizes [OF run] rdy room(2) sz
  show ?thesis by (auto simp: local_ready_def local_sizes_def)
qed

lemma sign_ready:
  assumes "local_ready L V n st" and put: "local_put_signature st h sg = (r, st')"
  shows "local_ready L V n st' \<and> kinds st' = kinds st \<and> ls_indexed st' = ls_indexed st
    \<and> ls_packs st' = ls_packs st"
proof -
  have "ls_pending_size st' = ls_pending_size st \<and> ls_pack_target_size st' = ls_pack_target_size st"
    using put by (auto simp: local_put_signature_def split: option.splits)
  moreover have "pending_bytes st' = pending_bytes st"
    using put_signature_spec [OF _ put, of L V] assms(1)
    by (simp add: pending_bytes_alt local_ready_def)
  ultimately show ?thesis
    using put_signature_spec [OF _ put, of L V] assms(1)
    by (auto simp: local_ready_def local_fresh_def local_sizes_def)
qed

section \<open>Reopening\<close>

text \<open>Every file of the directory that is taken for a pack is one of the loaded packs.\<close>

definition dir_complete :: "local_store \<Rightarrow> bool" where
  "dir_complete st \<longleftrightarrow> distinct (map fst (ls_dir st))
     \<and> (\<forall>name \<in> fst ` set (ls_dir st). has_pack_extension name \<longrightarrow>
          (case Option.bind (strip_suffix ''.pack'' name) parse_u32 of
             None \<Rightarrow> True
           | Some i \<Rightarrow> name = pack_name i \<and> i \<in> fst ` set (ls_packs st)))"

text \<open>The packs the files of a directory hold.\<close>

definition files_packs :: "libs \<Rightarrow> (string \<times> bytes) list \<Rightarrow> (u32 \<times> pack_metadata) set" where
  "files_packs L files = {(i, m) |i m. \<exists>data ck. (pack_name i, data) \<in> set files
     \<and> read_pack L data = Inr (pm_entries m, ck, pm_superblock m)}"

lemma files_packs_Nil: "files_packs L [] = {}"
  by (simp add: files_packs_def)

lemma files_packs_skip:
  "(\<And>i. name \<noteq> pack_name i) \<Longrightarrow> files_packs L ((name, data) # files) = files_packs L files"
  unfolding files_packs_def by (metis (no_types, lifting) list.set_intros(2) prod.inject set_ConsD)

lemma files_packs_Cons:
  assumes rd: "read_pack L data = Inr (ies, ck, sb)"
  shows "files_packs L ((pack_name i, data) # files)
     = insert (i, \<lparr>pm_entries = ies, pm_superblock = sb\<rparr>) (files_packs L files)"
proof -
  have m: "m = \<lparr>pm_entries = ies, pm_superblock = sb\<rparr> \<longleftrightarrow> pm_entries m = ies \<and> pm_superblock m = sb" for m
    by (cases m) simp
  have "(\<exists>d ck'. (pack_name j, d) \<in> set ((pack_name i, data) # files)
        \<and> read_pack L d = Inr (pm_entries m, ck', pm_superblock m))
    \<longleftrightarrow> (j = i \<and> m = \<lparr>pm_entries = ies, pm_superblock = sb\<rparr>)
      \<or> (\<exists>d ck'. (pack_name j, d) \<in> set files \<and> read_pack L d = Inr (pm_entries m, ck', pm_superblock m))"
    for j m
    unfolding m using rd by auto
  then show ?thesis unfolding files_packs_def by auto
qed

lemma load_packs_spec:
  "(\<forall>(name, data) \<in> set files. case Option.bind (strip_suffix ''.pack'' name) parse_u32 of
      None \<Rightarrow> True | Some i \<Rightarrow> name = pack_name i \<and> is_ok (read_pack L data))
   \<Longrightarrow> distinct (map fst files)
   \<Longrightarrow> (\<forall>i \<in> fst ` set packs. pack_name i \<notin> fst ` set files)
   \<Longrightarrow> \<exists>packs' n'. load_packs L files packs n = Inr (packs', n')
     \<and> set packs' = set packs \<union> files_packs L files"
proof (induction L files packs n rule: load_packs.induct)
  case (1 L packs n)
  then show ?case by (simp add: files_packs_Nil)
next
  case (2 L name data files packs n)
  show ?case
  proof (cases "Option.bind (strip_suffix ''.pack'' name) parse_u32")
    case None
    then have "name \<noteq> pack_name i" for i by (metis option.distinct(1) pack_name_parts(2))
    with 2 None show ?thesis by (simp add: files_packs_skip)
  next
    case (Some i)
    with "2.prems"(1) obtain ies ck sb where name: "name = pack_name i"
      and rd: "read_pack L data = Inr (ies, ck, sb)" by (auto simp: is_ok_iff)
    let ?m = "\<lparr>pm_entries = ies, pm_superblock = sb\<rparr>"
    have new: "AList.update i ?m packs = packs @ [(i, ?m)]"
      by (rule update_new) (use "2.prems"(3) name in auto)
    have pre: "\<forall>j \<in> fst ` set (packs @ [(i, ?m)]). pack_name j \<notin> fst ` set files"
      using "2.prems"(2,3) name by auto
    have "\<exists>packs' n'. load_packs L files (packs @ [(i, ?m)]) (i + 1) = Inr (packs', n')
       \<and> set packs' = set (packs @ [(i, ?m)]) \<union> files_packs L files"
      using "2.IH"(2) [OF Some rd refl refl] "2.prems"(1,2) pre unfolding new by auto
    with Some rd new name show ?thesis by (auto simp: files_packs_Cons [OF rd])
  qed
qed

lemma reopen_spec:
  assumes inv: "local_inv L V st" and fresh: "local_fresh st" and dir: "dir_complete st"
  shows "\<exists>st'. local_open L (Some (ls_dir st)) = Inr st' \<and> local_inv L V st'
    \<and> kinds st' = packs_kinds (ls_packs st) \<and> ls_pending_chunks st' = [] \<and> ls_dir st' = ls_dir st
    \<and> set (ls_packs st') = set (ls_packs st)"
proof -
  let ?files = "sort_key fst (filter (\<lambda>(name, _). has_pack_extension name) (ls_dir st))"
  have good: "\<exists>p ck. map_of (ls_dir st) (pack_name i) = Some p
      \<and> read_pack L p = Inr (pm_entries m, ck, pm_superblock m)" if "(i, m) \<in> set (ls_packs st)" for i m
    using inv that by (fastforce simp: local_inv_def pack_good_def)
  have dist: "distinct (map fst (ls_dir st))" using dir by (simp add: dir_complete_def)
  have files: "(name, data) \<in> set ?files \<longleftrightarrow> (name, data) \<in> set (ls_dir st) \<and> has_pack_extension name"
    for name data by auto
  have one: "case Option.bind (strip_suffix ''.pack'' name) parse_u32 of
      None \<Rightarrow> True | Some i \<Rightarrow> name = pack_name i \<and> is_ok (read_pack L data)"
    if "(name, data) \<in> set ?files" for name data
  proof (cases "Option.bind (strip_suffix ''.pack'' name) parse_u32")
    case (Some i)
    have "name \<in> fst ` set (ls_dir st)" "has_pack_extension name" using that by force+
    with dir Some have "name = pack_name i" "i \<in> fst ` set (ls_packs st)"
      by (force simp: dir_complete_def)+
    moreover have "map_of (ls_dir st) name = Some data" using dist that by simp
    ultimately show ?thesis using good Some by fastforce
  qed simp
  have "distinct (map fst ?files)"
  proof -
    have "distinct (map fst (filter (\<lambda>(name, _). has_pack_extension name) (ls_dir st)))"
      using dist by (rule distinct_map_filter)
    then show ?thesis by (simp add: distinct_map del: set_filter)
  qed
  moreover have "\<forall>(name, data) \<in> set ?files. case Option.bind (strip_suffix ''.pack'' name) parse_u32 of
      None \<Rightarrow> True | Some i \<Rightarrow> name = pack_name i \<and> is_ok (read_pack L data)"
    using one by blast
  ultimately have "\<exists>packs n. load_packs L ?files [] 0 = Inr (packs, n)
      \<and> set packs = set [] \<union> files_packs L ?files"
    by (intro load_packs_spec) simp_all
  then obtain packs n where
    l: "load_packs L ?files [] 0 = Inr (packs, n)" and set: "set packs = files_packs L ?files"
    by auto
  have same: "set packs = set (ls_packs st)"
  proof (intro set_eqI iffI; clarify)
    fix i m assume "(i, m) \<in> set (ls_packs st)"
    from good [OF this] obtain p ck where "map_of (ls_dir st) (pack_name i) = Some p"
      "read_pack L p = Inr (pm_entries m, ck, pm_superblock m)" by blast
    then have "(pack_name i, p) \<in> set ?files" by (simp add: files map_of_SomeD)
    with \<open>read_pack L p = _\<close> show "(i, m) \<in> set packs"
      unfolding set files_packs_def by blast
  next
    fix i m assume "(i, m) \<in> set packs"
    then obtain data ck where d: "(pack_name i, data) \<in> set (ls_dir st)"
      "read_pack L data = Inr (pm_entries m, ck, pm_superblock m)"
      unfolding set files_packs_def using files by blast
    then have "pack_name i \<in> fst ` set (ls_dir st)" by force
    with dir have "i \<in> fst ` set (ls_packs st)"
      by (force simp: dir_complete_def simp del: pack_name_inj)
    then obtain m' where m': "(i, m') \<in> set (ls_packs st)" by auto
    have "map_of (ls_dir st) (pack_name i) = Some data" using dist d(1) by simp
    with good [OF m'] d(2) have "m' = m" by (cases m; cases m') auto
    with m' show "(i, m) \<in> set (ls_packs st)" by simp
  qed
  let ?st = "\<lparr>ls_pending_chunks = [], ls_pending_size = 0, ls_packs = packs,
      ls_pack_target_size = 16 * 1024 * 1024, ls_next_pack_id = n, ls_indexed = False,
      ls_dir = ls_dir st\<rparr>"
  have "local_open L (Some (ls_dir st)) = Inr ?st" by (simp add: local_open_def l)
  moreover have k: "packs_kinds packs = packs_kinds (ls_packs st)" by (simp add: packs_kinds_def same)
  moreover have "local_inv L V ?st"
    using inv k same unfolding local_inv_def kinds_def by auto
  ultimately show ?thesis using same by (auto simp: kinds_def)
qed

lemma dir_complete_flush:
  assumes c: "dir_complete st" and ne: "ls_pending_chunks st \<noteq> []"
    and run: "run_flush L io st = (Inr (), st')"
  shows "dir_complete st'"
  using run
proof (cases rule: run_flush_cases)
  case (flushed m dir')
  let ?i = "ls_next_pack_id st"
  from flush_write_ok [OF flushed(2)] ne obtain p where dir': "dir' = AList.update (pack_name ?i) p
      (AList.delete (tmp_name ?i) (AList.update (tmp_name ?i) p (ls_dir st)))" by auto
  have "distinct (map fst (ls_dir st))" using c by (simp add: dir_complete_def)
  then have "distinct (map fst dir')"
    unfolding dir' by (intro distinct_update distinct_delete)
  moreover have names: "fst ` set dir' \<subseteq> insert (pack_name ?i) (fst ` set (ls_dir st))"
  proof
    fix name assume "name \<in> fst ` set dir'"
    then have "name \<in> set (map fst dir')" by simp
    then show "name \<in> insert (pack_name ?i) (fst ` set (ls_dir st))"
      unfolding dir' by (auto simp: update_keys delete_keys split: if_splits)
  qed
  moreover have ids: "fst ` set (ls_packs st') = insert ?i (fst ` set (ls_packs st))"
    by (simp add: flushed(3) dom_update)
  moreover have "case Option.bind (strip_suffix ''.pack'' name) parse_u32 of
      None \<Rightarrow> True | Some i \<Rightarrow> name = pack_name i \<and> i \<in> fst ` set (ls_packs st')"
    if "name \<in> fst ` set dir'" "has_pack_extension name" for name
  proof (cases "name = pack_name ?i")
    case True
    then show ?thesis using ids by simp
  next
    case False
    with that names have "name \<in> fst ` set (ls_dir st)" by blast
    with c that(2) have "case Option.bind (strip_suffix ''.pack'' name) parse_u32 of
      None \<Rightarrow> True | Some i \<Rightarrow> name = pack_name i \<and> i \<in> fst ` set (ls_packs st)"
      unfolding dir_complete_def by blast
    then show ?thesis unfolding ids by (simp split: option.splits)
  qed
  moreover have "ls_dir st' = dir'" by (simp add: flushed(3))
  ultimately show ?thesis unfolding dir_complete_def by blast
qed simp

section \<open>The contract of the trait\<close>

definition local_ops :: "libs \<Rightarrow> pack_io \<Rightarrow> local_store content_store" where
  "local_ops L io = \<lparr>cs_put = local_put L io, cs_put_delta = local_put_delta L io,
     cs_get = (\<lambda>ix st h. (local_get L ix st h, st)), cs_contains = local_contains, cs_put_signature = local_put_signature,
     cs_flush = local_flush L io\<rparr>"

definition local_serving :: "libs \<Rightarrow> (hash \<Rightarrow> bytes) \<Rightarrow> nat \<Rightarrow> local_store \<Rightarrow> bool" where
  "local_serving L V n st \<longleftrightarrow> libs_ok L \<and> packs_fit L \<and> local_ready L V n st \<and> ls_indexed st
     \<and> (\<forall>h \<in> fst ` kinds st. genuine L V h)"

definition local_settled :: "local_store \<Rightarrow> bool" where
  "local_settled st \<longleftrightarrow> ls_pending_chunks st = []"

lemma read_chunk_data_digest: "read_chunk_data L get h p loc b raw sb = Inr d \<Longrightarrow> Hash (lib_blake3 L d) = h"
  by (auto simp: read_chunk_data_def res_simps Let_def split: if_splits)

lemma read_from_location_digest: "read_from_location L get st h loc = Inr d \<Longrightarrow> Hash (lib_blake3 L d) = h"
  by (auto simp: read_from_location_def res_simps Let_def split: option.splits prod.splits
      dest!: read_chunk_data_digest)

lemma genuine_ix_sound: "(\<forall>h \<in> fst ` kinds st. genuine L V h) \<Longrightarrow> ix_sound L V st ix"
  unfolding ix_sound_def genuine_def by (metis fst_conv image_eqI read_from_location_digest)

lemma serving_get_full:
  "local_serving L V n st \<Longrightarrow> (h, None) \<in> kinds st \<Longrightarrow> local_get L ix st h = Inr (V h)"
  using genuine_ix_sound [of st L V ix] get_inner_full [of L V st ix h 0]
  by (simp add: local_get_def local_serving_def local_ready_def)

lemma serving_get_settled:
  assumes "local_serving L V n st" and "local_settled st" and k: "(h, k) \<in> kinds st"
  shows "local_get L ix st h = Inr (V h)"
proof (cases k)
  case None
  with assms show ?thesis by (simp add: serving_get_full)
next
  case (Some b)
  with assms genuine_ix_sound [of st L V ix] get_inner_delta [of L V st ix h b 0] show ?thesis
    by (simp add: local_get_def local_serving_def local_ready_def local_settled_def)
qed

lemma serving_kinds: "local_serving L V n st \<Longrightarrow> kinds_ok (kinds st)"
  by (simp add: local_serving_def local_ready_def local_inv_def)

lemma new_appends:
  "\<forall>k. (h, k) \<notin> kinds st \<Longrightarrow> ix h = None \<Longrightarrow> appends ix st h"
  by (force simp: appends_def lookup_index_def kinds_def pending_kinds_def)

lemma serving_put_entry:
  assumes rdy: "local_serving L V (Suc n) st" and ix: "ix (pd_hash new) = None"
    and new: "\<forall>k. (pd_hash new, k) \<notin> kinds st" and g: "genuine L V (pd_hash new)"
    and good: "pending_good L V new" and small: "length (pd_data new) \<le> 2 ^ 20"
    and base: "\<forall>b. base_of (pd_entry_type new) = Some b \<longrightarrow> (b, None) \<in> kinds st"
    and put: "put_entry L io ix st new = (Inr loc, st')"
  shows "local_serving L V n st' \<and> kinds st' = insert (pd_hash new, base_of (pd_entry_type new)) (kinds st)"
proof -
  have ap: "appends ix st (pd_hash new)" by (rule new_appends [of "pd_hash new"]) (use new ix in simp_all)
  have "kinds_ok (insert (pd_hash new, base_of (pd_entry_type new)) (kinds st))"
    using serving_kinds [OF rdy] new base kinds_ok_insert_full kinds_ok_insert_delta
    by (cases "base_of (pd_entry_type new)") auto
  moreover have "Hash (lib_blake3 L (V (pd_hash new))) = pd_hash new" using g by (simp add: genuine_def)
  ultimately show ?thesis
    using put_ready [OF _ _ _ good _ small _ put, of n] rdy ap g by (auto simp: local_serving_def)
qed

lemma put_entry_known:
  "lookup_index ix st (pd_hash new) = Some loc \<Longrightarrow> put_entry L io ix st new = (Inr loc, st)"
  by (simp add: put_entry_def)

interpretation local_contract: content_store_contract "local_ops L io" L V kinds "local_serving L V" local_settled
  for L io V
proof (unfold_locales, goal_cases)
  case (1 n s) then show ?case by (rule serving_kinds)
next
  case (2 n s) then show ?case by (simp add: local_serving_def local_ready_def)
next
  case (3 n s h k) then show ?case by (force simp: local_serving_def)
next
  case (4 n s ix h loc d) then show ?case
    by (simp add: local_ops_def local_put_def put_entry_known local_serving_def lookup_index_def)
next
  case (5 n s ix h loc b d l) then show ?case
    by (simp add: local_ops_def local_put_delta_def put_entry_known local_serving_def lookup_index_def)
next
  case (6 n s ix h loc s')
  let ?new = "\<lparr>pd_hash = h, pd_data = V h, pd_orig_length = of_nat (length (V h)),
      pd_entry_type = Full, pd_signature = None\<rparr>"
  from 6 serving_put_entry [of L V n s ix ?new io loc s'] show ?case
    by (simp add: local_ops_def local_put_def pending_good_def base_of_def)
next
  case (7 n s ix h b d l loc s')
  let ?new = "\<lparr>pd_hash = h, pd_data = d, pd_orig_length = l,
      pd_entry_type = Delta b, pd_signature = None\<rparr>"
  from 7 serving_put_entry [of L V n s ix ?new io loc s'] show ?case
    by (simp add: local_ops_def local_put_delta_def pending_good_def base_of_def)
next
  case (8 n s h sg r s')
  then show ?case using sign_ready [of L V n s h sg r s'] by (simp add: local_ops_def local_serving_def)
next
  case (9 n s h ix r s') then show ?case by (auto simp: local_ops_def serving_get_full)
next
  case (10 n s h k ix r s') then show ?case by (auto simp: local_ops_def serving_get_settled)
next
  case (11 n s s')
  then show ?case using flush_ready [of L V n s io "Inr ()" s']
    by (auto simp: local_ops_def local_serving_def local_settled_def)
qed

section \<open>A concrete store\<close>

text \<open>
  For the witnesses: the libraries of \<open>Pack\<close> with a digest under which two chunks have hashes of
  their own.
\<close>

definition chunk_a :: bytes where "chunk_a = [5, 5, 5]"
definition chunk_b :: bytes where "chunk_b = [6, 7]"
definition hash_a :: hash where "hash_a = Hash (replicate 32 1)"
definition hash_b :: hash where "hash_b = Hash (replicate 32 2)"

definition demo_libs :: libs where
  "demo_libs = toy_libs\<lparr>lib_blake3 := (\<lambda>d. if d = chunk_a then replicate 32 1
     else if d = chunk_b then replicate 32 2 else replicate 32 0)\<rparr>"

definition demo_value :: "hash \<Rightarrow> bytes" where
  "demo_value h = (if h = hash_b then chunk_b else chunk_a)"

definition empty_store :: "dir \<Rightarrow> local_store" where
  "empty_store dir = \<lparr>ls_pending_chunks = [], ls_pending_size = 0, ls_packs = [],
     ls_pack_target_size = 16 * 1024 * 1024, ls_next_pack_id = 0, ls_indexed = True, ls_dir = dir\<rparr>"

lemma hashes_distinct [simp]: "hash_a \<noteq> hash_b" "hash_b \<noteq> hash_a" "chunk_a \<noteq> chunk_b" "chunk_b \<noteq> chunk_a"
  by (simp_all add: hash_a_def hash_b_def chunk_a_def chunk_b_def numeral_eq_Suc)

lemma demo_genuine: "genuine demo_libs demo_value hash_a" "genuine demo_libs demo_value hash_b"
  by (auto simp: genuine_def demo_libs_def demo_value_def hash_a_def hash_b_def numeral_eq_Suc)

lemma demo_libs_ok: "libs_ok demo_libs"
  using toy_libs_ok by (simp add: libs_ok_def demo_libs_def)

lemma length_enc_entry: "small_entry e \<Longrightarrow> length (enc_entry e) \<le> 1000"
  by (auto simp: small_entry_def enc_entry_def enc_blob_def enc_type_def split: entry_type.splits option.splits)

lemma length_toy_ser: "toy_ser es = Some ib \<Longrightarrow> length ib \<le> 1 + 1000 * 256"
proof -
  have "list_all small_entry es \<Longrightarrow> length (concat (map enc_entry es)) \<le> 1000 * length es"
    by (induction es) (auto dest: length_enc_entry)
  then show "toy_ser es = Some ib \<Longrightarrow> length ib \<le> 1 + 1000 * 256"
    by (fastforce simp: toy_ser_def split: if_splits)
qed

lemma toy_packs_fit:
  assumes toy: "lib_zstd L = toy_zstd" "lib_ser_index L = toy_ser" and dig: "\<forall>d. length (lib_blake3 L d) = 32"
  shows "packs_fit L"
  unfolding packs_fit_def
proof (intro allI impI)
  fix es p assume sum: "sum_list (map (\<lambda>e. length (pe_data e)) es) < 2 ^ 25"
    and w: "write_pack L es = Inr p"
  define ds where "ds = filter (\<lambda>e. \<not> is_full_input e) es"
  from write_pack_layout [OF w] obtain zs sbc where zs: "map fst zs = filter is_full_input es"
    and st: "\<forall>(e, c, t) \<in> set zs. store_full L e = Inr (c, t)"
    and sbc: "write_superblock L (stored_bytes zs) = Inr sbc"
    and seal: "seal_pack L (sbc @ concat (map pe_data ds))
      (full_index 0 zs @ delta_index (length sbc) ds) = Inr p"
    by (auto simp: Let_def ds_def)
  have "length (toy_compress d) \<le> length d + 10" for d by (simp add: toy_compress_def)
  then have "length sbc \<le> length (stored_bytes zs) + 10"
    using sbc by (auto simp: write_superblock_def toy toy_zstd_def split: if_splits)
  also have "length (stored_bytes zs) \<le> 2 ^ 25"
    using sum_length_stored [OF st] sum_list_filter_le [of "\<lambda>e. length (pe_data e)" is_full_input es] sum
    by (simp add: zs)
  finally have a: "length sbc \<le> 2 ^ 25 + 10" by simp
  have b: "length (concat (map pe_data ds)) \<le> 2 ^ 25"
    using sum_list_filter_le [of "\<lambda>e. length (pe_data e)" "\<lambda>e. \<not> is_full_input e" es] sum
    by (simp add: ds_def length_concat comp_def)
  from seal obtain ib where "toy_ser (full_index 0 zs @ delta_index (length sbc) ds) = Some ib"
    and "length p = length sbc + length (concat (map pe_data ds)) + length ib + 52"
    using dig by (auto simp: seal_pack_def Let_def res_simps toy split: if_splits)
  with length_toy_ser a b show "length p < 2 ^ 32" by fastforce
qed

lemma demo_packs_fit: "packs_fit demo_libs"
  by (rule toy_packs_fit) (simp_all add: demo_libs_def toy_libs_def)

lemma demo_serving:
  "n < 2 ^ 32 \<Longrightarrow> local_serving demo_libs demo_value n (empty_store dir)"
  by (simp add: local_serving_def demo_libs_ok demo_packs_fit local_ready_def local_inv_def kinds_def
      empty_store_def kinds_ok_def local_fresh_def local_sizes_def pending_bytes_def)

text \<open>One chunk put, then flushed.\<close>

definition demo_put :: "local_store" where
  "demo_put = snd (local_put demo_libs io_fine (\<lambda>_. None) (empty_store []) hash_a chunk_a)"

lemma demo_put_ok:
  "local_put demo_libs io_fine (\<lambda>_. None) (empty_store []) hash_a chunk_a
     = (Inr \<lparr>pl_pack_id = 0, pl_offset = 0, pl_length = 0, pl_orig_length = 3\<rparr>, demo_put)"
  by (simp add: demo_put_def local_put_def put_entry_def lookup_index_def empty_store_def chunk_a_def
      placeholder_def Let_def)

lemma demo_put_pending:
  "ls_pending_chunks demo_put = [\<lparr>pd_hash = hash_a, pd_data = chunk_a, pd_orig_length = 3,
     pd_entry_type = Full, pd_signature = None\<rparr>]"
  "ls_packs demo_put = []" "ls_dir demo_put = []" "ls_next_pack_id demo_put = 0"
  by (simp_all add: demo_put_def local_put_def put_entry_def lookup_index_def empty_store_def chunk_a_def
      placeholder_def Let_def)

lemma demo_write: "\<exists>p. write_pack demo_libs (map pack_entry_of (ls_pending_chunks demo_put)) = Inr p"
  by (simp add: demo_put_pending pack_entry_of_def write_pack_def store_full_def chunk_a_def hash_a_def
      is_high_entropy_def demo_libs_def toy_libs_def toy_zstd_def toy_compress_def write_superblock_def
      seal_pack_def toy_ser_def small_entry_def Let_def)

lemma demo_flush_ok: "\<exists>st. local_flush demo_libs io_fine demo_put = (Inr (), st)"
proof -
  obtain p where p: "write_pack demo_libs (map pack_entry_of (ls_pending_chunks demo_put)) = Inr p"
    using demo_write by blast
  have "sum_list (map (\<lambda>e. length (pe_data e)) (map pack_entry_of (ls_pending_chunks demo_put))) < 2 ^ 25"
    by (simp add: demo_put_pending pack_entry_of_def chunk_a_def)
  with demo_packs_fit p have "length p < 2 ^ 32" unfolding packs_fit_def by blast
  with write_pack_readable [OF demo_libs_ok p] obtain ies ck sb where
    "read_pack demo_libs p = Inr (ies, ck, sb)"
    by (auto simp: demo_put_pending pack_entry_of_def chunk_a_def)
  from flush_write_fine [OF p this] obtain m dir where
    "flush_write demo_libs io_fine (map pack_entry_of (ls_pending_chunks demo_put)) 0 [] = (Inr m, dir)"
    by blast
  then show ?thesis
    by (simp add: local_flush_def run_flush_def flush_prepare_def Let_def demo_put_pending)
qed

lemma demo_put_serving:
  "local_serving demo_libs demo_value (Suc 4) demo_put \<and> (hash_a, None) \<in> kinds demo_put"
proof -
  have v: "demo_value hash_a = chunk_a" by (simp add: demo_value_def)
  have k: "\<forall>k. (hash_a, k) \<notin> kinds (empty_store [])" by (simp add: kinds_def empty_store_def)
  have rdy: "local_serving demo_libs demo_value (Suc 5) (empty_store [])" by (rule demo_serving) simp
  have put: "cs_put (local_ops demo_libs io_fine) (\<lambda>_. None) (empty_store []) hash_a (demo_value hash_a)
      = (Inr \<lparr>pl_pack_id = 0, pl_offset = 0, pl_length = 0, pl_orig_length = 3\<rparr>, demo_put)"
    using demo_put_ok v by (simp add: local_ops_def)
  show ?thesis
    using local_contract.put_new [OF rdy refl k demo_genuine(1) _ put] by (simp add: v chunk_a_def)
qed

section \<open>Properties\<close>

text \<open>
  C12. What the store hands out is what was asked for: whatever the state of the store, of the
  files on disk and of the shared index, data that \<open>get\<close> returns for a hash that is not pending has
  that hash as its digest.
\<close>

theorem local_get_verified:
  assumes "local_get L ix st h = Inr d" and "\<forall>e \<in> set (ls_pending_chunks st). pd_hash e \<noteq> h"
  shows "Hash (lib_blake3 L d) = h"
proof -
  have "List.find (\<lambda>e. pd_hash e = h) (ls_pending_chunks st) = None"
    using assms(2) by (simp add: find_None_iff_all)
  with assms(1) show ?thesis
    unfolding local_get_def
    by (subst (asm) get_inner.simps)
      (auto simp: Let_def res_simps split: option.splits sum.splits failure.splits prod.splits
        dest!: read_chunk_data_digest read_from_location_digest)
qed

theorem local_get_verified_witness:
  "\<exists>st. local_get demo_libs (\<lambda>_. None) st hash_a = Inr chunk_a
     \<and> (\<forall>e \<in> set (ls_pending_chunks st). pd_hash e \<noteq> hash_a)
     \<and> Hash (lib_blake3 demo_libs chunk_a) = hash_a"
proof -
  obtain st where st: "local_flush demo_libs io_fine demo_put = (Inr (), st)"
    using demo_flush_ok by blast
  have v: "demo_value hash_a = chunk_a" by (simp add: demo_value_def)
  note d = demo_put_serving
  have "cs_flush (local_ops demo_libs io_fine) demo_put = (Inr (), st)"
    using st by (simp add: local_ops_def)
  with d local_contract.flush_ok have "local_serving demo_libs demo_value 4 st \<and> local_settled st
      \<and> (hash_a, None) \<in> kinds st" by metis
  then have g: "local_get demo_libs (\<lambda>_. None) st hash_a = Inr chunk_a"
    and e: "\<forall>e \<in> set (ls_pending_chunks st). pd_hash e \<noteq> hash_a"
    using serving_get_full v by (metis, simp add: local_settled_def)
  from local_get_verified [OF g e] g e show ?thesis by blast
qed

text \<open>
  C13. A chunk that has been put can be read at once, and putting it disturbs nothing: after a
  successful \<open>put\<close> of a new chunk, with or without the flush it may cause, the store is still in
  order, the chunk and every chunk that was held in full before are read back unchanged, whatever
  the shared index answers.
\<close>

theorem local_put_get:
  assumes "local_serving L V (Suc n) st" and "ix h = None" and "\<forall>k. (h, k) \<notin> kinds st"
    and "genuine L V h" and "length (V h) \<le> 2 ^ 20"
    and "local_put L io ix st h (V h) = (Inr loc, st')"
  shows "local_serving L V n st' \<and> local_get L ix' st' h = Inr (V h)
    \<and> (\<forall>h'. (h', None) \<in> kinds st \<longrightarrow> local_get L ix' st' h' = Inr (V h'))"
proof -
  have "cs_put (local_ops L io) ix st h (V h) = (Inr loc, st')"
    using assms(6) by (simp add: local_ops_def)
  from local_contract.put_new [OF assms(1-5) this] show ?thesis by (auto simp: serving_get_full)
qed

theorem local_put_get_witness:
  "\<exists>st' loc. local_put demo_libs io_fine (\<lambda>_. None) (empty_store []) hash_a chunk_a = (Inr loc, st')
     \<and> local_get demo_libs (\<lambda>_. None) st' hash_a = Inr chunk_a"
proof -
  have v: "demo_value hash_a = chunk_a" by (simp add: demo_value_def)
  have k: "\<forall>k. (hash_a, k) \<notin> kinds (empty_store [])" by (simp add: kinds_def empty_store_def)
  have len: "length (demo_value hash_a) \<le> 2 ^ 20" by (simp add: v chunk_a_def)
  have rdy: "local_serving demo_libs demo_value (Suc 5) (empty_store [])" by (rule demo_serving) simp
  show ?thesis
    using local_put_get [OF rdy refl k demo_genuine(1) len, of io_fine _ demo_put "\<lambda>_. None"]
      demo_put_ok v by metis
qed

text \<open>
  C5. A flush that succeeds makes everything durable: every chunk the store held, in full or as a
  delta, is read back from the flushed store, and a store opened on the directory the flush left
  (with no index) loads the same packs and reads back the same chunks.
\<close>

theorem local_flush_durable:
  assumes "local_serving L V (Suc n) st" and "dir_complete st" and "local_flush L io st = (Inr (), st')"
  shows "(\<forall>(h, k) \<in> kinds st. local_get L ix st' h = Inr (V h))
    \<and> (\<exists>st2. local_open L (Some (ls_dir st')) = Inr st2
         \<and> (\<forall>(h, k) \<in> kinds st. local_get L ix st2 h = Inr (V h)))"
proof -
  have "cs_flush (local_ops L io) st = (Inr (), st')" using assms(3) by (simp add: local_ops_def)
  from local_contract.flush_ok [OF assms(1) this]
  have f: "local_serving L V n st'" "local_settled st'" "kinds st' = kinds st" by auto
  have "dir_complete st'"
    using assms(2,3) dir_complete_flush [of st L io st']
    by (cases "ls_pending_chunks st = []") (auto simp: local_flush_def)
  with reopen_spec [of L V st'] f obtain st2 where
    o: "local_open L (Some (ls_dir st')) = Inr st2" "local_inv L V st2" "kinds st2 = kinds st"
      "ls_pending_chunks st2 = []"
    by (auto simp: local_serving_def local_ready_def local_settled_def kinds_def)
  have "ix_sound L V st2 ix"
    by (rule genuine_ix_sound) (use f(1,3) o(3) in \<open>auto simp: local_serving_def\<close>)
  then have "local_get L ix st2 h = Inr (V h)" if "(h, k) \<in> kinds st" for h k
    using get_inner_full [OF o(2), of ix h 0] get_inner_delta [OF o(2), of ix h _ 0] that o(3,4)
    by (cases k) (auto simp: local_get_def)
  moreover have "local_get L ix st' h = Inr (V h)" if "(h, k) \<in> kinds st" for h k
    using serving_get_settled [OF f(1,2)] that f(3) by simp
  ultimately show ?thesis using o(1) by auto
qed

theorem local_flush_durable_witness:
  "\<exists>st' st2. local_flush demo_libs io_fine demo_put = (Inr (), st')
     \<and> local_open demo_libs (Some (ls_dir st')) = Inr st2
     \<and> local_get demo_libs (\<lambda>_. None) st2 hash_a = Inr chunk_a"
proof -
  obtain st where st: "local_flush demo_libs io_fine demo_put = (Inr (), st)"
    using demo_flush_ok by blast
  have v: "demo_value hash_a = chunk_a" by (simp add: demo_value_def)
  note d = demo_put_serving [THEN conjunct1] demo_put_serving [THEN conjunct2]
  have "dir_complete demo_put" by (simp add: dir_complete_def demo_put_pending)
  from local_flush_durable [OF d(1) this st, of "\<lambda>_. None"] d(2) v st show ?thesis by fastforce
qed

text \<open>
  C15. Writing a pack is atomic: whichever file system call fails, and whatever it leaves behind,
  every file of the directory but the temporary file and the new pack is untouched, the new pack is
  either untouched or complete, and it is complete when the write is reported as a success.
\<close>

theorem flush_write_atomic:
  assumes "flush_write L io chunks i dir = (r, dir')"
  shows "(\<forall>name. name \<noteq> tmp_name i \<longrightarrow> name \<noteq> pack_name i \<longrightarrow> map_of dir' name = map_of dir name)
    \<and> (map_of dir' (pack_name i) = map_of dir (pack_name i)
       \<or> (\<exists>p. write_pack L chunks = Inr p \<and> map_of dir' (pack_name i) = Some p))
    \<and> (is_ok r \<longrightarrow> chunks \<noteq> [] \<longrightarrow>
        (\<exists>p. write_pack L chunks = Inr p \<and> map_of dir' (pack_name i) = Some p))"
  using assms
  by (auto simp: flush_write_def Let_def update_conv' delete_conv' split: if_splits sum.splits
      option.splits failure.splits)

theorem flush_write_atomic_witness:
  "\<exists>r dir'. flush_write demo_libs (io_fine\<lparr>io_write := Some 4\<rparr>)
       (map pack_entry_of (ls_pending_chunks demo_put)) 3 [(''2.pack'', [9])] = (r, dir')
     \<and> map_of dir' ''2.pack'' = Some [9]"
proof -
  let ?f = "flush_write demo_libs (io_fine\<lparr>io_write := Some 4\<rparr>)
       (map pack_entry_of (ls_pending_chunks demo_put)) 3 [(''2.pack'', [9])]"
  have n: "''2.pack'' \<noteq> tmp_name 3" "''2.pack'' \<noteq> pack_name 3"
    by (simp_all add: tmp_name_def pack_name_def show_nat.simps digit_char_def)
  obtain r dir' where f: "?f = (r, dir')" by force
  have "map_of dir' ''2.pack'' = Some [9]" using flush_write_atomic [OF f] n by simp
  with f show ?thesis by blast
qed

lemma rename_loop_from:
  "n \<le> 10 \<Longrightarrow> rename_loop attempt n \<longleftrightarrow>
     (\<exists>k \<ge> n. k \<le> 10 \<and> attempt k = Renamed \<and> (\<forall>j. n \<le> j \<and> j < k \<longrightarrow> attempt j = Permission_Denied))"
proof (induction "10 - n" arbitrary: n)
  case 0
  then have "n = 10" by simp
  then show ?case
    by (subst rename_loop.simps) (auto split: rename_outcome.splits intro: exI [of _ 10])
next
  case (Suc m)
  then have n: "n < 10" by simp
  have ih: "rename_loop attempt (n + 1) \<longleftrightarrow> (\<exists>k \<ge> n + 1. k \<le> 10 \<and> attempt k = Renamed
      \<and> (\<forall>j. n + 1 \<le> j \<and> j < k \<longrightarrow> attempt j = Permission_Denied))"
    by (rule Suc.hyps(1)) (use Suc.hyps(2) in auto)
  show ?case
  proof (cases "attempt n")
    case Renamed
    then show ?thesis using n by (subst rename_loop.simps) (auto intro: exI [of _ n])
  next
    case Rename_Failed
    then show ?thesis
      by (subst rename_loop.simps) (auto, metis le_neq_implies_less order_refl rename_outcome.distinct(3,5))
  next
    case Permission_Denied
    have "(\<exists>k \<ge> n. k \<le> 10 \<and> attempt k = Renamed \<and> (\<forall>j. n \<le> j \<and> j < k \<longrightarrow> attempt j = Permission_Denied))
      \<longleftrightarrow> (\<exists>k \<ge> n + 1. k \<le> 10 \<and> attempt k = Renamed
        \<and> (\<forall>j. n + 1 \<le> j \<and> j < k \<longrightarrow> attempt j = Permission_Denied))" (is "?l \<longleftrightarrow> ?r")
    proof
      assume ?l
      then obtain k where k: "n \<le> k" "k \<le> 10" "attempt k = Renamed"
        "\<forall>j. n \<le> j \<and> j < k \<longrightarrow> attempt j = Permission_Denied" by blast
      then have "k \<noteq> n" using Permission_Denied by auto
      with k show ?r by (intro exI [of _ k]) auto
    next
      assume ?r
      then obtain k where "n + 1 \<le> k" "k \<le> 10" "attempt k = Renamed"
        "\<forall>j. n + 1 \<le> j \<and> j < k \<longrightarrow> attempt j = Permission_Denied" by blast
      moreover have "attempt j = Permission_Denied" if "n \<le> j" "j < k" for j
        using that Permission_Denied calculation(4) by (cases "j = n") simp_all
      ultimately show ?l by (intro exI [of _ k]) simp
    qed
    with Permission_Denied n ih show ?thesis by (subst rename_loop.simps) simp
  qed
qed

text \<open>
  The rename is retried at most ten times: it succeeds exactly when one of the first eleven
  attempts does and all before it were denied permission.
\<close>

theorem rename_loop_bounded:
  "rename_loop attempt 0 \<longleftrightarrow>
     (\<exists>k \<le> 10. attempt k = Renamed \<and> (\<forall>j < k. attempt j = Permission_Denied))"
  using rename_loop_from [of 0 attempt] by simp

theorem rename_loop_bounded_witness:
  "rename_loop (\<lambda>k. if k < 10 then Permission_Denied else Renamed) 0
   \<and> \<not> rename_loop (\<lambda>k. if k < 11 then Permission_Denied else Renamed) 0"
  unfolding rename_loop_bounded by (auto intro: exI [of _ 10])

text \<open>
  C30. A chunk that is pending as a delta is not reconstructed: between \<open>put_delta\<close> and the next
  flush, \<open>get\<close> answers with the delta frame itself, as if it were the chunk, without checking its
  digest.
\<close>

theorem pending_delta_read_raw:
  assumes "lookup_index ix st h = None" and "\<forall>e \<in> set (ls_pending_chunks st). pd_hash e \<noteq> h"
    and "ls_pending_size st + of_nat (length frame) < ls_pack_target_size st"
  shows "\<exists>loc st'. local_put_delta L io ix st h base frame orig = (Inr loc, st')
    \<and> local_get L ix' st' h = Inr frame"
proof -
  let ?new = "\<lparr>pd_hash = h, pd_data = frame, pd_orig_length = orig, pd_entry_type = Delta base,
     pd_signature = None\<rparr>"
  have none: "List.find (\<lambda>e. pd_hash e = h) (ls_pending_chunks st) = None"
    using assms(2) by (simp add: find_None_iff_all)
  then have found: "List.find (\<lambda>e. pd_hash e = h) (ls_pending_chunks (append_entry st ?new)) = Some ?new"
    by (simp add: find_append_None)
  have "appends ix st h" using assms(1,2) by (simp add: appends_def)
  then have "local_put_delta L io ix st h base frame orig
      = (Inr (placeholder (append_entry st ?new) orig), append_entry st ?new)"
    using assms(3) [unfolded not_le [symmetric]] by (simp add: local_put_delta_def put_entry_cases Let_def append_entry_def)
  moreover have "local_get L ix' (append_entry st ?new) h = Inr frame"
    unfolding local_get_def by (subst get_inner_pending [OF _ found]) simp_all
  ultimately show ?thesis by blast
qed

theorem pending_delta_read_raw_witness:
  "\<exists>loc st'. local_put_delta demo_libs io_fine (\<lambda>_. None) demo_put hash_b hash_a [1, 2] 300 = (Inr loc, st')
     \<and> local_get demo_libs (\<lambda>_. None) st' hash_b = Inr [1, 2]"
  by (rule pending_delta_read_raw)
    (simp_all add: lookup_index_def demo_put_pending demo_put_def local_put_def put_entry_def
      empty_store_def chunk_a_def Let_def placeholder_def)

text \<open>
  C31. A failed flush loses what was pending, for good: the chunks have left the store, and as the
  index still names the location they were promised, \<open>get\<close> does not find them and putting them again
  is answered with that location, without storing anything.
\<close>

theorem failed_flush_loses_pending:
  assumes "local_flush L io st = (Inl e, st')" and "ls_indexed st" and "ix h = Some loc"
    and "pl_pack_id loc \<notin> fst ` set (ls_packs st)"
    and "\<forall>(i, m) \<in> set (ls_packs st). \<forall>e \<in> set (pm_entries m). ie_hash e \<noteq> h"
  shows "local_get L ix st' h = Inl (Err (ChunkNotFound (to_hex h)))
    \<and> local_put L io' ix st' h data = (Inr loc, st')"
proof -
  have run: "run_flush L io st = (Inl e, st')"
    using assms(1) by (auto simp: local_flush_def split: if_splits)
  then have st': "ls_pending_chunks st' = []" "ls_packs st' = ls_packs st" "ls_indexed st' = ls_indexed st"
    by (cases rule: run_flush_cases; simp)+
  have ix: "lookup_index ix st' h = Some loc" using assms(2,3) st' by (simp add: lookup_index_def)
  have "map_of (ls_packs st) (pl_pack_id loc) = None" using assms(4) by (simp add: map_of_eq_None_iff)
  moreover have "scan_packs (ls_packs st) h = None" using assms(5) by (simp add: scan_packs_None)
  ultimately have "local_get L ix st' h = Inl (Err (ChunkNotFound (to_hex h)))"
    unfolding local_get_def
    by (subst get_inner.simps) (simp add: Let_def ix st' read_from_location_def)
  then show ?thesis using ix by (simp add: local_put_def put_entry_known)
qed

theorem failed_flush_loses_pending_witness:
  "\<exists>e st' loc. local_flush demo_libs (io_fine\<lparr>io_write := Some 4\<rparr>) demo_put = (Inl e, st')
     \<and> local_put demo_libs io_fine (\<lambda>_. Some loc) st' hash_a chunk_a = (Inr loc, st')
     \<and> \<not> is_ok (local_get demo_libs (\<lambda>_. Some loc) st' hash_a)"
proof -
  let ?loc = "\<lparr>pl_pack_id = 0, pl_offset = 0, pl_length = 0, pl_orig_length = 3\<rparr>"
  obtain p where "write_pack demo_libs (map pack_entry_of (ls_pending_chunks demo_put)) = Inr p"
    using demo_write by blast
  then obtain e st' where f: "local_flush demo_libs (io_fine\<lparr>io_write := Some 4\<rparr>) demo_put = (Inl e, st')"
    by (simp add: local_flush_def run_flush_def flush_prepare_def flush_write_def Let_def demo_put_pending io_fine_def)
  have ixd: "ls_indexed demo_put" using demo_put_serving by (simp add: local_serving_def)
  show ?thesis
    using failed_flush_loses_pending [OF f ixd, of "\<lambda>_. Some ?loc" hash_a ?loc io_fine chunk_a] f
    by (fastforce simp: demo_put_pending)
qed

definition eleven_packs :: "bytes \<Rightarrow> dir" where
  "eleven_packs p = map (\<lambda>i. (pack_name i, p)) [0, 1, 2, 3, 4, 5, 6, 7, 8, 9, 10]"

definition eleven_sorted :: "bytes \<Rightarrow> dir" where
  "eleven_sorted p = map (\<lambda>i. (pack_name i, p)) [0, 1, 10, 2, 3, 4, 5, 6, 7, 8, 9]"

lemma pack_names_sorted: "sorted (map fst (eleven_sorted p))"
  by (simp add: eleven_sorted_def pack_name_def show_nat.simps digit_char_def less_eq_char_def)

lemma sort_eleven: "sort_key fst (filter (\<lambda>(name, _). has_pack_extension name) (eleven_packs p)) = eleven_sorted p"
proof -
  have f: "filter (\<lambda>(name, _). has_pack_extension name) (eleven_packs p) = eleven_packs p"
    by (simp add: eleven_packs_def)
  have d: "distinct (map fst (eleven_packs p))" "distinct (map fst (eleven_sorted p))"
    by (simp_all add: eleven_packs_def eleven_sorted_def)
  have m: "mset (eleven_packs p) = mset (eleven_sorted p)"
    by (subst set_eq_iff_mset_eq_distinct [symmetric])
      (use d in \<open>auto simp: distinct_map eleven_packs_def eleven_sorted_def\<close>)
  show ?thesis unfolding f
    by (rule properties_for_sort_key [OF m [symmetric] _ pack_names_sorted])
      (auto simp: eleven_sorted_def eleven_packs_def)
qed

text \<open>
  C35. The ids of packs are not continued correctly past ten packs: pack files are loaded in the
  lexicographic order of their names and the next id follows the last one loaded, so opening a
  directory with the packs 0 to 10 gives the next id 10. The next flush then replaces pack 10 by
  the new pack.
\<close>

theorem reopen_reuses_pack_id:
  assumes "read_pack L p = Inr (ies, ck, sb)"
  shows "\<exists>st. local_open L (Some (eleven_packs p)) = Inr st
    \<and> ls_next_pack_id st = 10 \<and> 10 \<in> fst ` set (ls_packs st)
    \<and> (\<forall>io m dir'. ls_pending_chunks st = [] \<longrightarrow> chunks \<noteq> []
         \<longrightarrow> flush_write L io chunks (ls_next_pack_id st) (ls_dir st) = (Inr m, dir')
         \<longrightarrow> (\<exists>q. write_pack L chunks = Inr q \<and> map_of (ls_dir st) (pack_name 10) = Some p
              \<and> map_of dir' (pack_name 10) = Some q))"
proof -
  have l: "load_packs L (eleven_sorted p) [] 0 = Inr (map (\<lambda>i. (i, \<lparr>pm_entries = ies, pm_superblock = sb\<rparr>))
      [0, 1, 10, 2, 3, 4, 5, 6, 7, 8, 9], 10)"
    using assms by (simp add: eleven_sorted_def)
  then obtain st where st: "local_open L (Some (eleven_packs p)) = Inr st" "ls_next_pack_id st = 10"
    "10 \<in> fst ` set (ls_packs st)" "ls_dir st = eleven_packs p"
    by (simp add: local_open_def sort_eleven)
  moreover have "map_of (eleven_packs p) (pack_name 10) = Some p" by (simp add: eleven_packs_def)
  ultimately show ?thesis by (auto dest!: flush_write_ok simp: update_conv')
qed

theorem reopen_reuses_pack_id_witness:
  "\<exists>p st. write_pack toy_libs (sample_entries 1) = Inr p
     \<and> local_open toy_libs (Some (eleven_packs p)) = Inr st \<and> ls_next_pack_id st = 10"
proof -
  obtain p where p: "write_pack toy_libs (sample_entries 1) = Inr p" "length p = 203"
    using sample_pack by blast
  obtain ies ck sb where "read_pack toy_libs p = Inr (ies, ck, sb)"
    using write_pack_readable [OF toy_libs_ok p(1)] p(2) by (auto simp: sample_entries_def)
  from reopen_reuses_pack_id [OF this] p(1) show ?thesis by blast
qed

text \<open>
  C28. The index that \<open>Store::open\<close> makes for a local store is exact: populating it never panics, and
  looking up a hash, through the Bloom filter, answers with the location of an entry of a loaded
  pack for that hash when there is one, and with nothing exactly when there is none; \<open>contains\<close>,
  which does not ask the filter, agrees.
\<close>

theorem populate_index_exact:
  "\<exists>ix. populate_index keyed st (hi_new 1000000) = Inr ix
    \<and> (\<forall>h. case hi_lookup keyed ix h of
          Inr (Some loc) \<Rightarrow>
            \<exists>(i, m) \<in> set (ls_packs st). \<exists>e \<in> set (pm_entries m). ie_hash e = h \<and> loc = entry_location i e
        | Inr None \<Rightarrow> \<not> (\<exists>(i, m) \<in> set (ls_packs st). \<exists>e \<in> set (pm_entries m). ie_hash e = h)
        | Inl failure \<Rightarrow> False)
    \<and> (\<forall>h. hi_contains ix h \<longleftrightarrow> (\<exists>(i, m) \<in> set (ls_packs st). \<exists>e \<in> set (pm_entries m). ie_hash e = h))"
proof -
  have wf: "hi_wf keyed (hi_new 1000000)" by (rule hi_new_wf) simp_all
  obtain ix where ix: "populate_index keyed st (hi_new 1000000) = Inr ix" "hi_wf keyed ix"
    "hi_map ix = map_of (rev (index_entries st))"
    using hash_index.insert_all_ok [OF wf, of "index_entries st"]
    by (auto simp: populate_index_def hi_new_def)
  have ents: "(h, loc) \<in> set (index_entries st) \<longleftrightarrow>
      (\<exists>(i, m) \<in> set (ls_packs st). \<exists>e \<in> set (pm_entries m). ie_hash e = h \<and> loc = entry_location i e)"
    for h loc by (fastforce simp: index_entries_def)
  have held: "h \<in> fst ` set (index_entries st) \<longleftrightarrow>
      (\<exists>(i, m) \<in> set (ls_packs st). \<exists>e \<in> set (pm_entries m). ie_hash e = h)" for h
  proof -
    have "h \<in> fst ` set (index_entries st) \<longleftrightarrow> (\<exists>loc. (h, loc) \<in> set (index_entries st))" by force
    then show ?thesis unfolding ents by blast
  qed
  have contains: "hi_contains ix h \<longleftrightarrow> h \<in> fst ` set (index_entries st)" for h
    by (simp add: hi_contains_def ix(3) map_of_eq_None_iff)
  have "case hi_map ix h of Some loc \<Rightarrow> (h, loc) \<in> set (index_entries st) | None \<Rightarrow> h \<notin> fst ` set (index_entries st)" for h
    unfolding ix(3) by (auto dest: map_of_SomeD simp: map_of_eq_None_iff split: option.split)
  then have "case hi_lookup keyed ix h of
      Inr (Some loc) \<Rightarrow> (h, loc) \<in> set (index_entries st)
    | Inr None \<Rightarrow> h \<notin> fst ` set (index_entries st) | Inl failure \<Rightarrow> False" for h
    unfolding hash_index.lookup_abs [OF ix(2)] by (simp split: option.splits)
  with ix(1) contains show ?thesis
    unfolding ents held by (intro exI [of _ ix] conjI allI)
qed

theorem populate_index_exact_witness:
  "\<exists>ix. populate_index (\<lambda>_ _. replicate 32 0) ((empty_store [])\<lparr>ls_packs :=
       [(3, \<lparr>pm_entries = [\<lparr>ie_hash = hash_a, ie_offset = 8, ie_length = 2, ie_orig_length = 3,
          ie_entry_type = Full, ie_signature = None\<rparr>], pm_superblock = None\<rparr>)]\<rparr>) (hi_new 1000000) = Inr ix
     \<and> hi_lookup (\<lambda>_ _. replicate 32 0) ix hash_a
         = Inr (Some \<lparr>pl_pack_id = 3, pl_offset = 8, pl_length = 2, pl_orig_length = 3\<rparr>)
     \<and> hi_lookup (\<lambda>_ _. replicate 32 0) ix hash_b = Inr None"
proof -
  let ?keyed = "\<lambda>_ _. replicate 32 0"
  obtain ix where ix: "populate_index ?keyed ((empty_store [])\<lparr>ls_packs :=
       [(3, \<lparr>pm_entries = [\<lparr>ie_hash = hash_a, ie_offset = 8, ie_length = 2, ie_orig_length = 3,
          ie_entry_type = Full, ie_signature = None\<rparr>], pm_superblock = None\<rparr>)]\<rparr>) (hi_new 1000000) = Inr ix"
    "case hi_lookup ?keyed ix h of Inl failure \<Rightarrow> False
     | Inr None \<Rightarrow> h \<noteq> hash_a
     | Inr (Some loc) \<Rightarrow> h = hash_a \<and> loc = \<lparr>pl_pack_id = 3, pl_offset = 8, pl_length = 2, pl_orig_length = 3\<rparr>" for h
    using populate_index_exact [of ?keyed "(empty_store [])\<lparr>ls_packs :=
       [(3, \<lparr>pm_entries = [\<lparr>ie_hash = hash_a, ie_offset = 8, ie_length = 2, ie_orig_length = 3,
          ie_entry_type = Full, ie_signature = None\<rparr>], pm_superblock = None\<rparr>)]\<rparr>"]
    by (auto simp: entry_location_def eq_commute [of hash_a] cong: sum.case_cong option.case_cong)
  from ix(2) [of hash_a] ix(2) [of hash_b] show ?thesis
    using ix(1) by (auto split: sum.splits option.splits)
qed

end
