(* ===== verification/Pipeline.thy ===== *)
theory Pipeline
  imports Content_Store Chunking Hash_Index Similarity_Stage Delta Local_Store
begin

text \<open>
  The backup pipeline: \<^verbatim>\<open>packt-lib/src/pipeline/mod.rs\<close>. \<^verbatim>\<open>backup_file\<close> runs two threads, a
  producer that cuts, hashes and classifies the chunks of a file and a writer that stores them,
  joined by a channel of 64 messages and sharing the dedup index. The state of both threads is
  \<open>system\<close>; \<open>step\<close> is the relation of their atomic steps, so that a theorem about \<open>step\<close> holds
  for every interleaving. The chunks come from the chunker library as a list of items; the index
  is the map it stands for (\<open>Hash_Index\<close> shows that the index is one).
\<close>

section \<open>Data\<close>

text \<open>What the streaming chunker yields.\<close>

datatype stream_item = Chunk_Data u64 nat bytes | Stream_Error string

datatype writer_message =
    Store hash bytes
  | StoreNearDuplicate hash bytes hash similarity_tier
  | Skip hash

record writer_output =
  wo_dedup_count :: u64
  wo_stored_count :: u64
  wo_delta_compressed_chunks :: u64
  wo_delta_savings :: u64
  wo_delta_fallbacks :: u64

record backup_stats =
  bs_source_size :: u64
  bs_stored_size :: u64
  bs_dedup_size :: u64
  bs_total_chunks :: u64
  bs_unique_chunks :: u64
  bs_dedup_chunks :: u64
  bs_near_duplicate_chunks :: u64
  bs_delta_compressed_chunks :: u64
  bs_delta_savings :: u64
  bs_delta_fallbacks :: u64
  bs_similarity_index_size :: nat
  bs_chunk_hashes :: "hash list"

definition default_stats :: backup_stats where
  "default_stats = \<lparr>bs_source_size = 0, bs_stored_size = 0, bs_dedup_size = 0, bs_total_chunks = 0,
     bs_unique_chunks = 0, bs_dedup_chunks = 0, bs_near_duplicate_chunks = 0,
     bs_delta_compressed_chunks = 0, bs_delta_savings = 0, bs_delta_fallbacks = 0,
     bs_similarity_index_size = 0, bs_chunk_hashes = []\<rparr>"

type_synonym index = "hash \<Rightarrow> pack_location option"

text \<open>What the threads use: the store, the libraries, the compression level, xxh3 and
  \<^verbatim>\<open>postcard::to_stdvec\<close> on signatures.\<close>

record 's env =
  en_ops :: "'s content_store"
  en_libs :: libs
  en_level :: int
  en_xxh3 :: "bytes \<Rightarrow> u64"
  en_ser_sig :: "chunk_signature \<Rightarrow> bytes option"

record 's writer =
  w_store :: 's
  w_index :: index
  w_out :: writer_output

section \<open>The writer\<close>

definition attach_signature :: "'s env \<Rightarrow> hash \<Rightarrow> bytes \<Rightarrow> 's \<Rightarrow> 's" where
  "attach_signature env h data s =
     (case Option.bind (extract_signature (en_xxh3 env) data) (en_ser_sig env) of
        None \<Rightarrow> s
      | Some sig_bytes \<Rightarrow> snd (cs_put_signature (en_ops env) s h sig_bytes))"

text \<open>\<^verbatim>\<open>let loc = store.put(..)?; index.insert(hash, loc);\<close> and the same for \<^verbatim>\<open>put_delta\<close>.\<close>

definition insert_loc :: "hash \<Rightarrow> pack_location result \<times> 's \<Rightarrow> 's writer \<Rightarrow> unit result \<times> 's writer" where
  "insert_loc h put w =
     (case put of
        (Inl e, s) \<Rightarrow> (Inl e, w\<lparr>w_store := s\<rparr>)
      | (Inr loc, s) \<Rightarrow> (Inr (), w\<lparr>w_store := s, w_index := (w_index w)(h \<mapsto> loc)\<rparr>))"

definition store_chunk :: "'s env \<Rightarrow> hash \<Rightarrow> bytes \<Rightarrow> 's writer \<Rightarrow> unit result \<times> 's writer" where
  "store_chunk env h data w =
     insert_loc h (cs_put (en_ops env) (w_index w) (w_store w) h data) w"

definition store_delta ::
    "'s env \<Rightarrow> hash \<Rightarrow> hash \<Rightarrow> bytes \<Rightarrow> bytes \<Rightarrow> 's writer \<Rightarrow> unit result \<times> 's writer" where
  "store_delta env h similar_to delta_data data w =
     insert_loc h (cs_put_delta (en_ops env) (w_index w) (w_store w) h similar_to delta_data
       (of_nat (length data))) w"

definition count_delta :: "bytes \<Rightarrow> bytes \<Rightarrow> writer_output \<Rightarrow> writer_output" where
  "count_delta data delta_data out = out\<lparr>
     wo_delta_compressed_chunks := wo_delta_compressed_chunks out + 1,
     wo_delta_savings := wo_delta_savings out + (of_nat (length data) - of_nat (length delta_data))\<rparr>"

definition count_fallback :: "writer_output \<Rightarrow> writer_output" where
  "count_fallback out = out\<lparr>wo_delta_fallbacks := wo_delta_fallbacks out + 1\<rparr>"

definition then_count ::
    "unit result \<times> 's writer \<Rightarrow> (writer_output \<Rightarrow> writer_output) \<Rightarrow> unit result \<times> 's writer" where
  "then_count r f = (case r of
     (Inl e, w) \<Rightarrow> (Inl e, w)
   | (Inr u, w) \<Rightarrow> (Inr (), w\<lparr>w_out := f (w_out w)\<rparr>))"

definition finish_message :: "'s env \<Rightarrow> hash \<Rightarrow> bytes \<Rightarrow> unit result \<times> 's writer \<Rightarrow> unit result \<times> 's writer" where
  "finish_message env h data r = (case r of
     (Inl e, w) \<Rightarrow> (Inl e, w)
   | (Inr u, w) \<Rightarrow> (Inr (), w\<lparr>w_store := attach_signature env h data (w_store w),
        w_out := (w_out w)\<lparr>wo_stored_count := wo_stored_count (w_out w) + 1\<rparr>\<rparr>))"

definition store_near_duplicate ::
    "'s env \<Rightarrow> hash \<Rightarrow> bytes \<Rightarrow> hash \<Rightarrow> 's writer \<Rightarrow> unit result \<times> 's writer" where
  "store_near_duplicate env h data similar_to w =
     (let (got, s) = cs_get (en_ops env) (w_index w) (w_store w) similar_to;
          w = w\<lparr>w_store := s\<rparr>
      in case got of
        Inl (Panic m) \<Rightarrow> (Inl (Panic m), w)
      | Inl (Err e) \<Rightarrow> then_count (store_chunk env h data w) count_fallback
      | Inr base_data \<Rightarrow>
          (case try_encode (lib_zstd (en_libs env)) (en_level env) base_data data of
             Inl e \<Rightarrow> (Inl e, w)
           | Inr (Some delta_data) \<Rightarrow>
               then_count (store_delta env h similar_to delta_data data w) (count_delta data delta_data)
           | Inr None \<Rightarrow> then_count (store_chunk env h data w) count_fallback))"

definition handle_message :: "'s env \<Rightarrow> writer_message \<Rightarrow> 's writer \<Rightarrow> unit result \<times> 's writer" where
  "handle_message env msg w =
     (case msg of
        Store h data \<Rightarrow> finish_message env h data (store_chunk env h data w)
      | StoreNearDuplicate h data similar_to tier \<Rightarrow>
          finish_message env h data (store_near_duplicate env h data similar_to w)
      | Skip h \<Rightarrow> (Inr (), w\<lparr>w_out := (w_out w)\<lparr>wo_dedup_count := wo_dedup_count (w_out w) + 1\<rparr>\<rparr>))"

section \<open>The system\<close>

record 's system =
  sy_items :: "stream_item list"
  sy_stage :: "similarity_stage option"
  sy_stats :: backup_stats
  sy_chunk_hashes :: "hash list"
  sy_total_chunks :: u64
  sy_outgoing :: "writer_message option"
  sy_open :: bool
  sy_result :: "backup_stats result option"
  sy_channel :: "writer_message list"
  sy_writer :: "'s writer"
  sy_writer_result :: "unit result option"

text \<open>Lines 178 to 217: one chunk of the file, up to the message it is sent as.\<close>

definition classify ::
    "'s env \<Rightarrow> 's system \<Rightarrow> hash \<Rightarrow> bytes \<Rightarrow> u64 \<Rightarrow> writer_message \<times> similarity_stage option \<times> backup_stats" where
  "classify env sy h data chunk_len =
     (let stats = sy_stats sy; stored = stats\<lparr>bs_stored_size := bs_stored_size stats + chunk_len\<rparr>
      in if w_index (sy_writer sy) h \<noteq> None then (Skip h, sy_stage sy, stats)
         else (case sy_stage sy of
           None \<Rightarrow> (Store h data, None, stored)
         | Some similarity \<Rightarrow>
             (case stage_process (en_xxh3 env) similarity h data of
                (Unique h data, similarity) \<Rightarrow> (Store h data, Some similarity, stored)
              | (TooSmall h data, similarity) \<Rightarrow> (Store h data, Some similarity, stored)
              | (NearDuplicate h data similar_to tier, similarity) \<Rightarrow>
                  (StoreNearDuplicate h data similar_to tier, Some similarity,
                   stored\<lparr>bs_near_duplicate_chunks := bs_near_duplicate_chunks stored + 1\<rparr>))))"

definition prepare_chunk ::
    "'s env \<Rightarrow> 's system \<Rightarrow> u64 \<Rightarrow> nat \<Rightarrow> bytes \<Rightarrow> stream_item list \<Rightarrow> 's system" where
  "prepare_chunk env sy offset len data items =
     (let c = \<lparr>ch_offset = offset, ch_length = of_nat len, ch_data = data\<rparr>;
          chunk_len = ucast (ch_length c);
          h = hasher_stage_hash (lib_blake3 (en_libs env)) c;
          (msg, stage, stats) = classify env sy h data chunk_len
      in sy\<lparr>sy_items := items, sy_total_chunks := sy_total_chunks sy + 1,
            sy_chunk_hashes := sy_chunk_hashes sy @ [h], sy_stage := stage, sy_stats := stats,
            sy_outgoing := Some msg\<rparr>)"

definition final_stats :: "'s system \<Rightarrow> backup_stats" where
  "final_stats sy =
     (let out = w_out (sy_writer sy)
      in (sy_stats sy)\<lparr>bs_dedup_chunks := wo_dedup_count out, bs_unique_chunks := wo_stored_count out,
           bs_delta_compressed_chunks := wo_delta_compressed_chunks out,
           bs_delta_savings := wo_delta_savings out, bs_delta_fallbacks := wo_delta_fallbacks out,
           bs_total_chunks := sy_total_chunks sy, bs_chunk_hashes := sy_chunk_hashes sy,
           bs_similarity_index_size :=
             (case sy_stage sy of None \<Rightarrow> 0 | Some similarity \<Rightarrow> stage_index_size similarity)\<rparr>)"

definition CHANNEL_BOUND :: nat where "CHANNEL_BOUND = 64"

definition after_message :: "'s system \<Rightarrow> writer_message list \<Rightarrow> unit result \<times> 's writer \<Rightarrow> 's system" where
  "after_message sy q r =
     (case r of
        (Inr u, w) \<Rightarrow> sy\<lparr>sy_channel := q, sy_writer := w\<rparr>
      | (Inl e, w) \<Rightarrow> sy\<lparr>sy_channel := [], sy_writer := w, sy_writer_result := Some (Inl e)\<rparr>)"

definition after_flush :: "'s system \<Rightarrow> unit result \<times> 's \<Rightarrow> 's system" where
  "after_flush sy r = sy\<lparr>sy_writer := (sy_writer sy)\<lparr>w_store := snd r\<rparr>, sy_writer_result := Some (fst r)\<rparr>"

text \<open>\<^verbatim>\<open>writer_handle.join().map_err(..)??\<close> and the statistics.\<close>

definition join_result :: "'s system \<Rightarrow> unit result \<Rightarrow> backup_stats result" where
  "join_result sy r =
     (case r of
        Inl (Panic m) \<Rightarrow> Inl (Err (Pipeline ''Writer thread panicked''))
      | Inl (Err e) \<Rightarrow> Inl (Err e)
      | Inr u \<Rightarrow> Inr (final_stats sy))"

inductive step :: "'s env \<Rightarrow> 's system \<Rightarrow> 's system \<Rightarrow> bool" for env :: "'s env" where
  prepare: "sy_result sy = None \<Longrightarrow> sy_open sy \<Longrightarrow> sy_outgoing sy = None
    \<Longrightarrow> sy_items sy = Chunk_Data offset len data # items
    \<Longrightarrow> step env sy (prepare_chunk env sy offset len data items)"
| stream_error: "sy_result sy = None \<Longrightarrow> sy_open sy \<Longrightarrow> sy_outgoing sy = None
    \<Longrightarrow> sy_items sy = Stream_Error m # items
    \<Longrightarrow> step env sy (sy\<lparr>sy_open := False, sy_result := Some (Inl (Err (Pipeline ''StreamCDC error'')))\<rparr>)"
| send: "sy_result sy = None \<Longrightarrow> sy_outgoing sy = Some msg \<Longrightarrow> sy_writer_result sy = None
    \<Longrightarrow> length (sy_channel sy) < CHANNEL_BOUND
    \<Longrightarrow> step env sy (sy\<lparr>sy_channel := sy_channel sy @ [msg], sy_outgoing := None\<rparr>)"
| send_fails: "sy_result sy = None \<Longrightarrow> sy_outgoing sy = Some msg \<Longrightarrow> sy_writer_result sy \<noteq> None
    \<Longrightarrow> step env sy (sy\<lparr>sy_open := False, sy_outgoing := None,
          sy_result := Some (Inl (Err (Pipeline ''writer thread exited prematurely'')))\<rparr>)"
| close_sender: "sy_result sy = None \<Longrightarrow> sy_open sy \<Longrightarrow> sy_outgoing sy = None \<Longrightarrow> sy_items sy = []
    \<Longrightarrow> step env sy (sy\<lparr>sy_open := False\<rparr>)"
| receive: "sy_writer_result sy = None \<Longrightarrow> sy_channel sy = msg # q
    \<Longrightarrow> step env sy (after_message sy q (handle_message env msg (sy_writer sy)))"
| writer_flush: "sy_writer_result sy = None \<Longrightarrow> sy_channel sy = [] \<Longrightarrow> \<not> sy_open sy
    \<Longrightarrow> step env sy (after_flush sy (cs_flush (en_ops env) (w_store (sy_writer sy))))"
| join: "sy_result sy = None \<Longrightarrow> \<not> sy_open sy \<Longrightarrow> sy_outgoing sy = None \<Longrightarrow> sy_writer_result sy = Some r
    \<Longrightarrow> step env sy (sy\<lparr>sy_result := Some (join_result sy r)\<rparr>)"

text \<open>Lines 82 to 105 once the file has been opened and its size read.\<close>

definition system_init ::
    "u64 \<Rightarrow> stream_item list \<Rightarrow> similarity_stage option \<Rightarrow> index \<Rightarrow> 's \<Rightarrow> 's system" where
  "system_init file_size items stage ix s =
     \<lparr>sy_items = items, sy_stage = stage, sy_stats = default_stats\<lparr>bs_source_size := file_size\<rparr>,
      sy_chunk_hashes = [], sy_total_chunks = 0, sy_outgoing = None, sy_open = True, sy_result = None,
      sy_channel = [],
      sy_writer = \<lparr>w_store = s, w_index = ix, w_out = \<lparr>wo_dedup_count = 0, wo_stored_count = 0,
        wo_delta_compressed_chunks = 0, wo_delta_savings = 0, wo_delta_fallbacks = 0\<rparr>\<rparr>,
      sy_writer_result = None\<rparr>"

section \<open>Queues of messages\<close>

text \<open>
  \<open>A\<close> are the hashes held, \<open>F\<close> those held in full. A queue is in order when every message carries
  the chunk of its hash, every near duplicate has its base held in full by the time it is
  handled, and every skipped hash is held by then; \<open>q_all\<close> and \<open>q_full\<close> are what is held once
  the queue has been handled.
\<close>

definition chunk_ok :: "libs \<Rightarrow> (hash \<Rightarrow> bytes) \<Rightarrow> hash \<Rightarrow> bytes \<Rightarrow> bool" where
  "chunk_ok L V h d \<longleftrightarrow> genuine L V h \<and> d = V h \<and> length (V h) \<le> 2 ^ 20"

fun q_ok :: "libs \<Rightarrow> (hash \<Rightarrow> bytes) \<Rightarrow> hash set \<Rightarrow> hash set \<Rightarrow> writer_message list \<Rightarrow> bool" where
  "q_ok L V A F [] = True"
| "q_ok L V A F (Store h d # q) =
     (chunk_ok L V h d \<and> q_ok L V (insert h A) (if h \<in> A then F else insert h F) q)"
| "q_ok L V A F (StoreNearDuplicate h d b t # q) =
     (chunk_ok L V h d \<and> b \<in> F \<and> q_ok L V (insert h A) F q)"
| "q_ok L V A F (Skip h # q) = (h \<in> A \<and> q_ok L V A F q)"

fun q_all :: "hash set \<Rightarrow> writer_message list \<Rightarrow> hash set" where
  "q_all A [] = A"
| "q_all A (Store h d # q) = q_all (insert h A) q"
| "q_all A (StoreNearDuplicate h d b t # q) = q_all (insert h A) q"
| "q_all A (Skip h # q) = q_all A q"

fun q_full :: "hash set \<Rightarrow> hash set \<Rightarrow> writer_message list \<Rightarrow> hash set" where
  "q_full A F [] = F"
| "q_full A F (Store h d # q) = q_full (insert h A) (if h \<in> A then F else insert h F) q"
| "q_full A F (StoreNearDuplicate h d b t # q) = q_full (insert h A) F q"
| "q_full A F (Skip h # q) = q_full A F q"

lemma q_append [simp]:
  "q_ok L V A F (q @ r) \<longleftrightarrow> q_ok L V A F q \<and> q_ok L V (q_all A q) (q_full A F q) r"
  "q_all A (q @ r) = q_all (q_all A q) r"
  "q_full A F (q @ r) = q_full (q_all A q) (q_full A F q) r"
  by (induction L V A F q rule: q_ok.induct) auto

lemma q_mono: "F \<subseteq> F' \<Longrightarrow> q_ok L V A F q \<Longrightarrow> q_ok L V A F' q"
proof (induction L V A F q arbitrary: F' rule: q_ok.induct)
  case (2 L V A F h d q)
  have "(if h \<in> A then F else insert h F) \<subseteq> (if h \<in> A then F' else insert h F')"
    using "2.prems"(1) by auto
  from "2.IH" [OF this] "2.prems"(2) show ?case by simp
qed auto

lemma q_full_mono: "F \<subseteq> F' \<Longrightarrow> q_full A F q \<subseteq> q_full A F' q"
proof (induction A F q arbitrary: F' rule: q_full.induct)
  case (2 A F h d q)
  have "(if h \<in> A then F else insert h F) \<subseteq> (if h \<in> A then F' else insert h F')"
    using "2.prems" by auto
  from "2.IH" [OF this] show ?case by simp
qed auto

lemma q_all_subset: "A \<subseteq> q_all A q"
  by (induction A q rule: q_all.induct) auto

lemma q_full_subset: "F \<subseteq> q_full A F q"
  by (induction A F q rule: q_full.induct) (auto split: if_splits)

text \<open>A hash that is going to be held, but not in full, is in the queue as a near duplicate.\<close>

lemma q_near:
  "h \<in> q_all A q \<Longrightarrow> h \<notin> q_full A F q \<Longrightarrow> h \<notin> A \<Longrightarrow> \<exists>d b t. StoreNearDuplicate h d b t \<in> set q"
proof (induction A F q rule: q_full.induct)
  case (2 A F k d q)
  have "insert k F \<subseteq> q_full (insert k A) (insert k F) q" by (rule q_full_subset)
  with 2 show ?case by (cases "h = k") (auto split: if_splits)
next
  case (3 A F k d b t q)
  then show ?case by (cases "h = k") auto
qed auto

section \<open>The writer and the contract of the store\<close>

definition fulls :: "(hash \<times> hash option) set \<Rightarrow> hash set" where
  "fulls K = {h. (h, None) \<in> K}"

context content_store_contract
begin

definition writer_inv :: "nat \<Rightarrow> 's writer \<Rightarrow> bool" where
  "writer_inv n w \<longleftrightarrow> ready n (w_store w) \<and> dom (w_index w) = fst ` held (w_store w)"

lemma writer_inv_mono: "writer_inv (Suc n) w \<Longrightarrow> writer_inv n w"
  using ready_mono by (simp add: writer_inv_def)

lemma store_chunk_ok:
  assumes env: "en_ops env = S" and inv: "writer_inv (Suc n) w" and c: "chunk_ok L V h d"
    and st: "store_chunk env h d w = (Inr (), w')"
  shows "writer_inv n w' \<and> w_out w' = w_out w
    \<and> held (w_store w') = (if h \<in> fst ` held (w_store w) then held (w_store w)
         else insert (h, None) (held (w_store w)))"
proof (cases "w_index w h")
  case (Some loc)
  then have "cs_put S (w_index w) (w_store w) h d = (Inr loc, w_store w)"
    using inv put_known [of "Suc n" "w_store w" "w_index w" h loc d] by (simp add: writer_inv_def)
  moreover have "h \<in> fst ` held (w_store w)" using Some inv by (auto simp: writer_inv_def)
  moreover have "w' = w"
    using st env calculation(1) Some by (simp add: store_chunk_def insert_loc_def map_upd_triv)
  ultimately show ?thesis using writer_inv_mono [OF inv] by simp
next
  case None
  then have new: "\<forall>k. (h, k) \<notin> held (w_store w)"
    using inv by (force simp: writer_inv_def)
  from st env obtain loc s' where put: "cs_put S (w_index w) (w_store w) h d = (Inr loc, s')"
    and w': "w' = w\<lparr>w_store := s', w_index := (w_index w)(h \<mapsto> loc)\<rparr>"
    by (auto simp: store_chunk_def insert_loc_def split: prod.splits sum.splits)
  from put_new [of n "w_store w" "w_index w" h loc s'] None new put c inv
  have "ready n s' \<and> held s' = insert (h, None) (held (w_store w))"
    by (simp add: chunk_ok_def writer_inv_def)
  with w' inv new show ?thesis by (force simp: writer_inv_def)
qed

lemma store_delta_ok:
  assumes env: "en_ops env = S" and inv: "writer_inv (Suc n) w" and c: "chunk_ok L V h d"
    and b: "b \<in> fulls (held (w_store w))" and small: "length frame \<le> 2 ^ 20"
    and dec: "z_decompress_dict (lib_zstd L) (V b) frame (length d) = Some (V h)"
    and st: "store_delta env h b frame d w = (Inr (), w')"
  shows "writer_inv n w' \<and> w_out w' = w_out w
    \<and> held (w_store w') = (if h \<in> fst ` held (w_store w) then held (w_store w)
         else insert (h, Some b) (held (w_store w)))"
proof (cases "w_index w h")
  case (Some loc)
  then have "cs_put_delta S (w_index w) (w_store w) h b frame l = (Inr loc, w_store w)" for l
    using inv put_delta_known [of "Suc n" "w_store w" "w_index w" h loc b frame l]
    by (simp add: writer_inv_def)
  moreover have "h \<in> fst ` held (w_store w)" using Some inv by (auto simp: writer_inv_def)
  moreover have "w' = w"
    using st env calculation(1) Some by (simp add: store_delta_def insert_loc_def map_upd_triv)
  ultimately show ?thesis using writer_inv_mono [OF inv] by simp
next
  case None
  then have new: "\<forall>k. (h, k) \<notin> held (w_store w)"
    using inv by (force simp: writer_inv_def)
  from st env obtain loc s' where
    put: "cs_put_delta S (w_index w) (w_store w) h b frame (of_nat (length d)) = (Inr loc, s')"
    and w': "w' = w\<lparr>w_store := s', w_index := (w_index w)(h \<mapsto> loc)\<rparr>"
    by (auto simp: store_delta_def insert_loc_def split: prod.splits sum.splits)
  have len: "unat (of_nat (length d) :: u32) = length d"
    by (rule unat_of_nat_u32) (use c in \<open>simp add: chunk_ok_def\<close>)
  from put_delta_new [of n "w_store w" "w_index w" h b frame "of_nat (length d)" loc s']
    None new small put c inv b dec len
  have "ready n s' \<and> held s' = insert (h, Some b) (held (w_store w))"
    by (simp add: chunk_ok_def writer_inv_def fulls_def)
  with w' inv new show ?thesis by (force simp: writer_inv_def)
qed

lemma attach_ok:
  assumes "en_ops env = S" and "ready n s"
  shows "ready n (attach_signature env h d s) \<and> held (attach_signature env h d s) = held s"
proof -
  have "ready n (snd (cs_put_signature S s h sg)) \<and> held (snd (cs_put_signature S s h sg)) = held s" for sg
    using sign_ok [OF assms(2)] by (metis prod.collapse)
  with assms show ?thesis by (simp add: attach_signature_def split: option.split)
qed

text \<open>Handling the head of a queue in order leaves the rest in order.\<close>

lemma finish_message_Inr:
  "finish_message env h d r = (Inr (), w') \<Longrightarrow> \<exists>w1. r = (Inr (), w1)
     \<and> w_store w' = attach_signature env h d (w_store w1) \<and> w_index w' = w_index w1"
  by (auto simp: finish_message_def split: prod.splits sum.splits)

lemma then_count_Inr:
  "then_count r f = (Inr (), w') \<Longrightarrow> \<exists>w1. r = (Inr (), w1)
     \<and> w_store w' = w_store w1 \<and> w_index w' = w_index w1"
  by (auto simp: then_count_def split: prod.splits sum.splits)

lemma store_near_ok:
  assumes env: "en_ops env = S" "en_libs env = L" and Z: "zstd_ok (lib_zstd L)" "zstd_bounded (lib_zstd L)"
    and inv0: "writer_inv (Suc n) w0" and c: "chunk_ok L V h d" and b0: "b \<in> fulls (held (w_store w0))"
    and st0: "store_near_duplicate env h d b w0 = (Inr (), w')"
  shows "writer_inv n w' \<and> fst ` held (w_store w') = insert h (fst ` held (w_store w0))
    \<and> fulls (held (w_store w0)) \<subseteq> fulls (held (w_store w'))"
proof -
  obtain r s where get0: "cs_get S (w_index w0) (w_store w0) b = (r, s)" by force
  define w where "w = w0\<lparr>w_store := s\<rparr>"
  have g: "r = Inr (V b) \<and> ready (Suc n) s \<and> held s = held (w_store w0)"
    using get_full [OF _ _ get0, of "Suc n"] inv0 b0 by (simp add: writer_inv_def fulls_def)
  then have inv: "writer_inv (Suc n) w" and same: "held (w_store w) = held (w_store w0)"
    and b: "b \<in> fulls (held (w_store w))"
    using inv0 b0 by (simp_all add: writer_inv_def w_def)
  have get: "cs_get S (w_index w0) (w_store w0) b = (Inr (V b), s)" using get0 g by simp
  have st: "(case try_encode (lib_zstd L) (en_level env) (V b) d of
      Inl e \<Rightarrow> (Inl e, w)
    | Inr (Some frame) \<Rightarrow> then_count (store_delta env h b frame d w) (count_delta d frame)
    | Inr None \<Rightarrow> then_count (store_chunk env h d w) count_fallback) = (Inr (), w')"
    using st0 get env unfolding w_def by (simp add: store_near_duplicate_def Let_def)
  obtain e where e: "try_encode (lib_zstd L) (en_level env) (V b) d = Inr e"
    using st by (cases "try_encode (lib_zstd L) (en_level env) (V b) d") auto
  show ?thesis unfolding same [symmetric]
  proof (cases e)
    case None
    then obtain w1 where w1: "store_chunk env h d w = (Inr (), w1)" "w_store w' = w_store w1"
      "w_index w' = w_index w1"
      using st e by (auto dest!: then_count_Inr)
    from store_chunk_ok [OF env(1) inv c w1(1)] w1
    show "writer_inv n w' \<and> fst ` held (w_store w') = insert h (fst ` held (w_store w))
      \<and> fulls (held (w_store w)) \<subseteq> fulls (held (w_store w'))"
      by (auto simp: writer_inv_def fulls_def)
  next
    case (Some frame)
    then have enc: "try_encode (lib_zstd L) (en_level env) (V b) d = Inr (Some frame)" using e by simp
    obtain w1 where w1: "store_delta env h b frame d w = (Inr (), w1)" "w_store w' = w_store w1"
      "w_index w' = w_index w1"
      using st enc by (auto dest!: then_count_Inr)
    have "length frame \<le> 2 ^ 20" using try_encode_short [OF Z(2) enc] c by (simp add: chunk_ok_def)
    moreover have "z_decompress_dict (lib_zstd L) (V b) frame (length d) = Some (V h)"
      using zstd_okD(4) [OF Z(1)] try_encode_Some [OF enc] c by (auto simp: chunk_ok_def)
    ultimately have "writer_inv n w1 \<and> w_out w1 = w_out w
      \<and> held (w_store w1) = (if h \<in> fst ` held (w_store w) then held (w_store w)
           else insert (h, Some b) (held (w_store w)))"
      using store_delta_ok [OF env(1) inv c b _ _ w1(1)] by blast
    with w1 show "writer_inv n w' \<and> fst ` held (w_store w') = insert h (fst ` held (w_store w))
      \<and> fulls (held (w_store w)) \<subseteq> fulls (held (w_store w'))" by (auto simp: writer_inv_def fulls_def)
  qed
qed

lemma handle_message_ok:
  assumes env: "en_ops env = S" "en_libs env = L" and Z: "zstd_ok (lib_zstd L)" "zstd_bounded (lib_zstd L)"
    and inv: "writer_inv (Suc n) w"
    and q: "q_ok L V (fst ` held (w_store w)) (fulls (held (w_store w))) [m]"
    and st: "handle_message env m w = (Inr (), w')"
  shows "writer_inv n w' \<and> fst ` held (w_store w') = q_all (fst ` held (w_store w)) [m]
    \<and> q_full (fst ` held (w_store w)) (fulls (held (w_store w))) [m] \<subseteq> fulls (held (w_store w'))"
proof (cases m)
  case (Store h d)
  then obtain w1 where w1: "store_chunk env h d w = (Inr (), w1)"
    "w_store w' = attach_signature env h d (w_store w1)" "w_index w' = w_index w1"
    using st by (auto simp: handle_message_def dest: finish_message_Inr)
  from store_chunk_ok [OF env(1) inv _ w1(1)] q Store
  have "writer_inv n w1 \<and> held (w_store w1) = (if h \<in> fst ` held (w_store w) then held (w_store w)
         else insert (h, None) (held (w_store w)))" by simp
  with w1 attach_ok [OF env(1), of n "w_store w1" h d] Store show ?thesis
    by (auto simp: writer_inv_def fulls_def)
next
  case (StoreNearDuplicate h d b t)
  then obtain w1 where w1: "store_near_duplicate env h d b w = (Inr (), w1)"
    "w_store w' = attach_signature env h d (w_store w1)" "w_index w' = w_index w1"
    using st by (auto simp: handle_message_def dest: finish_message_Inr)
  from store_near_ok [OF env Z inv _ _ w1(1)] q StoreNearDuplicate
  have "writer_inv n w1 \<and> fst ` held (w_store w1) = insert h (fst ` held (w_store w))
    \<and> fulls (held (w_store w)) \<subseteq> fulls (held (w_store w1))" by simp
  with w1 attach_ok [OF env(1), of n "w_store w1" h d] StoreNearDuplicate show ?thesis
    by (simp add: writer_inv_def)
next
  case (Skip h)
  then have "w_store w' = w_store w" "w_index w' = w_index w"
    using st by (auto simp: handle_message_def)
  then show ?thesis using Skip writer_inv_mono [OF inv] by (simp add: writer_inv_def)
qed

end

section \<open>The producer\<close>

text \<open>What the stage remembers agrees with what the queue will make of the store.\<close>

definition stage_inv ::
    "(bytes \<Rightarrow> u64) \<Rightarrow> nat \<Rightarrow> hash set \<Rightarrow> hash set \<Rightarrow> writer_message list \<Rightarrow> similarity_stage option \<Rightarrow> bool" where
  "stage_inv xxh3 n A F q stage \<longleftrightarrow>
     (case stage of None \<Rightarrow> True
      | Some st \<Rightarrow> stage_ok st \<and> stage_roomy n st \<and> stage_live st \<subseteq> q_full A F q
          \<and> (\<forall>h d b t. StoreNearDuplicate h d b t \<in> set q \<longrightarrow> stage_near xxh3 st h d))"

lemma q_ok_near: "q_ok L V A F q \<Longrightarrow> StoreNearDuplicate h d b t \<in> set q \<Longrightarrow> chunk_ok L V h d"
  by (induction L V A F q rule: q_ok.induct) (auto split: if_splits)

lemma q_full_sub_all: "F \<subseteq> A \<Longrightarrow> q_full A F q \<subseteq> q_all A q"
proof (induction A F q rule: q_full.induct)
  case (2 A F h d q)
  have "(if h \<in> A then F else insert h F) \<subseteq> insert h A" using "2.prems" by auto
  with "2.IH" show ?case by simp
next
  case (3 A F h d b t q)
  have "F \<subseteq> insert h A" using "3.prems" by auto
  with "3.IH" show ?case by simp
qed auto

lemma stage_roomy_mono: "stage_roomy (Suc n) st \<Longrightarrow> stage_roomy n st"
  unfolding stage_roomy_def by fastforce

lemma classify_ok:
  assumes c: "chunk_ok L V h d" and A: "dom (w_index (sy_writer sy)) = A" and q: "q_ok L V A F q"
    and st: "stage_inv (en_xxh3 env) (Suc n) A F q (sy_stage sy)"
    and cl: "classify env sy h d len = (m, stage', stats')"
  shows "q_ok L V A F (q @ [m]) \<and> stage_inv (en_xxh3 env) n A F (q @ [m]) stage'
    \<and> h \<in> q_all A (q @ [m])"
proof (cases "w_index (sy_writer sy) h")
  case (Some loc)
  with cl have m: "m = Skip h" "stage' = sy_stage sy" by (auto simp: classify_def Let_def)
  have "h \<in> q_all A q" using Some A q_all_subset [of A q] by blast
  moreover have "stage_inv (en_xxh3 env) n A F (q @ [m]) stage'"
    using st stage_roomy_mono by (auto simp: stage_inv_def m split: option.splits)
  ultimately show ?thesis using q by (simp add: m)
next
  case unknown: None
  then have new: "h \<notin> A" using A by blast
  show ?thesis
  proof (cases "sy_stage sy")
    case None
    with cl unknown have "m = Store h d" "stage' = None" by (auto simp: classify_def Let_def)
    with q c show ?thesis by (simp add: stage_inv_def)
  next
    case (Some stage)
    have inv: "stage_ok stage" "stage_roomy (Suc n) stage" "stage_live stage \<subseteq> q_full A F q"
      "\<forall>h d b t. StoreNearDuplicate h d b t \<in> set q \<longrightarrow> stage_near (en_xxh3 env) stage h d"
      using st Some by (simp_all add: stage_inv_def)
    obtain outcome stage1 where p: "stage_process (en_xxh3 env) stage h d = (outcome, stage1)" by force
    note k = stage_process_keeps [OF inv(1,2) p]
    have wf: "stage_wf stage" using inv(1) by (simp add: stage_ok_def)
    note sp = stage_process_spec [OF wf p]
    have near: "\<forall>h d b t. StoreNearDuplicate h d b t \<in> set q \<longrightarrow> stage_near (en_xxh3 env) stage1 h d"
      using inv(4) k by blast
    show ?thesis
    proof (cases outcome)
      case (NearDuplicate h' d' b t)
      with sp have e: "h' = h" "d' = d" "b \<in> stage_live stage" "stage_live stage1 = stage_live stage" by auto
      with cl unknown Some p NearDuplicate have m: "m = StoreNearDuplicate h d b t" "stage' = Some stage1"
        by (auto simp: classify_def Let_def)
      have "stage_near (en_xxh3 env) stage1 h d" using k NearDuplicate by (simp add: is_near_def)
      with m e near inv(3) k q c show ?thesis by (auto simp: stage_inv_def)
    next
      case (TooSmall h' d')
      with sp have e: "h' = h" "d' = d" "stage1 = stage" by auto
      with cl unknown Some p TooSmall have m: "m = Store h d" "stage' = Some stage"
        by (auto simp: classify_def Let_def)
      with e near inv(1,3) k q c show ?thesis by (auto simp: stage_inv_def)
    next
      case (Unique h' d')
      with sp have e: "h' = h" "d' = d" "stage_live stage1 \<subseteq> insert h (stage_live stage)" by auto
      with cl unknown Some p Unique have m: "m = Store h d" "stage' = Some stage1"
        by (auto simp: classify_def Let_def)
      have "\<not> stage_near (en_xxh3 env) stage h d" using k Unique by (simp add: is_near_def)
      moreover have "\<exists>d' b t. StoreNearDuplicate h d' b t \<in> set q"
        if "h \<in> q_all A q" "h \<notin> q_full A F q" using q_near [OF that new] .
      ultimately have "h \<in> q_all A q \<Longrightarrow> h \<in> q_full A F q"
        using inv(4) q_ok_near [OF q] c by (metis chunk_ok_def)
      with m e near inv(3) k q c show ?thesis by (auto simp: stage_inv_def)
    qed
  qed
qed

section \<open>The invariant of the system\<close>

definition queue :: "'s system \<Rightarrow> writer_message list" where
  "queue sy = sy_channel sy @ (case sy_outgoing sy of None \<Rightarrow> [] | Some m \<Rightarrow> [m])"

fun item_hash :: "libs \<Rightarrow> stream_item \<Rightarrow> hash" where
  "item_hash L (Chunk_Data offset len d) = Hash (lib_blake3 L d)"
| "item_hash L (Stream_Error m) = Hash []"

fun item_data :: "stream_item \<Rightarrow> bytes" where
  "item_data (Chunk_Data offset len d) = d"
| "item_data (Stream_Error m) = []"

fun is_chunk :: "stream_item \<Rightarrow> bool" where
  "is_chunk (Chunk_Data offset len d) = True"
| "is_chunk (Stream_Error m) = False"

definition items_ok :: "libs \<Rightarrow> (hash \<Rightarrow> bytes) \<Rightarrow> stream_item list \<Rightarrow> bool" where
  "items_ok L V items \<longleftrightarrow> (\<forall>x \<in> set items. is_chunk x \<longrightarrow> chunk_ok L V (item_hash L x) (item_data x))"

context content_store_contract
begin

definition live_inv :: "'s env \<Rightarrow> 's system \<Rightarrow> bool" where
  "live_inv env sy \<longleftrightarrow>
     (let w = sy_writer sy; K = held (w_store w); q = queue sy
      in writer_inv (length (sy_items sy) + length q + 1) w
       \<and> q_ok L V (fst ` K) (fulls K) q
       \<and> stage_inv (en_xxh3 env) (length (sy_items sy)) (fst ` K) (fulls K) q (sy_stage sy)
       \<and> set (sy_chunk_hashes sy) \<subseteq> q_all (fst ` K) q)"

definition sys_inv :: "'s env \<Rightarrow> stream_item list \<Rightarrow> 's system \<Rightarrow> bool" where
  "sys_inv env items0 sy \<longleftrightarrow>
     (\<exists>past. items0 = past @ sy_items sy \<and> (\<forall>x \<in> set past. is_chunk x)
        \<and> sy_chunk_hashes sy = map (item_hash L) past)
   \<and> items_ok L V (sy_items sy)
   \<and> (sy_writer_result sy = None \<longrightarrow> live_inv env sy)
   \<and> (sy_writer_result sy = Some (Inr ()) \<longrightarrow> settled (w_store (sy_writer sy))
        \<and> writer_inv 0 (sy_writer sy) \<and> \<not> sy_open sy
        \<and> set (sy_chunk_hashes sy) \<subseteq> fst ` held (w_store (sy_writer sy)))
   \<and> (\<not> sy_open sy \<longrightarrow> sy_outgoing sy = None \<and> (sy_result sy = None \<longrightarrow> sy_items sy = []))
   \<and> (\<forall>stats. sy_result sy = Some (Inr stats) \<longrightarrow> sy_writer_result sy = Some (Inr ())
        \<and> \<not> sy_open sy \<and> sy_items sy = [] \<and> bs_chunk_hashes stats = sy_chunk_hashes sy)"

lemma queue_simps [simp]:
  "sy_outgoing sy = None \<Longrightarrow> queue sy = sy_channel sy"
  "sy_outgoing sy = Some m \<Longrightarrow> queue sy = sy_channel sy @ [m]"
  by (simp_all add: queue_def)

lemma prepare_live:
  assumes env: "en_libs env = L" and inv: "live_inv env sy" and out: "sy_outgoing sy = None"
    and items: "sy_items sy = Chunk_Data offset len d # items"
    and c: "chunk_ok L V (Hash (lib_blake3 L d)) d"
  shows "live_inv env (prepare_chunk env sy offset len d items)"
proof -
  let ?h = "Hash (lib_blake3 L d)" and ?K = "held (w_store (sy_writer sy))"
  obtain m stage stats where cl: "classify env sy ?h d (ucast (of_nat len :: u32)) = (m, stage, stats)"
    by (metis prod_cases3)
  have i: "writer_inv (length (sy_items sy) + length (queue sy) + 1) (sy_writer sy)"
    "q_ok L V (fst ` ?K) (fulls ?K) (queue sy)"
    "stage_inv (en_xxh3 env) (Suc (length items)) (fst ` ?K) (fulls ?K) (queue sy) (sy_stage sy)"
    "set (sy_chunk_hashes sy) \<subseteq> q_all (fst ` ?K) (queue sy)"
    using inv items by (simp_all add: live_inv_def Let_def)
  have dom: "dom (w_index (sy_writer sy)) = fst ` ?K" using i(1) by (simp add: writer_inv_def)
  note co = classify_ok [OF c dom i(2,3) cl]
  have new: "prepare_chunk env sy offset len d items = sy\<lparr>sy_items := items,
      sy_total_chunks := sy_total_chunks sy + 1, sy_chunk_hashes := sy_chunk_hashes sy @ [?h],
      sy_stage := stage, sy_stats := stats, sy_outgoing := Some m\<rparr>"
    using cl env by (simp add: prepare_chunk_def Let_def)
  have "q_all (fst ` ?K) (queue sy) \<subseteq> q_all (fst ` ?K) (queue sy @ [m])"
    using q_all_subset [of "q_all (fst ` ?K) (queue sy)" "[m]"] by simp
  then show ?thesis
    using co i(1,4) items out by (auto simp: live_inv_def Let_def new queue_def)
qed

lemma receive_live:
  assumes env: "en_ops env = S" "en_libs env = L" and Z: "zstd_ok (lib_zstd L)" "zstd_bounded (lib_zstd L)"
    and inv: "live_inv env sy" and ch: "sy_channel sy = m # q"
    and h: "handle_message env m (sy_writer sy) = (Inr (), w')"
  shows "live_inv env (sy\<lparr>sy_channel := q, sy_writer := w'\<rparr>)"
proof -
  let ?K = "held (w_store (sy_writer sy))" and ?K' = "held (w_store w')"
  let ?sy = "sy\<lparr>sy_channel := q, sy_writer := w'\<rparr>"
  have qs: "queue sy = [m] @ queue ?sy" by (simp add: queue_def ch)
  have i: "writer_inv (Suc (length (sy_items sy) + length (queue ?sy) + 1)) (sy_writer sy)"
    "q_ok L V (fst ` ?K) (fulls ?K) ([m] @ queue ?sy)"
    "stage_inv (en_xxh3 env) (length (sy_items sy)) (fst ` ?K) (fulls ?K) ([m] @ queue ?sy) (sy_stage sy)"
    "set (sy_chunk_hashes sy) \<subseteq> q_all (fst ` ?K) ([m] @ queue ?sy)"
    using inv by (simp_all only: live_inv_def Let_def qs length_append list.size) simp_all
  have "q_ok L V (fst ` ?K) (fulls ?K) [m]" using i(2) by (simp only: q_append)
  note hm = handle_message_ok [OF env Z i(1) this h]
  have full: "q_full (fst ` ?K) (fulls ?K) [m] \<subseteq> fulls ?K'" and all: "q_all (fst ` ?K) [m] = fst ` ?K'"
    using hm by auto
  have "q_ok L V (fst ` ?K') (fulls ?K') (queue ?sy)"
    using i(2) q_mono [OF full] all by (simp only: q_append)
  moreover have "q_full (fst ` ?K) (fulls ?K) ([m] @ queue ?sy) \<subseteq> q_full (fst ` ?K') (fulls ?K') (queue ?sy)"
    using q_full_mono [OF full] all by (simp only: q_append)
  then have "stage_inv (en_xxh3 env) (length (sy_items sy)) (fst ` ?K') (fulls ?K') (queue ?sy) (sy_stage sy)"
    using i(3) by (auto simp: stage_inv_def split: option.splits)
  moreover have "q_all (fst ` ?K) ([m] @ queue ?sy) = q_all (fst ` ?K') (queue ?sy)"
    using all by (simp only: q_append)
  ultimately show ?thesis using hm i(4) by (simp add: live_inv_def Let_def)
qed

lemma sys_inv_step:
  assumes env: "en_ops env = S" "en_libs env = L" and Z: "zstd_ok (lib_zstd L)" "zstd_bounded (lib_zstd L)"
    and st: "step env sy sy'" and inv: "sys_inv env items0 sy"
  shows "sys_inv env items0 sy'"
  using st
proof cases
  case (prepare offset len d items)
  have "Chunk_Data offset len d \<in> set (sy_items sy)" using prepare by simp
  with inv have c: "chunk_ok L V (Hash (lib_blake3 L d)) d"
    by (fastforce simp: sys_inv_def items_ok_def)
  have "sy_writer_result sy = None \<Longrightarrow> live_inv env (prepare_chunk env sy offset len d items)"
    using prepare_live [OF env(2) _ prepare(4,5) c] inv by (simp add: sys_inv_def)
  moreover obtain past where "items0 = past @ Chunk_Data offset len d # items"
    "\<forall>x \<in> set past. is_chunk x" "sy_chunk_hashes sy = map (item_hash L) past"
    using inv prepare(5) by (auto simp: sys_inv_def)
  then have "\<exists>past. items0 = past @ items \<and> (\<forall>x \<in> set past. is_chunk x)
      \<and> sy_chunk_hashes sy @ [Hash (lib_blake3 L d)] = map (item_hash L) past"
    by (intro exI [of _ "past @ [Chunk_Data offset len d]"]) auto
  ultimately show ?thesis
    using inv prepare env(2)
    by (auto simp: sys_inv_def prepare_chunk_def Let_def items_ok_def split: prod.splits)
next
  case (receive m q)
  obtain r w' where h: "handle_message env m (sy_writer sy) = (r, w')" by force
  show ?thesis
  proof (cases r)
    case (Inl e)
    with inv receive h show ?thesis by (auto simp: sys_inv_def after_message_def)
  next
    case (Inr u)
    with h have h': "handle_message env m (sy_writer sy) = (Inr (), w')" by simp
    have "live_inv env (sy\<lparr>sy_channel := q, sy_writer := w'\<rparr>)"
      using receive_live [OF env Z _ receive(3) h'] inv receive(2) by (simp add: sys_inv_def)
    with inv receive h' show ?thesis by (auto simp: sys_inv_def after_message_def)
  qed
next
  case writer_flush
  obtain r s' where f: "cs_flush (en_ops env) (w_store (sy_writer sy)) = (r, s')" by force
  show ?thesis
  proof (cases r)
    case (Inl e)
    with inv writer_flush f show ?thesis by (auto simp: sys_inv_def after_flush_def)
  next
    case (Inr u)
    have live: "live_inv env sy" using inv writer_flush by (simp add: sys_inv_def)
    have q: "queue sy = []" using inv writer_flush by (simp add: sys_inv_def)
    have rdy: "ready (Suc (length (sy_items sy))) (w_store (sy_writer sy))"
      and sub: "set (sy_chunk_hashes sy) \<subseteq> fst ` held (w_store (sy_writer sy))"
      using live by (simp_all add: live_inv_def Let_def q writer_inv_def)
    have "ready n s \<Longrightarrow> ready 0 s" for n s by (induction n) (auto dest: ready_mono)
    with flush_ok [OF rdy] f Inr env have "ready 0 s' \<and> settled s' \<and> held s' = held (w_store (sy_writer sy))"
      by auto
    moreover have "dom (w_index (sy_writer sy)) = fst ` held (w_store (sy_writer sy))"
      using live by (simp add: live_inv_def Let_def writer_inv_def)
    ultimately show ?thesis
      using inv writer_flush f Inr sub by (auto simp: sys_inv_def after_flush_def writer_inv_def)
  qed
next
  case (send m)
  have "live_inv env (sy\<lparr>sy_channel := sy_channel sy @ [m], sy_outgoing := None\<rparr>) = live_inv env sy"
    using send by (simp add: live_inv_def Let_def queue_def)
  with inv send show ?thesis by (auto simp: sys_inv_def)
next
  case close_sender
  have "live_inv env (sy\<lparr>sy_open := False\<rparr>) = live_inv env sy"
    by (simp add: live_inv_def Let_def queue_def)
  with inv close_sender show ?thesis by (auto simp: sys_inv_def)
next
  case (stream_error m items)
  have "live_inv env (sy\<lparr>sy_open := False, sy_result := x\<rparr>) = live_inv env sy" for x
    by (simp add: live_inv_def Let_def queue_def)
  with inv stream_error show ?thesis by (auto simp: sys_inv_def)
next
  case (send_fails m)
  with inv show ?thesis by (auto simp: sys_inv_def)
next
  case (join r)
  have "live_inv env (sy\<lparr>sy_result := x\<rparr>) = live_inv env sy" for x
    by (simp add: live_inv_def Let_def queue_def)
  with inv join show ?thesis
    by (auto simp: sys_inv_def join_result_def final_stats_def Let_def split: sum.splits failure.splits)
qed

lemma sys_inv_init:
  assumes ready: "ready (length items + 1) s" and dom: "dom ix = fst ` held s"
    and items: "items_ok L V items"
    and stage: "case stage of None \<Rightarrow> True | Some st \<Rightarrow> stage_ok st
      \<and> stage_roomy (length items) st \<and> stage_live st = {}"
  shows "sys_inv env items (system_init file_size items stage ix s)"
  using assms
  by (auto simp: sys_inv_def live_inv_def Let_def queue_def writer_inv_def stage_inv_def
      system_init_def split: option.splits)

lemma run_correct:
  assumes env: "en_ops env = S" "en_libs env = L" and Z: "zstd_ok (lib_zstd L)" "zstd_bounded (lib_zstd L)"
    and run: "(step env)\<^sup>*\<^sup>* sy sy'" and inv: "sys_inv env items sy"
    and res: "sy_result sy' = Some (Inr stats)"
  shows "settled (w_store (sy_writer sy')) \<and> (\<forall>x \<in> set items. is_chunk x)
    \<and> writer_inv 0 (sy_writer sy') \<and> set (bs_chunk_hashes stats) \<subseteq> fst ` held (w_store (sy_writer sy'))
    \<and> map (\<lambda>h. fst (cs_get S ix (w_store (sy_writer sy')) h)) (bs_chunk_hashes stats) = map (Inr \<circ> item_data) items"
proof -
  have inv': "sys_inv env items sy'"
    using run inv by (induction rule: rtranclp_induct) (auto intro: sys_inv_step [OF env Z])
  let ?s = "w_store (sy_writer sy')"
  have fin: "settled ?s" "writer_inv 0 (sy_writer sy')" "set (sy_chunk_hashes sy') \<subseteq> fst ` held ?s"
    "bs_chunk_hashes stats = sy_chunk_hashes sy'" "\<forall>x \<in> set items. is_chunk x"
    "sy_chunk_hashes sy' = map (item_hash L) items"
    using inv' res by (auto simp: sys_inv_def)
  have rdy: "ready 0 ?s" using fin(2) by (simp add: writer_inv_def)
  have g: "fst (cs_get S ix ?s (item_hash L x)) = Inr (item_data x)" if x: "x \<in> set items" for x
  proof -
    obtain k where k: "(item_hash L x, k) \<in> held ?s" using fin(3,6) x by force
    obtain offset len d where d: "x = Chunk_Data offset len d" using fin(5) x by (cases x) auto
    have "genuine L V (item_hash L x)" using held_genuine [OF rdy k] .
    then have "V (item_hash L x) = d" unfolding genuine_def d item_hash.simps by metis
    with get_settled [OF rdy fin(1) k, of ix] show ?thesis
      by (cases "cs_get S ix ?s (item_hash L x)") (simp add: d)
  qed
  have "map (\<lambda>h. fst (cs_get S ix ?s h)) (bs_chunk_hashes stats) = map (Inr \<circ> item_data) items"
    unfolding fin(4,6) map_map by (rule map_cong) (simp_all add: g)
  with fin(1-5) show ?thesis by (metis (no_types, lifting))
qed

end

end
