(* ===== verification/Backup_Runs.thy ===== *)
theory Backup_Runs
  imports Pipeline
begin

text \<open>
  Runs of the backup pipeline. Each thread is deterministic: \<open>producer_step\<close> and \<open>writer_step\<close> are
  their executable steps, and the relation \<open>step\<close> interleaves exactly these two (\<open>step_threads\<close>). On them rest the termination of every run, the statistics it returns and, with the
  contract of the store, the correctness of the backup.
\<close>

section \<open>The threads\<close>

definition producer_step :: "'s env \<Rightarrow> 's system \<Rightarrow> 's system option" where
  "producer_step env sy =
     (if sy_result sy \<noteq> None then None
      else (case sy_outgoing sy of
        Some msg \<Rightarrow>
          if sy_writer_result sy \<noteq> None
          then Some (sy\<lparr>sy_open := False, sy_outgoing := None,
                 sy_result := Some (Inl (Err (Pipeline ''writer thread exited prematurely'')))\<rparr>)
          else if length (sy_channel sy) < CHANNEL_BOUND
          then Some (sy\<lparr>sy_channel := sy_channel sy @ [msg], sy_outgoing := None\<rparr>)
          else None
      | None \<Rightarrow>
          if sy_open sy
          then (case sy_items sy of
            [] \<Rightarrow> Some (sy\<lparr>sy_open := False\<rparr>)
          | Chunk_Data offset len data # items \<Rightarrow> Some (prepare_chunk env sy offset len data items)
          | Stream_Error m # items \<Rightarrow>
              Some (sy\<lparr>sy_open := False, sy_result := Some (Inl (Err (Pipeline ''StreamCDC error'')))\<rparr>))
          else map_option (\<lambda>r. sy\<lparr>sy_result := Some (join_result sy r)\<rparr>) (sy_writer_result sy)))"

definition writer_step :: "'s env \<Rightarrow> 's system \<Rightarrow> 's system option" where
  "writer_step env sy =
     (if sy_writer_result sy \<noteq> None then None
      else (case sy_channel sy of
        msg # q \<Rightarrow> Some (after_message sy q (handle_message env msg (sy_writer sy)))
      | [] \<Rightarrow> if sy_open sy then None
              else Some (after_flush sy (cs_flush (en_ops env) (w_store (sy_writer sy))))))"

lemma producer_step_sound: "producer_step env sy = Some sy' \<Longrightarrow> step env sy sy'"
  by (auto simp: producer_step_def intro: step.intros
      split: if_splits option.splits list.splits stream_item.splits)

lemma writer_step_sound: "writer_step env sy = Some sy' \<Longrightarrow> step env sy sy'"
  by (auto simp: writer_step_def intro: step.intros split: if_splits list.splits)

lemma step_threads: "step env sy sy' \<Longrightarrow> producer_step env sy = Some sy' \<or> writer_step env sy = Some sy'"
  by (induction rule: step.induct) (auto simp: producer_step_def writer_step_def)

text \<open>A schedule names the thread that moves; it is executable.\<close>

datatype thread = Producer | Writer

fun run_schedule :: "'s env \<Rightarrow> thread list \<Rightarrow> 's system \<Rightarrow> 's system option" where
  "run_schedule env [] sy = Some sy"
| "run_schedule env (t # ts) sy =
     Option.bind (case t of Producer \<Rightarrow> producer_step env sy | Writer \<Rightarrow> writer_step env sy)
       (run_schedule env ts)"

lemma run_schedule_length: "run_schedule env ts sy = Some sy' \<Longrightarrow> (step env ^^ length ts) sy sy'"
  by (induction ts arbitrary: sy)
    (auto simp: bind_eq_Some_conv simp del: relpowp.simps dest!: producer_step_sound writer_step_sound
      intro: relpowp_Suc_I2 relpowp_0_I split: thread.splits)

lemma run_schedule_steps: "run_schedule env ts sy = Some sy' \<Longrightarrow> (step env)\<^sup>*\<^sup>* sy sy'"
  by (rule relpowp_imp_rtranclp [OF run_schedule_length])

section \<open>Progress\<close>

text \<open>The work left. Every step reduces it.\<close>

definition remaining :: "'s system \<Rightarrow> nat" where
  "remaining sy = 3 * length (sy_items sy) + (if sy_outgoing sy = None then 0 else 2)
     + length (sy_channel sy) + (if sy_open sy then 1 else 0)
     + (if sy_writer_result sy = None then 1 else 0) + (if sy_result sy = None then 1 else 0)"

lemma step_remaining:
  assumes "step env sy sy'"
  shows "remaining sy' < remaining sy"
  using assms
  by cases (auto simp: remaining_def prepare_chunk_def after_message_def after_flush_def Let_def
      split: prod.splits sum.splits)

definition shut :: "'s system \<Rightarrow> bool" where
  "shut sy \<longleftrightarrow> length (sy_channel sy) \<le> CHANNEL_BOUND
     \<and> (sy_result sy \<noteq> None \<longrightarrow> \<not> sy_open sy)
     \<and> (\<not> sy_open sy \<longrightarrow> sy_outgoing sy = None)"

lemma shut_step:
  assumes "step env sy sy'" and "shut sy"
  shows "shut sy'"
  using assms
  by cases (auto simp: shut_def prepare_chunk_def after_message_def after_flush_def Let_def
      split: prod.splits sum.splits)

lemma stuck_finished:
  assumes "shut sy" and "\<forall>sy'. \<not> step env sy sy'"
  shows "sy_result sy \<noteq> None \<and> sy_writer_result sy \<noteq> None"
proof -
  have p: "producer_step env sy = None" and w: "writer_step env sy = None"
    using assms(2) producer_step_sound writer_step_sound by (metis not_Some_eq)+
  show ?thesis
    using p w assms(1)
    by (auto simp: producer_step_def writer_step_def shut_def CHANNEL_BOUND_def
        split: if_splits option.splits list.splits stream_item.splits)
qed

text \<open>From every state some schedule leads to a result.\<close>

lemma run_schedule_append:
  "run_schedule env (ts @ us) sy = Option.bind (run_schedule env ts sy) (run_schedule env us)"
  by (induction ts arbitrary: sy) (auto split: thread.split Option.bind_split)

lemma finishing_schedule:
  "shut sy \<Longrightarrow> \<exists>ts sy' r. run_schedule env ts sy = Some sy' \<and> sy_result sy' = Some r"
proof (induction "remaining sy" arbitrary: sy rule: less_induct)
  case less
  show ?case
  proof (cases "\<exists>sy1. step env sy sy1")
    case True
    then obtain sy1 where st: "step env sy sy1" by blast
    then obtain t where t: "run_schedule env [t] sy = Some sy1"
      using step_threads [OF st] by (metis bind.bind_lunit run_schedule.simps thread.simps(3,4))
    from less(1) [OF step_remaining [OF st] shut_step [OF st less(2)]] obtain ts sy' r where
      "run_schedule env ts sy1 = Some sy'" "sy_result sy' = Some r" by blast
    with t run_schedule_append [of env "[t]" ts sy] show ?thesis by (metis bind.bind_lunit)
  next
    case False
    then have "sy_result sy \<noteq> None" using stuck_finished [OF less(2)] by blast
    then show ?thesis by (intro exI [of _ "[]"]) auto
  qed
qed

lemma shut_init: "shut (system_init fs items stage ix s)"
  by (simp add: shut_def system_init_def CHANNEL_BOUND_def)

section \<open>Counting\<close>

definition near_count :: "writer_message list \<Rightarrow> u64" where
  "near_count q = of_nat (length (filter (\<lambda>m. case m of StoreNearDuplicate h d b t \<Rightarrow> True | _ \<Rightarrow> False) q))"

definition handled :: "writer_output \<Rightarrow> u64" where
  "handled out = wo_dedup_count out + wo_stored_count out"

definition near_handled :: "writer_output \<Rightarrow> u64" where
  "near_handled out = wo_delta_compressed_chunks out + wo_delta_fallbacks out"

lemma near_count_simps [simp]:
  "near_count [] = 0"
  "near_count (Store h d # q) = near_count q"
  "near_count (StoreNearDuplicate h d b t # q) = 1 + near_count q"
  "near_count (Skip h # q) = near_count q"
  "near_count (p @ q) = near_count p + near_count q"
  by (simp_all add: near_count_def)

lemma handle_message_counts:
  assumes "handle_message env m w = (Inr (), w')"
  shows "handled (w_out w') = handled (w_out w) + 1
    \<and> near_handled (w_out w') = near_handled (w_out w) + near_count [m]"
  using assms
  by (auto simp: handle_message_def finish_message_def store_near_duplicate_def then_count_def
      store_chunk_def store_delta_def insert_loc_def count_delta_def count_fallback_def
      handled_def near_handled_def Let_def
      split: writer_message.splits prod.splits sum.splits option.splits failure.splits)

lemma classify_counts:
  assumes "classify env sy h d n = (m, stage, stats)"
  shows "bs_near_duplicate_chunks stats = bs_near_duplicate_chunks (sy_stats sy) + near_count [m]
    \<and> bs_source_size stats = bs_source_size (sy_stats sy)"
  using assms
  by (auto simp: classify_def Let_def split: if_splits option.splits prod.splits similarity_outcome.splits)

text \<open>
  What holds of the counters in every reachable state, whatever the store does, as long as the
  writer has not failed.
\<close>

definition counts_inv :: "'s env \<Rightarrow> u64 \<Rightarrow> stream_item list \<Rightarrow> 's system \<Rightarrow> bool" where
  "counts_inv env fs items0 sy \<longleftrightarrow>
     (\<exists>past. items0 = past @ sy_items sy \<and> (\<forall>x \<in> set past. is_chunk x)
        \<and> sy_chunk_hashes sy = map (item_hash (en_libs env)) past
        \<and> sy_total_chunks sy = of_nat (length past))
   \<and> bs_source_size (sy_stats sy) = fs
   \<and> (sy_writer_result sy = None \<or> sy_writer_result sy = Some (Inr ()) \<longrightarrow>
        handled (w_out (sy_writer sy)) + of_nat (length (queue sy)) = sy_total_chunks sy
      \<and> near_handled (w_out (sy_writer sy)) + near_count (queue sy)
          = bs_near_duplicate_chunks (sy_stats sy))
   \<and> (sy_writer_result sy = Some (Inr ()) \<longrightarrow> sy_channel sy = [] \<and> \<not> sy_open sy)
   \<and> (\<not> sy_open sy \<longrightarrow> sy_outgoing sy = None \<and> (sy_result sy = None \<longrightarrow> sy_items sy = []))
   \<and> (\<forall>stats. sy_result sy = Some (Inr stats) \<longrightarrow> stats = final_stats sy
        \<and> sy_writer_result sy = Some (Inr ()) \<and> sy_items sy = [])"

lemma counts_inv_init: "counts_inv env fs items (system_init fs items stage ix s)"
  by (simp add: counts_inv_def system_init_def default_stats_def handled_def near_handled_def queue_def)

lemma counts_prepare:
  assumes "counts_inv env fs items0 sy" and "sy_open sy" and "sy_outgoing sy = None" and "sy_result sy = None"
    and "sy_items sy = Chunk_Data offset len d # items"
  shows "counts_inv env fs items0 (prepare_chunk env sy offset len d items)"
proof -
  let ?h = "Hash (lib_blake3 (en_libs env) d)"
  obtain m stage stats where cl: "classify env sy ?h d (ucast (of_nat len :: u32)) = (m, stage, stats)"
    by (metis prod_cases3)
  have new: "prepare_chunk env sy offset len d items = sy\<lparr>sy_items := items,
      sy_total_chunks := sy_total_chunks sy + 1, sy_chunk_hashes := sy_chunk_hashes sy @ [?h],
      sy_stage := stage, sy_stats := stats, sy_outgoing := Some m\<rparr>"
    using cl by (simp add: prepare_chunk_def Let_def)
  obtain past where p: "items0 = past @ sy_items sy" "\<forall>x \<in> set past. is_chunk x"
    "sy_chunk_hashes sy = map (item_hash (en_libs env)) past" "sy_total_chunks sy = of_nat (length past)"
    using assms(1) by (auto simp: counts_inv_def)
  have "\<exists>past. items0 = past @ items \<and> (\<forall>x \<in> set past. is_chunk x)
      \<and> sy_chunk_hashes sy @ [?h] = map (item_hash (en_libs env)) past
      \<and> sy_total_chunks sy + 1 = of_nat (length past)"
    using p assms(5) by (intro exI [of _ "past @ [Chunk_Data offset len d]"]) auto
  moreover let ?sy = "prepare_chunk env sy offset len d items"
  have q: "queue ?sy = queue sy @ [m]" using assms(3) by (simp add: new)
  have old: "bs_source_size (sy_stats sy) = fs" "sy_writer_result sy \<noteq> Some (Inr ())"
    "sy_writer_result sy = None \<Longrightarrow>
       handled (w_out (sy_writer sy)) + of_nat (length (queue sy)) = sy_total_chunks sy
     \<and> near_handled (w_out (sy_writer sy)) + near_count (queue sy) = bs_near_duplicate_chunks (sy_stats sy)"
    using assms(1,2) by (auto simp: counts_inv_def)
  have "sy_writer_result ?sy = None \<Longrightarrow>
       handled (w_out (sy_writer ?sy)) + of_nat (length (queue ?sy)) = sy_total_chunks ?sy
     \<and> near_handled (w_out (sy_writer ?sy)) + near_count (queue ?sy) = bs_near_duplicate_chunks (sy_stats ?sy)"
  proof -
    assume "sy_writer_result ?sy = None"
    then have w: "sy_writer_result sy = None" by (simp add: new)
    have f: "sy_total_chunks ?sy = sy_total_chunks sy + 1" "sy_writer ?sy = sy_writer sy" "sy_stats ?sy = stats"
      by (simp_all add: new)
    note o = old(3) [OF w, THEN conjunct1, symmetric] old(3) [OF w, THEN conjunct2, symmetric]
    show ?thesis
      unfolding f q o(1) near_count_simps(5) classify_counts [OF cl, THEN conjunct1] o(2)
      by (simp add: add.assoc)
  qed
  ultimately show ?thesis
    using classify_counts [OF cl] assms(2,4) old(1,2) unfolding counts_inv_def by (simp add: new)
qed

lemma counts_receive:
  assumes "counts_inv env fs items0 sy" and "sy_writer_result sy = None" and "sy_channel sy = m # q"
  shows "counts_inv env fs items0 (after_message sy q (handle_message env m (sy_writer sy)))"
proof (cases "handle_message env m (sy_writer sy)")
  case (Pair r w')
  show ?thesis
  proof (cases r)
    case (Inl e)
    with assms Pair show ?thesis by (auto simp: counts_inv_def after_message_def)
  next
    case (Inr u)
    with Pair have h: "handle_message env m (sy_writer sy) = (Inr (), w')" by simp
    have q: "length (queue sy) = Suc (length (queue (sy\<lparr>sy_channel := q, sy_writer := w'\<rparr>)))"
      "near_count (queue sy) = near_count [m] + near_count (queue (sy\<lparr>sy_channel := q, sy_writer := w'\<rparr>))"
      by (cases m; simp add: queue_def assms(3))+
    show ?thesis
      using assms h handle_message_counts [OF h] q
      by (auto simp: counts_inv_def after_message_def algebra_simps)
  qed
qed

lemma counts_inv_step:
  assumes "step env sy sy'" and inv: "counts_inv env fs items0 sy"
  shows "counts_inv env fs items0 sy'"
  using assms(1)
proof cases
  case (prepare offset len d items)
  with inv show ?thesis by (auto intro: counts_prepare)
next
  case (receive m q)
  with inv show ?thesis by (auto intro: counts_receive)
next
  case writer_flush
  with inv show ?thesis by (auto simp: counts_inv_def after_flush_def queue_def)
next
  case (send m)
  with inv show ?thesis by (auto simp: counts_inv_def queue_def)
next
  case (join r)
  with inv show ?thesis
    by (auto simp: counts_inv_def queue_def join_result_def final_stats_def Let_def
        split: sum.splits failure.splits)
qed (use inv in \<open>auto simp: counts_inv_def queue_def\<close>)

section \<open>Properties\<close>

text \<open>
  C16. Every run of a backup ends: for every store, file and interleaving of the two threads, a run
  over \<open>n\<close> chunks has at most \<open>3 n + 3\<close> steps, the channel never holds more than its 64 messages,
  and when no step is possible both threads have returned, so they never wait for each other.
\<close>

theorem backup_terminates:
  assumes "(step env ^^ k) (system_init fs items stage ix s) sy"
  shows "k \<le> 3 * length items + 3 \<and> length (sy_channel sy) \<le> CHANNEL_BOUND
    \<and> ((\<nexists>sy'. step env sy sy') \<longrightarrow> sy_result sy \<noteq> None \<and> sy_writer_result sy \<noteq> None)"
proof -
  have "shut sy \<and> remaining sy + k \<le> remaining (system_init fs items stage ix s)"
    using assms
  proof (induction k arbitrary: sy)
    case (Suc k)
    then obtain sy1 where "(step env ^^ k) (system_init fs items stage ix s) sy1" "step env sy1 sy" by auto
    with Suc.IH [of sy1] step_remaining [of env sy1 sy] shut_step [of env sy1 sy] show ?case by auto
  qed (simp add: shut_init)
  then show ?thesis
    using stuck_finished [of sy env] by (auto simp: shut_def remaining_def system_init_def)
qed

text \<open>
  C20. The statistics of a backup that succeeds add up, whatever the store: the stream had no error and
  was consumed to its end, the writer handled every message and its flush succeeded, there is one
  hash for each chunk, in order, every chunk was counted as stored or as a duplicate, and every near
  duplicate as a delta or as a fallback (all counters are 64-bit words).
\<close>

theorem backup_counts:
  assumes "(step env)\<^sup>*\<^sup>* (system_init fs items stage ix s) sy" and "sy_result sy = Some (Inr stats)"
  shows "(\<forall>x \<in> set items. is_chunk x) \<and> sy_writer_result sy = Some (Inr ()) \<and> sy_channel sy = []
    \<and> bs_chunk_hashes stats = map (item_hash (en_libs env)) items
    \<and> bs_total_chunks stats = of_nat (length items)
    \<and> bs_unique_chunks stats + bs_dedup_chunks stats = bs_total_chunks stats
    \<and> bs_delta_compressed_chunks stats + bs_delta_fallbacks stats = bs_near_duplicate_chunks stats
    \<and> bs_source_size stats = fs"
proof -
  have "counts_inv env fs items sy"
    using assms(1) by (induction rule: rtranclp_induct) (auto intro: counts_inv_step counts_inv_init)
  moreover have "sy_result sy \<noteq> None" using assms(2) by simp
  ultimately show ?thesis
    using assms(2)
    by (auto simp: counts_inv_def final_stats_def Let_def handled_def near_handled_def queue_def algebra_simps)
qed

text \<open>
  C8. A backup that succeeds can be read back: let a local store in good order be given to a backup of
  the chunks of a file, with no similarity stage or a fresh one that has room for them. However the
  two threads interleave, if the backup returns statistics then nothing is left unwritten, and
  reading the hashes it lists, whatever the index answers, gives the chunks of the file in order,
  those stored in full, those stored as deltas and those that were there already.
\<close>

theorem pipeline_backup_correct:
  assumes "en_ops env = local_ops L io" and "en_libs env = L"
    and "zstd_ok (lib_zstd L)" and "zstd_bounded (lib_zstd L)"
    and "local_serving L V (length items + 1) st" and "dom ix = fst ` kinds st" and "items_ok L V items"
    and "stage = None \<or> (\<exists>cfg. stage = Some (stage_new cfg) \<and> length items \<le> sc_memory_budget cfg div NUM_SHARDS)"
    and "(step env)\<^sup>*\<^sup>* (system_init fs items stage ix st) sy" and "sy_result sy = Some (Inr stats)"
  shows "ls_pending_chunks (w_store (sy_writer sy)) = []
    \<and> map (local_get L ix' (w_store (sy_writer sy))) (bs_chunk_hashes stats) = map (Inr \<circ> item_data) items"
proof -
  have stage: "case stage of None \<Rightarrow> True | Some sm \<Rightarrow> stage_ok sm \<and> stage_roomy (length items) sm \<and> stage_live sm = {}"
    using assms(8) by (auto simp: stage_new_ok)
  have inv: "local_contract.sys_inv L V env items (system_init fs items stage ix st)"
    by (rule local_contract.sys_inv_init [OF assms(5-7) stage])
  show ?thesis
    using local_contract.run_correct [OF assms(1-4,9) inv assms(10), of ix']
    by (simp add: local_settled_def local_ops_def)
qed

text \<open>A file that is one chunk, or the same chunk twice, backed up into an empty store.\<close>

definition demo_env :: "local_store env" where
  "demo_env = \<lparr>en_ops = local_ops demo_libs io_fine, en_libs = demo_libs, en_level = 3,
     en_xxh3 = (\<lambda>_. 0), en_ser_sig = (\<lambda>_. None)\<rparr>"

definition demo_start :: "stream_item list \<Rightarrow> local_store system" where
  "demo_start items = system_init (3 * of_nat (length items)) items None (\<lambda>_. None) (empty_store [])"

abbreviation item_a :: stream_item where
  "item_a \<equiv> Chunk_Data 0 3 chunk_a"

lemma demo_start_one: "demo_start [item_a] = system_init 3 [item_a] None (\<lambda>_. None) (empty_store [])"
  by (simp add: demo_start_def)

lemma demo_blake3 [simp]: "lib_blake3 demo_libs chunk_a = replicate 32 1"
  by (simp add: demo_libs_def)

lemma demo_put_first:
  "local_put demo_libs io_fine (\<lambda>_. None) (empty_store []) (Hash (replicate 32 1)) chunk_a
     = (Inr \<lparr>pl_pack_id = 0, pl_offset = 0, pl_length = 0, pl_orig_length = 3\<rparr>, demo_put)"
  using demo_put_ok by (simp add: hash_a_def)

lemma demo_put_again:
  "ix h = Some loc \<Longrightarrow> local_put demo_libs io_fine ix demo_put h chunk_a = (Inr loc, demo_put)"
  by (simp add: local_put_def put_entry_def lookup_index_def demo_put_def empty_store_def chunk_a_def Let_def)

lemma chunk_a_unsigned: "extract_signature xxh3 chunk_a = None"
  by (simp add: extract_signature_def chunk_a_def)

lemmas demo_run_simps = demo_start_def demo_env_def system_init_def producer_step_def writer_step_def
  prepare_chunk_def classify_def hasher_stage_hash_def hasher_hash_chunk_def hasher_hash_def
  after_message_def after_flush_def handle_message_def store_chunk_def insert_loc_def finish_message_def
  attach_signature_def local_ops_def demo_put_first demo_put_again chunk_a_unsigned CHANNEL_BOUND_def
  join_result_def final_stats_def default_stats_def Let_def

lemma demo_one:
  "\<exists>sy stats. run_schedule demo_env [Producer, Producer, Producer, Writer, Writer, Producer] (demo_start [item_a]) = Some sy
     \<and> sy_result sy = Some (Inr stats) \<and> bs_chunk_hashes stats = [hash_a]"
  using demo_flush_ok by (auto simp: demo_run_simps hash_a_def)

lemma demo_eager:
  "\<exists>sy stats. run_schedule demo_env [Producer, Producer, Writer, Producer, Producer, Writer, Producer, Writer, Producer]
       (demo_start [item_a, item_a]) = Some sy
     \<and> sy_result sy = Some (Inr stats) \<and> bs_unique_chunks stats = 1 \<and> bs_dedup_chunks stats = 1
     \<and> bs_stored_size stats = 3 \<and> w_store (sy_writer sy) = snd (local_flush demo_libs io_fine demo_put)"
  using demo_flush_ok by (auto simp: demo_run_simps)

lemma demo_lazy:
  "\<exists>sy stats. run_schedule demo_env [Producer, Producer, Producer, Producer, Producer, Writer, Writer, Writer, Producer]
       (demo_start [item_a, item_a]) = Some sy
     \<and> sy_result sy = Some (Inr stats) \<and> bs_unique_chunks stats = 2 \<and> bs_dedup_chunks stats = 0
     \<and> bs_stored_size stats = 6 \<and> w_store (sy_writer sy) = snd (local_flush demo_libs io_fine demo_put)"
  using demo_flush_ok by (auto simp: demo_run_simps)

theorem backup_terminates_witness:
  "\<exists>sy. (step demo_env ^^ 6) (demo_start [item_a]) sy \<and> sy_result sy \<noteq> None
     \<and> 6 \<le> 3 * length [item_a] + 3 \<and> length (sy_channel sy) \<le> CHANNEL_BOUND"
proof -
  obtain sy stats where sy: "run_schedule demo_env [Producer, Producer, Producer, Writer, Writer, Producer]
      (demo_start [item_a]) = Some sy" "sy_result sy = Some (Inr stats)" using demo_one by blast
  from run_schedule_length [OF this(1)] have run: "(step demo_env ^^ 6) (demo_start [item_a]) sy"
    by (simp only: list.size numeral_eq_Suc pred_numeral_simps add_0 add_Suc_right arith_simps)
  from backup_terminates [OF run [unfolded demo_start_def]]
  have "6 \<le> 3 * length [item_a] + 3 \<and> length (sy_channel sy) \<le> CHANNEL_BOUND" by blast
  with run sy(2) show ?thesis by blast
qed

theorem backup_counts_witness:
  "\<exists>sy stats. (step demo_env)\<^sup>*\<^sup>* (demo_start [item_a, item_a]) sy \<and> sy_result sy = Some (Inr stats)
     \<and> bs_total_chunks stats = 2 \<and> bs_unique_chunks stats = 1 \<and> bs_chunk_hashes stats = [hash_a, hash_a]"
proof -
  obtain sy stats where r: "(step demo_env)\<^sup>*\<^sup>* (demo_start [item_a, item_a]) sy"
    "sy_result sy = Some (Inr stats)" "bs_unique_chunks stats = 1"
    using demo_eager run_schedule_steps by blast
  from backup_counts [OF r(1) [unfolded demo_start_def] r(2)] r show ?thesis
    by (auto simp: demo_env_def hash_a_def)
qed

theorem pipeline_backup_correct_witness:
  "\<exists>sy stats. (step demo_env)\<^sup>*\<^sup>* (demo_start [item_a]) sy \<and> sy_result sy = Some (Inr stats)
     \<and> map (local_get demo_libs (\<lambda>_. None) (w_store (sy_writer sy))) (bs_chunk_hashes stats) = [Inr chunk_a]"
proof -
  obtain sy stats where r: "(step demo_env)\<^sup>*\<^sup>* (demo_start [item_a]) sy" "sy_result sy = Some (Inr stats)"
    using demo_one run_schedule_steps by blast
  have items: "items_ok demo_libs demo_value [item_a]"
    using demo_genuine(1) by (simp add: items_ok_def chunk_ok_def hash_a_def [symmetric] demo_value_def)
      (simp add: chunk_a_def)
  have serving: "local_serving demo_libs demo_value (length [item_a] + 1) (empty_store [])"
    by (rule demo_serving) simp
  have z: "zstd_ok (lib_zstd demo_libs)" "zstd_bounded (lib_zstd demo_libs)"
    using toy_zstd_ok toy_zstd_bounded by (simp_all add: demo_libs_def toy_libs_def)
  have "en_ops demo_env = local_ops demo_libs io_fine" "en_libs demo_env = demo_libs"
    "dom (\<lambda>_. None :: pack_location option) = fst ` kinds (empty_store [])"
    by (simp_all add: demo_env_def kinds_def empty_store_def)
  from pipeline_backup_correct [OF this(1,2) z serving this(3) items disjI1 [OF refl] r(1) [unfolded demo_start_def] r(2)] r
  show ?thesis by fastforce
qed

text \<open>
  The counts of stored and duplicate chunks, and the stored size, depend on the timing of the two
  threads: a file that is the same chunk twice is counted as one stored chunk and one duplicate when
  the writer is quick, and as two stored chunks of twice the size when it is slow, although the store
  is the same in the end.
\<close>

theorem backup_counts_depend_on_schedule:
  "\<exists>sy1 sy2 stats1 stats2. (step demo_env)\<^sup>*\<^sup>* (demo_start [item_a, item_a]) sy1
     \<and> (step demo_env)\<^sup>*\<^sup>* (demo_start [item_a, item_a]) sy2
     \<and> sy_result sy1 = Some (Inr stats1) \<and> sy_result sy2 = Some (Inr stats2)
     \<and> bs_unique_chunks stats1 = 1 \<and> bs_dedup_chunks stats1 = 1 \<and> bs_stored_size stats1 = 3
     \<and> bs_unique_chunks stats2 = 2 \<and> bs_dedup_chunks stats2 = 0 \<and> bs_stored_size stats2 = 6
     \<and> w_store (sy_writer sy1) = w_store (sy_writer sy2)"
  using demo_eager demo_lazy run_schedule_steps by metis

text \<open>
  C18. The hashes a successful backup lists are well formed: one for each chunk of the file, each of 32 bytes,
  whose hex form, as it is written to the manifest, has 64 characters and is read back as the hash.
\<close>

theorem backup_hashes_typed:
  assumes "libs_ok (en_libs env)" and "(step env)\<^sup>*\<^sup>* (system_init fs items stage ix s) sy"
    and "sy_result sy = Some (Inr stats)"
  shows "length (bs_chunk_hashes stats) = length items
    \<and> (\<forall>h \<in> set (bs_chunk_hashes stats). wf_hash h \<and> length (to_hex h) = 64 \<and> from_hex (to_hex h) = Inr h)"
proof -
  have "counts_inv env fs items sy"
    using assms(2) by (induction rule: rtranclp_induct) (auto intro: counts_inv_step counts_inv_init)
  moreover have "sy_result sy \<noteq> None" using assms(3) by simp
  ultimately have "bs_chunk_hashes stats = map (item_hash (en_libs env)) items \<and> (\<forall>x \<in> set items. is_chunk x)"
    using assms(3) by (auto simp: counts_inv_def final_stats_def Let_def queue_def)
  moreover have "wf_hash (item_hash (en_libs env) x)" if "is_chunk x" for x
    using that assms(1) by (cases x) (simp_all add: wf_hash_def libs_ok_def)
  moreover have "length (to_hex h) = 64 \<and> from_hex (to_hex h) = Inr h" if "wf_hash h" for h
    using that by (cases h) (simp add: from_hex_def to_hex_def hex_decode_def wf_hash_def codec_simps)
  ultimately show ?thesis by auto
qed

theorem backup_hashes_typed_witness:
  "\<exists>sy stats. (step demo_env)\<^sup>*\<^sup>* (demo_start [item_a]) sy \<and> sy_result sy = Some (Inr stats)
     \<and> bs_chunk_hashes stats = [hash_a] \<and> wf_hash hash_a \<and> from_hex (to_hex hash_a) = Inr hash_a"
proof -
  obtain sy stats where r: "(step demo_env)\<^sup>*\<^sup>* (demo_start [item_a]) sy" "sy_result sy = Some (Inr stats)"
    "bs_chunk_hashes stats = [hash_a]"
    using demo_one run_schedule_steps by blast
  have "libs_ok (en_libs demo_env)" using demo_libs_ok by (simp add: demo_env_def)
  from backup_hashes_typed [OF this r(1) [unfolded demo_start_def] r(2)] r show ?thesis by fastforce
qed

end
