(* ===== verification/Cloud_Store.thy ===== *)
theory Cloud_Store
  imports Local_Store
begin

text \<open>
  The store on an object service: \<^verbatim>\<open>packt-lib/src/store/cloud.rs\<close>. The record \<open>cloud_store\<close> is the
  struct with the contents of its mutexes; \<open>cl_objects\<close> is the bucket, and \<open>cl_cache\<close> the cache of
  packs on disk: the state of the LRU list and the files of the cache directory. Pending entries and
  pack metadata are the records of \<open>Local_Store\<close>, which the source declares a second time. The
  store always has its index (\<^verbatim>\<open>open\<close> sets it), so lookups go to \<open>ix\<close>. Reading may change the cache,
  so every operation returns the next state.
\<close>

section \<open>Data\<close>

record meta_index_entry =
  mi_hash :: bytes
  mi_pack_id :: u32
  mi_offset :: u64
  mi_length :: u32
  mi_orig_length :: u32

record cloud_store =
  cl_pending_chunks :: "pending_entry list"
  cl_pending_size :: u64
  cl_packs :: "(u32 \<times> pack_metadata) list"
  cl_pack_target_size :: u64
  cl_next_pack_id :: u32
  cl_objects :: dir
  cl_cache :: "(u32 list \<times> dir) option"

text \<open>
  What the store calls and the source does not contain. The service: whether a read or a listing is
  answered, and the outcome of a write, which may fail before or after the object is stored. The
  disk of the cache: the outcome of writing a file, and whether files can be read and removed. The
  library \<^verbatim>\<open>lru\<close>: \<^verbatim>\<open>put\<close> and \<^verbatim>\<open>push\<close>, which gives the key it replaced or evicted. The encoding of
  the global index by \<^verbatim>\<open>postcard\<close>.
\<close>

datatype put_outcome = Put_Done | Put_Lost | Put_Unacknowledged

datatype file_outcome = Written | Truncated nat | Not_Written

record cloud_io =
  ci_read :: "string \<Rightarrow> bool"
  ci_list :: bool
  ci_write :: "string \<Rightarrow> put_outcome"
  ci_delete :: bool
  ci_cache_write :: file_outcome
  ci_cache_read :: bool
  ci_cache_remove :: bool
  ci_lru_put :: "u32 \<Rightarrow> u32 list \<Rightarrow> u32 list"
  ci_lru_push :: "u32 \<Rightarrow> u32 list \<Rightarrow> u32 option \<times> u32 list"
  ci_ser_meta :: "meta_index_entry list \<Rightarrow> bytes option"
  ci_de_meta :: "bytes \<Rightarrow> meta_index_entry list option"

section \<open>Names of objects and cached files\<close>

definition PACK_DIR :: string where "PACK_DIR = ''packs/''"
definition META_INDEX_PATH :: string where "META_INDEX_PATH = ''packs/_meta.index''"
definition DEFAULT_PACK_TARGET :: u64 where "DEFAULT_PACK_TARGET = 16 * 1024 * 1024"

definition pad8 :: "u32 \<Rightarrow> string" where
  "pad8 pack_id = (let s = show_nat (unat pack_id) in replicate (8 - length s) CHR ''0'' @ s)"

definition object_name :: "u32 \<Rightarrow> string" where
  "object_name pack_id = PACK_DIR @ pad8 pack_id @ ''.pack''"

definition cache_name :: "u32 \<Rightarrow> string" where
  "cache_name pack_id = pad8 pack_id @ ''.pack''"

section \<open>The service and the cache\<close>

definition object_read :: "cloud_io \<Rightarrow> string \<Rightarrow> dir \<Rightarrow> string \<Rightarrow> bytes result" where
  "object_read io context objects path =
     (if ci_read io path then or_err (Cloud context) (map_of objects path) else Inl (Err (Cloud context)))"

definition object_write :: "cloud_io \<Rightarrow> string \<Rightarrow> string \<Rightarrow> bytes \<Rightarrow> cloud_store \<Rightarrow> unit result \<times> cloud_store" where
  "object_write io context path data st =
     (let stored = st\<lparr>cl_objects := AList.update path data (cl_objects st)\<rparr>
      in case ci_write io path of
           Put_Done \<Rightarrow> (Inr (), stored)
         | Put_Lost \<Rightarrow> (Inl (Err (Cloud context)), st)
         | Put_Unacknowledged \<Rightarrow> (Inl (Err (Cloud context)), stored))"

definition cache_write :: "cloud_io \<Rightarrow> u32 \<Rightarrow> bytes \<Rightarrow> dir \<Rightarrow> dir" where
  "cache_write io pack_id data files =
     (case ci_cache_write io of
        Written \<Rightarrow> AList.update (cache_name pack_id) data files
      | Truncated k \<Rightarrow> AList.update (cache_name pack_id) (take k data) files
      | Not_Written \<Rightarrow> files)"

definition cache_remove :: "cloud_io \<Rightarrow> u32 option \<Rightarrow> dir \<Rightarrow> dir" where
  "cache_remove io evicted files =
     (case evicted of
        None \<Rightarrow> files
      | Some evicted_id \<Rightarrow> if ci_cache_remove io then AList.delete (cache_name evicted_id) files else files)"

text \<open>Lines 320 to 332: the cached file, if there is one that can be read.\<close>

definition cache_hit :: "cloud_io \<Rightarrow> cloud_store \<Rightarrow> u32 \<Rightarrow> (bytes \<times> cloud_store) option" where
  "cache_hit io st pack_id =
     (case cl_cache st of
        None \<Rightarrow> None
      | Some (lru, files) \<Rightarrow>
          (case map_of files (cache_name pack_id) of
             None \<Rightarrow> None
           | Some data \<Rightarrow>
               if ci_cache_read io
               then Some (data, st\<lparr>cl_cache := Some (ci_lru_put io pack_id lru, files)\<rparr>)
               else None))"

text \<open>Lines 342 to 353.\<close>

definition cache_insert :: "cloud_io \<Rightarrow> u32 \<Rightarrow> bytes \<Rightarrow> cloud_store \<Rightarrow> cloud_store" where
  "cache_insert io pack_id data st =
     (case cl_cache st of
        None \<Rightarrow> st
      | Some (lru, files) \<Rightarrow>
          (let (evicted, lru) = ci_lru_push io pack_id lru
           in st\<lparr>cl_cache := Some (lru, cache_write io pack_id data (cache_remove io evicted files))\<rparr>))"

definition read_pack_cached :: "cloud_io \<Rightarrow> cloud_store \<Rightarrow> u32 \<Rightarrow> bytes result \<times> cloud_store" where
  "read_pack_cached io st pack_id =
     (case cache_hit io st pack_id of
        Some (data, st) \<Rightarrow> (Inr data, st)
      | None \<Rightarrow>
          (case object_read io ''failed to download pack'' (cl_objects st) (object_name pack_id) of
             Inl e \<Rightarrow> (Inl e, st)
           | Inr data \<Rightarrow> (Inr data, cache_insert io pack_id data st)))"

section \<open>Flushing\<close>

definition cloud_flush_prepare :: "cloud_store \<Rightarrow> pack_entry list \<times> cloud_store" where
  "cloud_flush_prepare st =
     (map pack_entry_of (cl_pending_chunks st), st\<lparr>cl_pending_chunks := [], cl_pending_size := 0\<rparr>)"

definition cloud_flush_write ::
    "libs \<Rightarrow> cloud_io \<Rightarrow> pack_entry list \<Rightarrow> u32 \<Rightarrow> cloud_store \<Rightarrow> pack_metadata result \<times> cloud_store" where
  "cloud_flush_write L io chunks pack_id st =
     (if chunks = [] then (Inr \<lparr>pm_entries = [], pm_superblock = None\<rparr>, st)
      else bind_state (write_pack L chunks, st) (\<lambda>pack_bytes st.
        bind_state (object_write io ''failed to upload pack'' (object_name pack_id) pack_bytes st) (\<lambda>_ st.
        let st = (case cl_cache st of
                    None \<Rightarrow> st
                  | Some (lru, files) \<Rightarrow>
                      st\<lparr>cl_cache := Some (lru, cache_write io pack_id pack_bytes files)\<rparr>)
        in case read_pack L pack_bytes of
             Inr (entries, checksum, superblock) \<Rightarrow>
               (Inr \<lparr>pm_entries = entries, pm_superblock = superblock\<rparr>, st)
           | Inl (Err e) \<Rightarrow>
               (Inl (Err (StoreCorrupted ''newly-constructed pack failed verification'')), st)
           | Inl (Panic m) \<Rightarrow> (Inl (Panic m), st))))"

definition meta_of :: "u32 \<Rightarrow> index_entry \<Rightarrow> meta_index_entry" where
  "meta_of pack_id pe = \<lparr>mi_hash = hash_bytes (ie_hash pe), mi_pack_id = pack_id, mi_offset = ie_offset pe,
     mi_length = ie_length pe, mi_orig_length = ie_orig_length pe\<rparr>"

definition write_meta_index :: "cloud_io \<Rightarrow> cloud_store \<Rightarrow> unit result \<times> cloud_store" where
  "write_meta_index io st =
     (let entries = concat (map (\<lambda>(pack_id, pack). map (meta_of pack_id) (pm_entries pack)) (cl_packs st))
      in if entries = []
         then (Inr (), if ci_delete io then st\<lparr>cl_objects := AList.delete META_INDEX_PATH (cl_objects st)\<rparr>
                       else st)
         else bind_state (or_err (Serialization ''meta index serialization'') (ci_ser_meta io entries), st)
                (\<lambda>data st. object_write io ''failed to write _meta.index'' META_INDEX_PATH data st))"

text \<open>Lines 706 to 717, and the same lines in \<^verbatim>\<open>put\<close> and \<^verbatim>\<open>put_delta\<close>.\<close>

definition cloud_run_flush :: "libs \<Rightarrow> cloud_io \<Rightarrow> cloud_store \<Rightarrow> u32 result \<times> cloud_store" where
  "cloud_run_flush L io st =
     (let pack_id = cl_next_pack_id st;
          (chunks, st) = cloud_flush_prepare (st\<lparr>cl_next_pack_id := pack_id + 1\<rparr>)
      in bind_state (cloud_flush_write L io chunks pack_id st) (\<lambda>meta st.
         let st = st\<lparr>cl_packs := AList.update pack_id meta (cl_packs st)\<rparr>
         in bind_state (write_meta_index io st) (\<lambda>_ st. (Inr pack_id, st))))"

definition cloud_flush :: "libs \<Rightarrow> cloud_io \<Rightarrow> cloud_store \<Rightarrow> unit result \<times> cloud_store" where
  "cloud_flush L io st =
     (if cl_pending_chunks st \<noteq> []
      then bind_state (cloud_run_flush L io st) (\<lambda>_ st. (Inr (), st))
      else (Inr (), st))"

section \<open>Opening\<close>

definition location_of_meta :: "meta_index_entry \<Rightarrow> pack_location" where
  "location_of_meta entry = \<lparr>pl_pack_id = mi_pack_id entry, pl_offset = mi_offset entry,
     pl_length = mi_length entry, pl_orig_length = mi_orig_length entry\<rparr>"

text \<open>The fast path: the global index, when it can be read and decoded.\<close>

definition read_meta_index :: "cloud_io \<Rightarrow> dir \<Rightarrow> meta_index_entry list option" where
  "read_meta_index io objects =
     (case object_read io ''read _meta.index'' objects META_INDEX_PATH of
        Inl e \<Rightarrow> None
      | Inr meta_bytes \<Rightarrow> ci_de_meta io meta_bytes)"

definition listed_pack_ids :: "dir \<Rightarrow> u32 list" where
  "listed_pack_ids objects =
     List.map_filter (\<lambda>path. Option.bind (Option.bind (strip_prefix PACK_DIR path) (strip_suffix ''.pack'')) parse_u32)
       (map fst objects)"

text \<open>The fallback: lines 179 to 218.\<close>

fun load_objects ::
    "libs \<Rightarrow> cloud_io \<Rightarrow> dir \<Rightarrow> u32 list \<Rightarrow> (u32 \<times> pack_metadata) list \<Rightarrow> (hash \<times> pack_location) list \<Rightarrow> u32
      \<Rightarrow> ((u32 \<times> pack_metadata) list \<times> (hash \<times> pack_location) list \<times> u32) result" where
  "load_objects L io objects [] packs inserted max_pack_id = Inr (packs, inserted, max_pack_id)"
| "load_objects L io objects (pack_id # ids) packs inserted max_pack_id =
     bind_res (object_read io ''failed to read pack'' objects (object_name pack_id)) (\<lambda>pack_data.
       case read_pack L pack_data of
         Inr (entries, checksum, superblock) \<Rightarrow>
           load_objects L io objects ids
             (AList.update pack_id \<lparr>pm_entries = entries, pm_superblock = superblock\<rparr> packs)
             (inserted @ map (\<lambda>entry. (ie_hash entry, entry_location pack_id entry)) entries)
             (max max_pack_id pack_id)
       | Inl (Err e) \<Rightarrow> Inl (Err (StoreCorrupted ''pack is corrupted''))
       | Inl (Panic m) \<Rightarrow> Inl (Panic m))"

text \<open>The insertions into the index are returned as a list, in order.\<close>

definition cloud_populate ::
    "libs \<Rightarrow> cloud_io \<Rightarrow> cloud_store \<Rightarrow> ((hash \<times> pack_location) list \<times> cloud_store) result" where
  "cloud_populate L io st =
     (case read_meta_index io (cl_objects st) of
        Some entries \<Rightarrow>
          Inr (map (\<lambda>entry. (Hash (mi_hash entry), location_of_meta entry)) entries,
               st\<lparr>cl_next_pack_id := fold (\<lambda>entry m. max m (mi_pack_id entry)) entries 0 + 1\<rparr>)
      | None \<Rightarrow>
          if \<not> ci_list io then Inl (Err (Cloud ''failed to list packs directory''))
          else bind_res (load_objects L io (cl_objects st) (sort (listed_pack_ids (cl_objects st))) [] [] 0)
                 (\<lambda>(packs, inserted, max_pack_id).
                   Inr (inserted, st\<lparr>cl_packs := packs, cl_next_pack_id := max_pack_id + 1\<rparr>)))"

definition cloud_fresh_store :: "dir \<Rightarrow> dir option \<Rightarrow> cloud_store" where
  "cloud_fresh_store objects cache_dir =
     \<lparr>cl_pending_chunks = [], cl_pending_size = 0, cl_packs = [], cl_pack_target_size = DEFAULT_PACK_TARGET,
      cl_next_pack_id = 0, cl_objects = objects, cl_cache = map_option (\<lambda>files. ([], files)) cache_dir\<rparr>"

definition cloud_open ::
    "libs \<Rightarrow> (bytes \<Rightarrow> bytes \<Rightarrow> bytes) \<Rightarrow> cloud_io \<Rightarrow> dir \<Rightarrow> dir option \<Rightarrow> hash_index
      \<Rightarrow> (cloud_store \<times> hash_index) result" where
  "cloud_open L keyed io objects cache_dir index =
     bind_res (cloud_populate L io (cloud_fresh_store objects cache_dir)) (\<lambda>(inserted, st).
     bind_res (insert_all (hi_insert keyed) index inserted) (\<lambda>index. Inr (st, index)))"

section \<open>Reading\<close>

text \<open>\<open>get\<close> is the recursive call for the base of a delta.\<close>

definition extract_chunk ::
    "libs \<Rightarrow> (cloud_store \<Rightarrow> hash \<Rightarrow> bytes result \<times> cloud_store) \<Rightarrow> cloud_store \<Rightarrow> hash \<Rightarrow> bytes
      \<Rightarrow> pack_location \<Rightarrow> hash option \<Rightarrow> bool \<Rightarrow> bytes option \<Rightarrow> bytes result \<times> cloud_store" where
  "extract_chunk L get st h pack_data loc base_hash needs_raw superblock =
     bind_state
       (case base_hash of
          Some b \<Rightarrow> bind_state (get st b) (\<lambda>base_chunk st. (read_delta_chunk L pack_data loc base_chunk, st))
        | None \<Rightarrow> (full_chunk_data L pack_data loc needs_raw superblock, st)) (\<lambda>stored_data st.
     let actual_hash = lib_blake3 L stored_data
     in if Hash actual_hash \<noteq> h
        then (Inl (Err (ChecksumMismatch (to_hex h) (to_hex (Hash actual_hash)))), st)
        else (Inr stored_data, st))"

definition read_from_cloud ::
    "libs \<Rightarrow> cloud_io \<Rightarrow> (cloud_store \<Rightarrow> hash \<Rightarrow> bytes result \<times> cloud_store) \<Rightarrow> cloud_store \<Rightarrow> hash
      \<Rightarrow> pack_location \<Rightarrow> bytes result \<times> cloud_store" where
  "read_from_cloud L io get st h loc =
     bind_state (read_pack_cached io st (pl_pack_id loc)) (\<lambda>pack_data st.
       case read_pack L pack_data of
         Inl (Err e) \<Rightarrow> (Inl (Err (StoreCorrupted ''pack corrupted'')), st)
       | Inl (Panic m) \<Rightarrow> (Inl (Panic m), st)
       | Inr (entries, checksum, superblock) \<Rightarrow>
           (case List.find (\<lambda>e. ie_offset e = pl_offset loc \<and> ie_length e = pl_length loc) entries of
              None \<Rightarrow> (Inl (Err (ChunkNotFound (to_hex h))), st)
            | Some entry \<Rightarrow>
                (let (base_hash, needs_raw) = base_and_raw entry
                 in extract_chunk L get st h pack_data loc base_hash needs_raw superblock)))"

text \<open>The last phase: the linear scan of the loaded packs.\<close>

definition cloud_scan ::
    "libs \<Rightarrow> cloud_io \<Rightarrow> (cloud_store \<Rightarrow> hash \<Rightarrow> bytes result \<times> cloud_store) \<Rightarrow> cloud_store \<Rightarrow> hash
      \<Rightarrow> bytes result \<times> cloud_store" where
  "cloud_scan L io get st h =
     (case scan_packs (cl_packs st) h of
        None \<Rightarrow> (Inl (Err (ChunkNotFound (to_hex h))), st)
      | Some (pack_id, pack, entry) \<Rightarrow>
          (let (base_hash, needs_raw) = base_and_raw entry
           in bind_state (read_pack_cached io st pack_id) (\<lambda>pack_data st.
                extract_chunk L get st h pack_data (entry_location pack_id entry) base_hash needs_raw
                  (pm_superblock pack))))"

function cloud_get_inner ::
    "libs \<Rightarrow> cloud_io \<Rightarrow> (hash \<Rightarrow> pack_location option) \<Rightarrow> nat \<Rightarrow> cloud_store \<Rightarrow> hash
      \<Rightarrow> bytes result \<times> cloud_store" where
  "cloud_get_inner L io ix depth st h =
     (if depth > 16 then (Inl (Err (InvalidPackFormat ''delta chain too deep (possible cycle)'')), st)
      else (case List.find (\<lambda>entry. pd_hash entry = h) (cl_pending_chunks st) of
        Some entry \<Rightarrow> (Inr (pd_data entry), st)
      | None \<Rightarrow>
          (let get = (\<lambda>st b. cloud_get_inner L io ix (depth + 1) st b)
           in case ix h of
                None \<Rightarrow> cloud_scan L io get st h
              | Some loc \<Rightarrow>
                  (case read_from_cloud L io get st h loc of
                     (Inr data, st) \<Rightarrow> (Inr data, st)
                   | (Inl (Panic m), st) \<Rightarrow> (Inl (Panic m), st)
                   | (Inl (Err e), st) \<Rightarrow> cloud_scan L io get st h))))"
  by pat_completeness auto
termination by (relation "measure (\<lambda>(_, _, _, depth, _, _). 17 - depth)") auto

declare cloud_get_inner.simps [simp del]

definition cloud_get ::
    "libs \<Rightarrow> cloud_io \<Rightarrow> (hash \<Rightarrow> pack_location option) \<Rightarrow> cloud_store \<Rightarrow> hash \<Rightarrow> bytes result \<times> cloud_store" where
  "cloud_get L io ix st h = cloud_get_inner L io ix 0 st h"

definition cloud_contains :: "(hash \<Rightarrow> pack_location option) \<Rightarrow> cloud_store \<Rightarrow> hash \<Rightarrow> bool" where
  "cloud_contains ix st h =
     (if ix h \<noteq> None then True
      else if \<exists>entry \<in> set (cl_pending_chunks st). pd_hash entry = h then True
      else \<exists>(_, pack) \<in> set (cl_packs st). \<exists>entry \<in> set (pm_entries pack). ie_hash entry = h)"

section \<open>Writing\<close>

definition cloud_placeholder :: "u32 \<Rightarrow> u32 \<Rightarrow> pack_location" where
  "cloud_placeholder pack_id orig_length =
     \<lparr>pl_pack_id = pack_id, pl_offset = 0, pl_length = 0, pl_orig_length = orig_length\<rparr>"

text \<open>Lines 538 to 597 of \<^verbatim>\<open>put\<close>, which are those of \<^verbatim>\<open>put_delta\<close> but for the entry they append.\<close>

definition cloud_put_entry ::
    "libs \<Rightarrow> cloud_io \<Rightarrow> (hash \<Rightarrow> pack_location option) \<Rightarrow> cloud_store \<Rightarrow> pending_entry
      \<Rightarrow> pack_location result \<times> cloud_store" where
  "cloud_put_entry L io ix st new =
     (case ix (pd_hash new) of
        Some loc \<Rightarrow> (Inr loc, st)
      | None \<Rightarrow>
          (case List.find (\<lambda>entry. pd_hash entry = pd_hash new) (cl_pending_chunks st) of
             Some entry \<Rightarrow> (Inr (cloud_placeholder (cl_next_pack_id st) (pd_orig_length entry)), st)
           | None \<Rightarrow>
               (let st = st\<lparr>cl_pending_chunks := cl_pending_chunks st @ [new],
                            cl_pending_size := cl_pending_size st + of_nat (length (pd_data new))\<rparr>
                in if cl_pending_size st \<ge> cl_pack_target_size st
                   then bind_state (cloud_run_flush L io st) (\<lambda>pack_id st.
                          (Inr (cloud_placeholder pack_id (pd_orig_length new)), st))
                   else (Inr (cloud_placeholder (cl_next_pack_id st) (pd_orig_length new)), st))))"

definition cloud_put ::
    "libs \<Rightarrow> cloud_io \<Rightarrow> (hash \<Rightarrow> pack_location option) \<Rightarrow> cloud_store \<Rightarrow> hash \<Rightarrow> bytes
      \<Rightarrow> pack_location result \<times> cloud_store" where
  "cloud_put L io ix st h data =
     cloud_put_entry L io ix st \<lparr>pd_hash = h, pd_data = data, pd_orig_length = of_nat (length data),
       pd_entry_type = Full, pd_signature = None\<rparr>"

definition cloud_put_delta ::
    "libs \<Rightarrow> cloud_io \<Rightarrow> (hash \<Rightarrow> pack_location option) \<Rightarrow> cloud_store \<Rightarrow> hash \<Rightarrow> hash \<Rightarrow> bytes \<Rightarrow> u32
      \<Rightarrow> pack_location result \<times> cloud_store" where
  "cloud_put_delta L io ix st h base_hash delta_data orig_length =
     cloud_put_entry L io ix st \<lparr>pd_hash = h, pd_data = delta_data, pd_orig_length = orig_length,
       pd_entry_type = Delta base_hash, pd_signature = None\<rparr>"

definition cloud_put_signature :: "cloud_store \<Rightarrow> hash \<Rightarrow> bytes \<Rightarrow> unit result \<times> cloud_store" where
  "cloud_put_signature st h sg =
     (case sign_first h sg (cl_pending_chunks st) of
        Some es \<Rightarrow> (Inr (), st\<lparr>cl_pending_chunks := es\<rparr>)
      | None \<Rightarrow> (Inl (Err (ChunkNotFound (to_hex h))), st))"

definition cloud_ops :: "libs \<Rightarrow> cloud_io \<Rightarrow> cloud_store content_store" where
  "cloud_ops L io = \<lparr>cs_put = cloud_put L io, cs_put_delta = cloud_put_delta L io,
     cs_get = cloud_get L io, cs_contains = cloud_contains, cs_put_signature = cloud_put_signature,
     cs_flush = cloud_flush L io\<rparr>"

end
