(* ===== verification/Cloud_Contract.thy ===== *)
theory Cloud_Contract
  imports Cloud_Store Backup_Runs
begin

text \<open>
  What the cloud store promises. The invariant \<open>cloud_inv\<close> is that of the local store with the bucket in
  place of the directory, plus the coherence of the cache; on it rests the contract of the trait
  \<^verbatim>\<open>ContentStore\<close>, so that the theorems about the pipeline hold for this store too. The properties
  at the end also show where the store breaks its promises.
\<close>

section \<open>Names\<close>

lemma parse_zeros: "0 < B \<Longrightarrow> parse_digits B 0 (replicate n CHR ''0'' @ s) = parse_digits B 0 s"
  by (induction n) (simp_all add: char_digit_def)

lemma parse_pad8: "parse_u32 (pad8 i) = Some i"
proof -
  obtain d cs where s: "show_nat (unat i) = digit_char d # cs" "d < 10" using show_nat_first by blast
  have "pad8 i \<noteq> []" by (simp add: pad8_def Let_def s)
  moreover have "hd (pad8 i) \<noteq> CHR ''+''"
    using digit_char_not_plus [OF s(2)] by (simp add: pad8_def Let_def s hd_append)
  ultimately have "parse_u32 (pad8 i) = map_option of_nat (parse_digits (2 ^ 32) 0 (pad8 i))"
    by (cases "pad8 i") (auto simp: parse_u32_def parse_uint_def)
  also have "parse_digits (2 ^ 32) 0 (pad8 i) = parse_digits (2 ^ 32) 0 (show_nat (unat i))"
    by (simp add: pad8_def Let_def parse_zeros)
  finally show ?thesis using parse_show_nat [OF unat_less_u32 [of i]] by simp
qed

lemma cache_name_inj [simp]: "cache_name i = cache_name j \<longleftrightarrow> i = j"
  unfolding cache_name_def append_same_eq by (metis option.inject parse_pad8)

lemma object_name_inj [simp]: "object_name i = object_name j \<longleftrightarrow> i = j"
  unfolding object_name_def append_same_eq same_append_eq by (metis option.inject parse_pad8)

lemma object_name_not_meta [simp]: "object_name i \<noteq> META_INDEX_PATH" "META_INDEX_PATH \<noteq> object_name i"
proof -
  have "last (object_name i) \<noteq> last META_INDEX_PATH" by (simp add: object_name_def META_INDEX_PATH_def)
  then show "object_name i \<noteq> META_INDEX_PATH" "META_INDEX_PATH \<noteq> object_name i" by metis+
qed

lemma listed_name: "Option.bind (Option.bind (strip_prefix PACK_DIR (object_name i)) (strip_suffix ''.pack'')) parse_u32 = Some i"
  using strip_suffix_append [of "''.pack''" "pad8 i"] by (simp add: object_name_def parse_pad8)

section \<open>The invariant\<close>

definition ckinds :: "cloud_store \<Rightarrow> (hash \<times> hash option) set" where
  "ckinds st = pending_kinds (cl_pending_chunks st) \<union> packs_kinds (cl_packs st)"

definition object_good :: "libs \<Rightarrow> (hash \<Rightarrow> bytes) \<Rightarrow> dir \<Rightarrow> u32 \<Rightarrow> pack_metadata \<Rightarrow> bool" where
  "object_good L V objects pack_id m \<longleftrightarrow>
     (\<exists>p ck. map_of objects (object_name pack_id) = Some p
        \<and> read_pack L p = Inr (pm_entries m, ck, pm_superblock m)
        \<and> (\<forall>e \<in> set (pm_entries m). entry_good L V p (pm_superblock m) e))"

text \<open>A file of the cache is the object it is named after.\<close>

definition cache_ok :: "cloud_store \<Rightarrow> bool" where
  "cache_ok st \<longleftrightarrow> (\<forall>lru files i d. cl_cache st = Some (lru, files) \<longrightarrow> map_of files (cache_name i) = Some d
     \<longrightarrow> map_of (cl_objects st) (object_name i) = Some d)"

text \<open>Every pack of the bucket is loaded: the store was not opened from the global index.\<close>

definition bucket_loaded :: "cloud_store \<Rightarrow> bool" where
  "bucket_loaded st \<longleftrightarrow> (\<forall>i. map_of (cl_objects st) (object_name i) \<noteq> None \<longrightarrow> i \<in> fst ` set (cl_packs st))"

definition cloud_inv :: "libs \<Rightarrow> (hash \<Rightarrow> bytes) \<Rightarrow> cloud_store \<Rightarrow> bool" where
  "cloud_inv L V st \<longleftrightarrow>
     (\<forall>e \<in> set (cl_pending_chunks st). pending_good L V e)
   \<and> (\<forall>(i, m) \<in> set (cl_packs st). object_good L V (cl_objects st) i m)
   \<and> kinds_ok (ckinds st) \<and> (\<forall>h \<in> fst ` ckinds st. genuine L V h)
   \<and> bucket_loaded st \<and> cache_ok st"

text \<open>The service answers reads, and a file of the cache is written whole or not at all.\<close>

definition cloud_io_ok :: "cloud_io \<Rightarrow> bool" where
  "cloud_io_ok io \<longleftrightarrow> (\<forall>path. ci_read io path) \<and> (\<forall>k. ci_cache_write io \<noteq> Truncated k)"

text \<open>Reading changes the cache only.\<close>

definition cache_step :: "cloud_store \<Rightarrow> cloud_store \<Rightarrow> bool" where
  "cache_step st st' \<longleftrightarrow> (\<exists>c. st' = st\<lparr>cl_cache := c\<rparr>) \<and> cache_ok st'"

lemma cache_step_refl: "cache_ok st \<Longrightarrow> cache_step st st"
  by (auto simp: cache_step_def intro: exI [of _ "cl_cache st"])

lemma cache_step_trans: "cache_step st st1 \<Longrightarrow> cache_step st1 st2 \<Longrightarrow> cache_step st st2"
  by (auto simp: cache_step_def)

lemma cache_step_fields:
  assumes "cache_step st st'"
  shows "cl_pending_chunks st' = cl_pending_chunks st" "cl_packs st' = cl_packs st"
    "cl_objects st' = cl_objects st" "ckinds st' = ckinds st" "cl_pending_size st' = cl_pending_size st"
    "cl_pack_target_size st' = cl_pack_target_size st" "cl_next_pack_id st' = cl_next_pack_id st"
    "cloud_inv L V st \<Longrightarrow> cloud_inv L V st'"
  using assms by (auto simp: cache_step_def ckinds_def cloud_inv_def bucket_loaded_def)

lemma inv_cache_step: "cloud_inv L V st \<Longrightarrow> cache_step st st"
  by (simp add: cloud_inv_def cache_step_refl)

lemma inv_object_good: "cloud_inv L V st \<Longrightarrow> (i, m) \<in> set (cl_packs st) \<Longrightarrow> object_good L V (cl_objects st) i m"
  by (auto simp: cloud_inv_def)

text \<open>Any pack of the bucket is one of the loaded packs.\<close>

lemma inv_loaded:
  assumes "cloud_inv L V st" and "map_of (cl_objects st) (object_name i) = Some p"
  obtains m ck where "(i, m) \<in> set (cl_packs st)" "read_pack L p = Inr (pm_entries m, ck, pm_superblock m)"
    "\<forall>e \<in> set (pm_entries m). entry_good L V p (pm_superblock m) e"
proof -
  have "i \<in> fst ` set (cl_packs st)" using assms by (auto simp: cloud_inv_def bucket_loaded_def)
  then obtain m where "(i, m) \<in> set (cl_packs st)" by auto
  with inv_object_good [OF assms(1) this] assms(2) that show thesis by (auto simp: object_good_def)
qed

lemma in_ckinds_pack:
  "(i, m) \<in> set (cl_packs st) \<Longrightarrow> e \<in> set (pm_entries m)
     \<Longrightarrow> (ie_hash e, base_of (ie_entry_type e)) \<in> ckinds st"
  by (force simp: ckinds_def packs_kinds_def pack_kinds_def)

lemma in_ckinds_pending:
  "e \<in> set (cl_pending_chunks st) \<Longrightarrow> (pd_hash e, base_of (pd_entry_type e)) \<in> ckinds st"
  by (force simp: ckinds_def pending_kinds_def)

lemma ckinds_genuine: "cloud_inv L V st \<Longrightarrow> (h, k) \<in> ckinds st \<Longrightarrow> genuine L V h"
  by (force simp: cloud_inv_def)

lemma genuine_digest: "genuine L V h \<Longrightarrow> Hash (lib_blake3 L d) = h \<Longrightarrow> d = V h"
  by (auto simp: genuine_def)

section \<open>The cache\<close>

lemma cache_ok_insert:
  assumes "cloud_io_ok io" and "cache_ok st" and "map_of (cl_objects st) (object_name i) = Some data"
  shows "cache_ok (cache_insert io i data st)"
proof (cases "cl_cache st")
  case None
  with assms show ?thesis by (simp add: cache_insert_def)
next
  case (Some c)
  obtain lru files where c: "c = (lru, files)" by force
  obtain evicted lru' where push: "ci_lru_push io i lru = (evicted, lru')" by force
  have sub: "map_of (cache_remove io evicted files) n = Some d \<Longrightarrow> map_of files n = Some d" for n d
    by (auto simp: cache_remove_def delete_conv' split: option.splits if_splits)
  have "map_of (cl_objects st) (object_name j) = Some d"
    if "map_of (cache_write io i data (cache_remove io evicted files)) (cache_name j) = Some d" for j d
  proof (cases "map_of (cache_remove io evicted files) (cache_name j) = Some d")
    case True
    from sub [OF this] assms(2) Some c show ?thesis by (auto simp: cache_ok_def)
  next
    case False
    with that assms(1) have "i = j \<and> data = d"
      by (auto simp: cache_write_def cloud_io_ok_def update_conv' split: file_outcome.splits if_splits)
    with assms(3) show ?thesis by simp
  qed
  then show ?thesis by (simp add: cache_insert_def Some c push cache_ok_def)
qed

lemma cache_insert_cache: "cache_insert io i data st = st\<lparr>cl_cache := cl_cache (cache_insert io i data st)\<rparr>"
  by (cases st) (simp add: cache_insert_def split: option.split prod.split)

lemma read_pack_cached_spec:
  assumes io: "cloud_io_ok io" and ok: "cache_ok st"
  shows "\<exists>st'. cache_step st st' \<and> read_pack_cached io st i =
    (or_err (Cloud ''failed to download pack'') (map_of (cl_objects st) (object_name i)), st')"
proof (cases "cache_hit io st i")
  case None
  then have r: "read_pack_cached io st i = (case map_of (cl_objects st) (object_name i) of
      None \<Rightarrow> (Inl (Err (Cloud ''failed to download pack'')), st)
    | Some data \<Rightarrow> (Inr data, cache_insert io i data st))"
    using io by (simp add: read_pack_cached_def object_read_def cloud_io_ok_def split: option.splits)
  show ?thesis
  proof (cases "map_of (cl_objects st) (object_name i)")
    case None
    with r ok show ?thesis by (auto intro: cache_step_refl)
  next
    case (Some data)
    have "cache_step st (cache_insert io i data st)"
      using cache_ok_insert [OF io ok Some] cache_insert_cache [of io i data st]
      unfolding cache_step_def by blast
    with r Some show ?thesis by auto
  qed
next
  case (Some hit)
  then obtain data lru files where h: "hit = (data, st\<lparr>cl_cache := Some (ci_lru_put io i lru, files)\<rparr>)"
    "cl_cache st = Some (lru, files)" "map_of files (cache_name i) = Some data"
    by (auto simp: cache_hit_def split: option.splits if_splits)
  with ok have d: "map_of (cl_objects st) (object_name i) = Some data" by (auto simp: cache_ok_def)
  let ?st = "st\<lparr>cl_cache := Some (ci_lru_put io i lru, files)\<rparr>"
  have "cache_ok ?st" using ok h(2) by (simp add: cache_ok_def)
  then have "cache_step st ?st" unfolding cache_step_def by blast
  moreover have "read_pack_cached io st i = (Inr data, ?st)" by (simp add: read_pack_cached_def Some h(1))
  ultimately show ?thesis using d by auto
qed

section \<open>Reading what is held\<close>

text \<open>Extracting where a good entry lies, given that the base is read.\<close>

lemma extract_good:
  assumes good: "entry_good L V p sb e" and g: "genuine L V (ie_hash e)" and st: "cache_ok st"
    and loc: "pl_offset loc = ie_offset e" "pl_length loc = ie_length e" "pl_orig_length loc = ie_orig_length e"
    and get: "\<And>b. base_of (ie_entry_type e) = Some b \<Longrightarrow> \<exists>st'. cache_step st st' \<and> get st b = (Inr (V b), st')"
  shows "\<exists>st'. cache_step st st' \<and> extract_chunk L get st (ie_hash e) p loc (base_of (ie_entry_type e))
    (ie_entry_type e = FullRaw) sb = (Inr (V (ie_hash e)), st')"
proof -
  have dig: "Hash (lib_blake3 L (V (ie_hash e))) = ie_hash e" using g by (simp add: genuine_def)
  have same: "pl_offset loc = pl_offset (entry_location 0 e)" "pl_length loc = pl_length (entry_location 0 e)"
    "pl_orig_length loc = pl_orig_length (entry_location 0 e)" using loc by (simp_all add: entry_location_def)
  show ?thesis
  proof (cases "base_of (ie_entry_type e)")
    case None
    with good dig full_chunk_data_cong [OF same] cache_step_refl [OF st] show ?thesis
      by (auto simp: extract_chunk_def entry_good_def Let_def)
  next
    case (Some b)
    obtain st' where "cache_step st st'" "get st b = (Inr (V b), st')" using get [OF Some] by blast
    with good dig read_delta_chunk_cong [OF same] Some show ?thesis
      by (auto simp: extract_chunk_def entry_good_def Let_def)
  qed
qed

text \<open>
  What the index path may give: the chunk or an error, whatever location it is sent to, provided the
  same holds of the recursive calls.
\<close>

definition reads_or_fails :: "(hash \<Rightarrow> bytes) \<Rightarrow> cloud_store \<Rightarrow> hash \<Rightarrow> bytes result \<times> cloud_store \<Rightarrow> bool" where
  "reads_or_fails V st h r \<longleftrightarrow> cache_step st (snd r) \<and> (fst r = Inr (V h) \<or> (\<exists>e. fst r = Inl (Err e)))"

lemma extract_safe:
  assumes good: "entry_good L V p sb e" and g: "genuine L V h" and st: "cache_ok st"
    and loc: "pl_offset loc = ie_offset e" "pl_length loc = ie_length e"
    and get: "\<And>b. base_of (ie_entry_type e) = Some b \<Longrightarrow> reads_or_fails V st b (get st b)"
  shows "reads_or_fails V st h (extract_chunk L get st h p loc (base_of (ie_entry_type e))
    (ie_entry_type e = FullRaw) sb)"
proof -
  let ?checked = "\<lambda>r st. bind_state (r, st) (\<lambda>stored_data st.
     let actual_hash = lib_blake3 L stored_data
     in if Hash actual_hash \<noteq> h
        then (Inl (Err (ChecksumMismatch (to_hex h) (to_hex (Hash actual_hash)))), st)
        else (Inr stored_data, st))"
  have checked: "reads_or_fails V st h (?checked r st')" if "\<not> panics r" "cache_step st st'" for r st'
    using that genuine_digest [OF g]
    by (auto simp: reads_or_fails_def panics_def Let_def split: sum.splits failure.splits)
  show ?thesis
  proof (cases "base_of (ie_entry_type e)")
    case None
    with good have "full_chunk_data L p (entry_location 0 e) (ie_entry_type e = FullRaw) sb = Inr (V (ie_hash e))"
      by (simp add: entry_good_def)
    from full_chunk_data_no_panic [OF this, of loc] loc
    have "\<not> panics (full_chunk_data L p loc (ie_entry_type e = FullRaw) sb)" by (simp add: entry_location_def)
    from checked [OF this cache_step_refl [OF st]] None show ?thesis by (simp add: extract_chunk_def)
  next
    case (Some b)
    obtain r st' where r: "get st b = (r, st')" "cache_step st st'" "r = Inr (V b) \<or> (\<exists>e. r = Inl (Err e))"
      using get [OF Some] by (cases "get st b") (auto simp: reads_or_fails_def)
    show ?thesis
    proof (cases r)
      case (Inl x)
      with r Some show ?thesis by (auto simp: extract_chunk_def reads_or_fails_def)
    next
      case (Inr d)
      from checked [OF read_delta_chunk_no_panic r(2), of L p loc d] Inr r(1) Some
      show ?thesis by (simp add: extract_chunk_def)
    qed
  qed
qed

lemma read_from_cloud_safe:
  assumes io: "cloud_io_ok io" and inv: "cloud_inv L V st" and g: "genuine L V h"
    and get: "\<And>b st1. (b, None) \<in> ckinds st \<Longrightarrow> cache_step st st1 \<Longrightarrow> reads_or_fails V st1 b (get st1 b)"
  shows "reads_or_fails V st h (read_from_cloud L io get st h loc)"
proof -
  have ok: "cache_ok st" using inv by (simp add: cloud_inv_def)
  from read_pack_cached_spec [OF io ok, of "pl_pack_id loc"] obtain st1 where s1: "cache_step st st1"
    and r1: "read_pack_cached io st (pl_pack_id loc) = (or_err (Cloud ''failed to download pack'')
      (map_of (cl_objects st) (object_name (pl_pack_id loc))), st1)" by blast
  have ok1: "cache_ok st1" using s1 by (simp add: cache_step_def)
  show ?thesis
  proof (cases "map_of (cl_objects st) (object_name (pl_pack_id loc))")
    case None
    with r1 s1 show ?thesis by (simp add: read_from_cloud_def reads_or_fails_def)
  next
    case (Some p)
    from inv_loaded [OF inv Some] obtain m ck where m: "(pl_pack_id loc, m) \<in> set (cl_packs st)"
      "read_pack L p = Inr (pm_entries m, ck, pm_superblock m)"
      "\<forall>e \<in> set (pm_entries m). entry_good L V p (pm_superblock m) e" by blast
    show ?thesis
    proof (cases "List.find (\<lambda>e. ie_offset e = pl_offset loc \<and> ie_length e = pl_length loc) (pm_entries m)")
      case None
      with Some r1 s1 m show ?thesis by (simp add: read_from_cloud_def reads_or_fails_def)
    next
      case found: (Some e)
      then have e: "e \<in> set (pm_entries m)" "pl_offset loc = ie_offset e" "pl_length loc = ie_length e"
        by (auto dest: find_Some_in)
      have base: "reads_or_fails V st1 b (get st1 b)" if "base_of (ie_entry_type e) = Some b" for b
        using get [OF _ s1] inv in_ckinds_pack [OF m(1) e(1)] that by (auto simp: cloud_inv_def kinds_ok_def)
      have "reads_or_fails V st1 h (extract_chunk L get st1 h p loc (base_of (ie_entry_type e))
          (ie_entry_type e = FullRaw) (pm_superblock m))"
        by (rule extract_safe [where get = get, OF _ g ok1 e(2,3) base]) (use m(3) e(1) in simp_all)
      with s1 Some r1 m(2) found show ?thesis
        by (auto simp: read_from_cloud_def base_and_raw_eq reads_or_fails_def dest: cache_step_trans)
    qed
  qed
qed

lemma cloud_scan_reads:
  assumes io: "cloud_io_ok io" and inv: "cloud_inv L V st" and k: "(h, k) \<in> ckinds st"
    and np: "\<forall>e \<in> set (cl_pending_chunks st). pd_hash e \<noteq> h"
    and get: "\<And>b st1. (h, Some b) \<in> ckinds st \<Longrightarrow> cache_step st st1
      \<Longrightarrow> \<exists>st2. cache_step st1 st2 \<and> get st1 b = (Inr (V b), st2)"
  shows "\<exists>st'. cache_step st st' \<and> cloud_scan L io get st h = (Inr (V h), st')"
proof -
  have ok: "cache_ok st" using inv by (simp add: cloud_inv_def)
  have "(h, k) \<in> packs_kinds (cl_packs st)" using k np by (auto simp: ckinds_def pending_kinds_def)
  then have "scan_packs (cl_packs st) h \<noteq> None"
    unfolding scan_packs_None by (force simp: packs_kinds_def pack_kinds_def)
  then obtain i m e where sc: "scan_packs (cl_packs st) h = Some (i, m, e)" by auto
  from scan_packs_Some [OF sc] have m: "(i, m) \<in> set (cl_packs st)" "e \<in> set (pm_entries m)" "ie_hash e = h"
    by auto
  from inv_object_good [OF inv m(1)] obtain p where p: "map_of (cl_objects st) (object_name i) = Some p"
    "entry_good L V p (pm_superblock m) e" using m(2) by (auto simp: object_good_def)
  from read_pack_cached_spec [OF io ok, of i] p obtain st1 where s1: "cache_step st st1"
    and r1: "read_pack_cached io st i = (Inr p, st1)" by auto
  have ok1: "cache_ok st1" using s1 by (simp add: cache_step_def)
  have "\<exists>st2. cache_step st1 st2 \<and> extract_chunk L get st1 (ie_hash e) p (entry_location i e)
      (base_of (ie_entry_type e)) (ie_entry_type e = FullRaw) (pm_superblock m) = (Inr (V (ie_hash e)), st2)"
    by (rule extract_good [OF p(2) _ ok1])
      (use ckinds_genuine [OF inv k] get [OF _ s1] in_ckinds_pack [OF m(1,2)] m(3) in
        \<open>auto simp: entry_location_def\<close>)
  with s1 r1 sc m(3) show ?thesis
    by (auto simp: cloud_scan_def base_and_raw_eq dest: cache_step_trans)
qed

lemma find_cloud_pending_full:
  assumes inv: "cloud_inv L V st" and k: "(h, None) \<in> ckinds st"
    and f: "List.find (\<lambda>e. pd_hash e = h) (cl_pending_chunks st) = Some e"
  shows "pd_data e = V h"
proof -
  from f have e: "e \<in> set (cl_pending_chunks st)" "pd_hash e = h" by (auto dest: find_Some_in)
  have "base_of (pd_entry_type e) = None"
    using inv in_ckinds_pending [OF e(1)] k e(2)
    by (cases "base_of (pd_entry_type e)") (auto simp: cloud_inv_def kinds_ok_def)
  with inv e show ?thesis by (auto simp: cloud_inv_def pending_good_def)
qed

definition exact_read :: "(hash \<Rightarrow> bytes) \<Rightarrow> cloud_store \<Rightarrow> hash \<Rightarrow> bytes result \<times> cloud_store \<Rightarrow> bool" where
  "exact_read V st h r \<longleftrightarrow> cache_step st (snd r) \<and> fst r = Inr (V h)"

lemma exact_read_alt: "exact_read V st h r \<longleftrightarrow> (\<exists>st'. cache_step st st' \<and> r = (Inr (V h), st'))"
  by (cases r) (auto simp: exact_read_def)

lemma exact_reads_or_fails: "exact_read V st h r \<Longrightarrow> reads_or_fails V st h r"
  by (simp add: exact_read_def reads_or_fails_def)

lemma exact_read_trans: "cache_step st st1 \<Longrightarrow> exact_read V st1 h r \<Longrightarrow> exact_read V st h r"
  by (auto simp: exact_read_def dest: cache_step_trans)

lemma cloud_get_inner_reads:
  assumes io: "cloud_io_ok io" and inv: "cloud_inv L V st" and d: "depth \<le> 16"
    and k: "(h, k) \<in> ckinds st" and np: "k \<noteq> None \<Longrightarrow> \<forall>e \<in> set (cl_pending_chunks st). pd_hash e \<noteq> h"
    and safe: "\<And>b st1. (b, None) \<in> ckinds st \<Longrightarrow> cache_step st st1
      \<Longrightarrow> reads_or_fails V st1 b (cloud_get_inner L io ix (Suc depth) st1 b)"
    and exact: "\<And>b st1. k \<noteq> None \<Longrightarrow> (b, None) \<in> ckinds st \<Longrightarrow> cache_step st st1
      \<Longrightarrow> exact_read V st1 b (cloud_get_inner L io ix (Suc depth) st1 b)"
  shows "exact_read V st h (cloud_get_inner L io ix depth st h)"
proof (cases "List.find (\<lambda>e. pd_hash e = h) (cl_pending_chunks st)")
  case (Some e)
  then have "k = None" using np find_Some_in by fastforce
  with find_cloud_pending_full [OF inv _ Some] k d Some inv_cache_step [OF inv] show ?thesis
    by (simp add: cloud_get_inner.simps exact_read_def)
next
  case None
  have ko: "kinds_ok (ckinds st)" using inv by (simp add: cloud_inv_def)
  let ?get = "\<lambda>st b. cloud_get_inner L io ix (Suc depth) st b"
  have scan: "exact_read V st1 h (cloud_scan L io ?get st1 h)" if st1: "cache_step st st1" for st1
    unfolding exact_read_alt
  proof (rule cloud_scan_reads [OF io])
    show "cloud_inv L V st1" "(h, k) \<in> ckinds st1" "\<forall>e \<in> set (cl_pending_chunks st1). pd_hash e \<noteq> h"
      using cache_step_fields [OF st1] inv k None by (simp_all add: find_None_iff_all)
    fix b st2 assume b: "(h, Some b) \<in> ckinds st1" "cache_step st1 st2"
    then have "(b, None) \<in> ckinds st" "k \<noteq> None"
      using ko k cache_step_fields(4) [OF st1] by (cases k; auto simp: kinds_ok_def)+
    from exact [OF this(2,1) cache_step_trans [OF st1 b(2)]]
    show "\<exists>st'. cache_step st2 st' \<and> ?get st2 b = (Inr (V b), st')" by (simp add: exact_read_alt)
  qed
  show ?thesis
  proof (cases "ix h")
    case ixN: None
    with d None scan [OF inv_cache_step [OF inv]] show ?thesis
      by (subst cloud_get_inner.simps) (simp add: Let_def)
  next
    case (Some loc)
    have r: "reads_or_fails V st h (read_from_cloud L io ?get st h loc)"
      by (rule read_from_cloud_safe [OF io inv ckinds_genuine [OF inv k]]) (rule safe)
    obtain x st1 where x: "read_from_cloud L io ?get st h loc = (x, st1)" by force
    have eq: "cloud_get_inner L io ix depth st h = (case x of
        Inr data \<Rightarrow> (Inr data, st1) | Inl (Panic m) \<Rightarrow> (Inl (Panic m), st1)
      | Inl (Err e) \<Rightarrow> cloud_scan L io ?get st1 h)"
      using d None Some x by (subst cloud_get_inner.simps)
        (simp add: Let_def split: sum.split failure.split)
    from r x have "cache_step st st1" "x = Inr (V h) \<or> (\<exists>e. x = Inl (Err e))" by (auto simp: reads_or_fails_def)
    with scan [of st1] eq show ?thesis by (auto simp: exact_read_def dest: cache_step_trans)
  qed
qed

lemma cloud_get_too_deep: "cloud_get_inner L io ix (Suc 16) st b
    = (Inl (Err (InvalidPackFormat ''delta chain too deep (possible cycle)'')), st)"
  by (simp add: cloud_get_inner.simps)

lemma cloud_get_inner_full:
  assumes io: "cloud_io_ok io"
  shows "cloud_inv L V st \<Longrightarrow> (h, None) \<in> ckinds st \<Longrightarrow> depth \<le> 16
    \<Longrightarrow> exact_read V st h (cloud_get_inner L io ix depth st h)"
proof (induction "16 - depth" arbitrary: h depth st)
  case 0
  then have d: "depth = 16" by simp
  show ?case
    by (rule cloud_get_inner_reads [OF io 0(2) 0(4) 0(3)])
      (simp_all only: d cloud_get_too_deep reads_or_fails_def, auto simp: cache_step_def)
next
  case (Suc n)
  have ih: "exact_read V st1 b (cloud_get_inner L io ix (Suc depth) st1 b)"
    if "(b, None) \<in> ckinds st" "cache_step st st1" for b st1
    using Suc.hyps(1) [of "Suc depth" st1 b] Suc.hyps(2) Suc.prems that cache_step_fields [OF that(2)] by simp
  show ?case
    by (rule cloud_get_inner_reads [OF io Suc.prems(1,3,2)]) (use ih exact_reads_or_fails in auto)
qed

lemma cloud_get_full:
  assumes "cloud_io_ok io" and "cloud_inv L V st" and "(h, None) \<in> ckinds st"
  shows "exact_read V st h (cloud_get L io ix st h)"
  using cloud_get_inner_full [OF assms(1,2,3)] by (simp add: cloud_get_def)

lemma cloud_get_any:
  assumes io: "cloud_io_ok io" and inv: "cloud_inv L V st" and k: "(h, k) \<in> ckinds st"
    and np: "\<forall>e \<in> set (cl_pending_chunks st). pd_hash e \<noteq> h"
  shows "exact_read V st h (cloud_get L io ix st h)"
proof -
  have ih: "exact_read V st1 b (cloud_get_inner L io ix (Suc 0) st1 b)"
    if "(b, None) \<in> ckinds st" "cache_step st st1" for b st1
    using cloud_get_inner_full [OF io, of L V st1 b "Suc 0" ix] inv that cache_step_fields [OF that(2)] by simp
  show ?thesis unfolding cloud_get_def
    by (rule cloud_get_inner_reads [OF io inv _ k np]) (use ih exact_reads_or_fails in auto)
qed

section \<open>Flushing\<close>

lemma object_write_Inr:
  "object_write io c path data st = (Inr u, st') \<longleftrightarrow> ci_write io path = Put_Done
     \<and> st' = st\<lparr>cl_objects := AList.update path data (cl_objects st)\<rparr>"
  by (auto simp: object_write_def Let_def split: put_outcome.splits)

lemma write_meta_index_Inr:
  assumes "write_meta_index io st = (Inr u, st')"
  shows "(\<exists>objects. st' = st\<lparr>cl_objects := objects\<rparr>)
    \<and> (\<forall>i. map_of (cl_objects st') (object_name i) = map_of (cl_objects st) (object_name i))"
  using assms
  by (auto simp: write_meta_index_def Let_def res_simps object_write_Inr update_conv' delete_conv'
      split: if_splits intro: exI [of _ "cl_objects st"])

text \<open>A flush that succeeds.\<close>

lemma cloud_run_flush_Inr:
  assumes run: "cloud_run_flush L io st = (Inr pack_id, st')" and ne: "cl_pending_chunks st \<noteq> []"
  obtains p m ck where
    "pack_id = cl_next_pack_id st" "write_pack L (map pack_entry_of (cl_pending_chunks st)) = Inr p"
    "read_pack L p = Inr (pm_entries m, ck, pm_superblock m)"
    "cl_packs st' = AList.update pack_id m (cl_packs st)"
    "cl_pending_chunks st' = []" "cl_pending_size st' = 0" "cl_next_pack_id st' = pack_id + 1"
    "cl_pack_target_size st' = cl_pack_target_size st"
    "cl_cache st' = map_option (\<lambda>(lru, files). (lru, cache_write io pack_id p files)) (cl_cache st)"
    "\<forall>i. map_of (cl_objects st') (object_name i)
       = (if i = pack_id then Some p else map_of (cl_objects st) (object_name i))"
    "ci_write io (object_name pack_id) = Put_Done"
proof -
  let ?st0 = "st\<lparr>cl_next_pack_id := cl_next_pack_id st + 1, cl_pending_chunks := [], cl_pending_size := 0\<rparr>"
  let ?cache = "\<lambda>p. map_option (\<lambda>(lru, files). (lru, cache_write io (cl_next_pack_id st) p files)) (cl_cache st)"
  from run obtain meta st1 u where
    w: "cloud_flush_write L io (map pack_entry_of (cl_pending_chunks st)) (cl_next_pack_id st) ?st0 = (Inr meta, st1)"
    and mi: "write_meta_index io (st1\<lparr>cl_packs := AList.update (cl_next_pack_id st) meta (cl_packs st1)\<rparr>) = (Inr u, st')"
    and pid: "pack_id = cl_next_pack_id st"
    by (auto simp: cloud_run_flush_def cloud_flush_prepare_def Let_def res_simps)
  from w ne obtain p ck where p: "write_pack L (map pack_entry_of (cl_pending_chunks st)) = Inr p"
    "read_pack L p = Inr (pm_entries meta, ck, pm_superblock meta)"
    "ci_write io (object_name (cl_next_pack_id st)) = Put_Done"
    and st1: "st1 = ?st0\<lparr>cl_objects := AList.update (object_name (cl_next_pack_id st)) p (cl_objects st),
        cl_cache := ?cache p\<rparr>"
    by (cases st; cases "cl_cache st") (auto simp: cloud_flush_write_def Let_def res_simps object_write_Inr
        split: option.splits prod.splits sum.splits failure.splits)
  from write_meta_index_Inr [OF mi] st1 obtain objects where st': "st' = (st1\<lparr>cl_packs :=
      AList.update (cl_next_pack_id st) meta (cl_packs st1)\<rparr>)\<lparr>cl_objects := objects\<rparr>"
    and objs: "\<forall>i. map_of (cl_objects st') (object_name i) = map_of (cl_objects st1) (object_name i)" by auto
  show thesis
    by (rule that [of p meta ck]) (use p pid objs st1 st' in \<open>simp_all add: update_conv'\<close>)
qed

definition cloud_fresh :: "cloud_store \<Rightarrow> bool" where
  "cloud_fresh st \<longleftrightarrow> distinct (map fst (cl_packs st)) \<and> (\<forall>i \<in> fst ` set (cl_packs st). i < cl_next_pack_id st)"

lemma cloud_run_flush_spec:
  assumes io: "cloud_io_ok io" and ok: "libs_ok L" and inv: "cloud_inv L V st" and fresh: "cloud_fresh st"
    and fits: "flush_fits L (cl_pending_chunks st)" and ne: "cl_pending_chunks st \<noteq> []"
    and room: "cl_next_pack_id st + 1 \<noteq> 0" and run: "cloud_run_flush L io st = (Inr pack_id, st')"
  shows "cloud_inv L V st' \<and> cloud_fresh st' \<and> ckinds st' = ckinds st \<and> cl_pending_chunks st' = []
    \<and> cl_pending_size st' = 0 \<and> cl_next_pack_id st' = cl_next_pack_id st + 1
    \<and> cl_pack_target_size st' = cl_pack_target_size st"
proof -
  let ?i = "cl_next_pack_id st"
  obtain p m ck where f: "pack_id = ?i" "write_pack L (map pack_entry_of (cl_pending_chunks st)) = Inr p"
    "read_pack L p = Inr (pm_entries m, ck, pm_superblock m)"
    "cl_packs st' = AList.update pack_id m (cl_packs st)"
    "cl_pending_chunks st' = []" "cl_pending_size st' = 0" "cl_next_pack_id st' = pack_id + 1"
    "cl_pack_target_size st' = cl_pack_target_size st"
    "cl_cache st' = map_option (\<lambda>(lru, files). (lru, cache_write io pack_id p files)) (cl_cache st)"
    "\<forall>i. map_of (cl_objects st') (object_name i)
       = (if i = pack_id then Some p else map_of (cl_objects st) (object_name i))"
    "ci_write io (object_name pack_id) = Put_Done"
    by (rule cloud_run_flush_Inr [OF run ne])
  have new: "?i \<notin> fst ` set (cl_packs st)" using fresh by (auto simp: cloud_fresh_def)
  have packs: "cl_packs st' = cl_packs st @ [(?i, m)]" using f(1,4) update_new [OF new] by simp
  have objs: "map_of (cl_objects st') (object_name i)
      = (if i = ?i then Some p else map_of (cl_objects st) (object_name i))" for i using f(1,10) by simp
  have "\<forall>e \<in> set (cl_pending_chunks st). pending_good L V e" using inv by (simp add: cloud_inv_def)
  from flushed_pack_good [OF ok fits f(2) this] f(3)
  have good: "\<forall>ie \<in> set (pm_entries m). entry_good L V p (pm_superblock m) ie"
    and k: "pack_kinds m = pending_kinds (cl_pending_chunks st)" by (auto simp: pack_kinds_def)
  have ks: "ckinds st' = ckinds st" using f(5) k by (auto simp: ckinds_def packs)
  have old: "object_good L V (cl_objects st') j m'" if "(j, m') \<in> set (cl_packs st)" for j m'
  proof -
    have "j \<noteq> ?i" using new that by force
    with inv_object_good [OF inv that] show ?thesis by (simp add: object_good_def objs)
  qed
  have all: "\<forall>(i, m) \<in> set (cl_packs st'). object_good L V (cl_objects st') i m"
    using old f(3) good by (auto simp: packs object_good_def objs)
  have loaded: "bucket_loaded st'" using inv by (auto simp: cloud_inv_def bucket_loaded_def objs packs)
  have absent: "map_of (cl_objects st) (object_name ?i) = None"
    using inv new by (auto simp: cloud_inv_def bucket_loaded_def)
  have cache: "cache_ok st'"
    unfolding cache_ok_def
  proof (intro allI impI)
    fix lru files j d assume c: "cl_cache st' = Some (lru, files)" and d: "map_of files (cache_name j) = Some d"
    obtain files0 where c0: "cl_cache st = Some (lru, files0)" "files = cache_write io ?i p files0"
      using c f(1,9) by auto
    show "map_of (cl_objects st') (object_name j) = Some d"
    proof (cases "map_of files0 (cache_name j) = Some d \<and> j \<noteq> ?i")
      case True
      then show ?thesis using inv c0 by (auto simp: cloud_inv_def cache_ok_def objs)
    next
      case False
      have "map_of files0 (cache_name ?i) = None"
        using inv c0(1) absent by (cases "map_of files0 (cache_name ?i)") (auto simp: cloud_inv_def cache_ok_def)
      with False d c0(2) io show ?thesis
        by (auto simp: cache_write_def cloud_io_ok_def update_conv' objs split: file_outcome.splits if_splits)
    qed
  qed
  have "cloud_inv L V st'"
    using inv all loaded cache f(5) unfolding cloud_inv_def ks by simp
  moreover have "cloud_fresh st'"
    using fresh room f(1,7) by (auto simp: packs cloud_fresh_def less_next_word next_word_greater)
  ultimately show ?thesis using ks f by simp
qed

section \<open>A store that is ready for more\<close>

definition cloud_sizes :: "cloud_store \<Rightarrow> bool" where
  "cloud_sizes st \<longleftrightarrow> cl_pack_target_size st = 16 * 1024 * 1024
     \<and> unat (cl_pending_size st) = sum_list (map (\<lambda>e. length (pd_data e)) (cl_pending_chunks st))
     \<and> sum_list (map (\<lambda>e. length (pd_data e)) (cl_pending_chunks st)) < 16 * 1024 * 1024"

definition cloud_serving :: "libs \<Rightarrow> cloud_io \<Rightarrow> (hash \<Rightarrow> bytes) \<Rightarrow> nat \<Rightarrow> cloud_store \<Rightarrow> bool" where
  "cloud_serving L io V n st \<longleftrightarrow> libs_ok L \<and> packs_fit L \<and> cloud_io_ok io \<and> cloud_inv L V st
     \<and> cloud_fresh st \<and> cloud_sizes st \<and> unat (cl_next_pack_id st) + n < 2 ^ 32"

definition cloud_settled :: "cloud_store \<Rightarrow> bool" where
  "cloud_settled st \<longleftrightarrow> cl_pending_chunks st = []"

definition cloud_append :: "cloud_store \<Rightarrow> pending_entry \<Rightarrow> cloud_store" where
  "cloud_append st new = st\<lparr>cl_pending_chunks := cl_pending_chunks st @ [new],
     cl_pending_size := cl_pending_size st + of_nat (length (pd_data new))\<rparr>"

lemma cloud_append_simps [simp]:
  "cl_pending_chunks (cloud_append st new) = cl_pending_chunks st @ [new]"
  "cl_packs (cloud_append st new) = cl_packs st" "cl_objects (cloud_append st new) = cl_objects st"
  "cl_next_pack_id (cloud_append st new) = cl_next_pack_id st"
  "cl_pack_target_size (cloud_append st new) = cl_pack_target_size st"
  "cl_cache (cloud_append st new) = cl_cache st"
  "ckinds (cloud_append st new) = insert (pd_hash new, base_of (pd_entry_type new)) (ckinds st)"
  "cloud_fresh (cloud_append st new) = cloud_fresh st"
  by (auto simp: cloud_append_def ckinds_def cloud_fresh_def)

lemma cloud_append_inv:
  assumes "cloud_inv L V st" and "pending_good L V new" and "genuine L V (pd_hash new)"
    and "kinds_ok (insert (pd_hash new, base_of (pd_entry_type new)) (ckinds st))"
  shows "cloud_inv L V (cloud_append st new)"
  using assms by (auto simp: cloud_inv_def bucket_loaded_def cache_ok_def)

lemma cloud_append_sizes:
  assumes "cloud_sizes st" and "length (pd_data new) \<le> 2 ^ 20"
  shows "unat (cl_pending_size (cloud_append st new))
      = sum_list (map (\<lambda>e. length (pd_data e)) (cl_pending_chunks st @ [new]))
    \<and> sum_list (map (\<lambda>e. length (pd_data e)) (cl_pending_chunks st @ [new])) < 2 ^ 25"
proof -
  have "unat (of_nat (length (pd_data new)) :: u64) = length (pd_data new)"
    using assms(2) by (simp add: unat_of_nat_u64)
  with assms show ?thesis by (simp add: cloud_append_def cloud_sizes_def unat_word_ariths)
qed

lemma cloud_put_new_entry:
  assumes rdy: "cloud_serving L io V (Suc n) st" and ix: "ix (pd_hash new) = None"
    and new: "\<forall>k. (pd_hash new, k) \<notin> ckinds st" and g: "genuine L V (pd_hash new)"
    and good: "pending_good L V new" and small: "length (pd_data new) \<le> 2 ^ 20"
    and base: "\<forall>b. base_of (pd_entry_type new) = Some b \<longrightarrow> (b, None) \<in> ckinds st"
    and put: "cloud_put_entry L io ix st new = (Inr loc, st')"
  shows "cloud_serving L io V n st' \<and> ckinds st' = insert (pd_hash new, base_of (pd_entry_type new)) (ckinds st)"
proof -
  have r: "libs_ok L" "packs_fit L" "cloud_io_ok io" "cloud_inv L V st" "cloud_fresh st" "cloud_sizes st"
    "unat (cl_next_pack_id st) + Suc n < 2 ^ 32" using rdy by (simp_all add: cloud_serving_def)
  let ?st = "cloud_append st new"
  have np: "List.find (\<lambda>e. pd_hash e = pd_hash new) (cl_pending_chunks st) = None"
    using new in_ckinds_pending [of _ st] unfolding find_None_iff_all by metis
  have ko: "kinds_ok (insert (pd_hash new, base_of (pd_entry_type new)) (ckinds st))"
    using r(4) new base kinds_ok_insert_full kinds_ok_insert_delta
    by (cases "base_of (pd_entry_type new)") (auto simp: cloud_inv_def)
  have inv: "cloud_inv L V ?st" by (rule cloud_append_inv [OF r(4) good g ko])
  note sz = cloud_append_sizes [OF r(6) small]
  have tgt: "cl_pack_target_size ?st = 16 * 1024 * 1024" using r(6) by (simp add: cloud_sizes_def)
  show ?thesis
  proof (cases "cl_pending_size ?st \<ge> cl_pack_target_size ?st")
    case False
    then have "unat (cl_pending_size ?st) < 16 * 1024 * 1024" using tgt by (simp add: word_less_nat_alt not_le)
    with sz tgt have "cloud_sizes ?st" by (simp add: cloud_sizes_def)
    moreover have "st' = ?st"
      using put ix np False by (auto simp: cloud_put_entry_def cloud_append_def Let_def)
    ultimately show ?thesis using r inv by (simp add: cloud_serving_def)
  next
    case True
    with put ix np obtain pack_id where run: "cloud_run_flush L io ?st = (Inr pack_id, st')"
      by (auto simp: cloud_put_entry_def cloud_append_def Let_def res_simps)
    have room: "cl_next_pack_id ?st + 1 \<noteq> 0" "unat (cl_next_pack_id ?st + 1) = Suc (unat (cl_next_pack_id st))"
      using room_next [of "cl_next_pack_id st" n] r(7) by simp_all
    have fits: "flush_fits L (cl_pending_chunks ?st)"
      by (rule packs_fit_flush [OF r(2)]) (use sz in simp)
    have "cloud_fresh ?st" "cl_pending_chunks ?st \<noteq> []" using r(5) by simp_all
    from cloud_run_flush_spec [OF r(3,1) inv this(1) fits this(2) room(1) run]
    show ?thesis using r(1-3,7) room(2) tgt by (simp add: cloud_serving_def cloud_sizes_def)
  qed
qed

lemma cloud_flush_keeps:
  assumes rdy: "cloud_serving L io V (Suc n) st" and fl: "cloud_flush L io st = (Inr (), st')"
  shows "cloud_serving L io V n st' \<and> cloud_settled st' \<and> ckinds st' = ckinds st"
proof (cases "cl_pending_chunks st = []")
  case True
  with assms show ?thesis by (auto simp: cloud_flush_def cloud_serving_def cloud_settled_def)
next
  case False
  with fl obtain pack_id where run: "cloud_run_flush L io st = (Inr pack_id, st')"
    by (auto simp: cloud_flush_def res_simps)
  have r: "libs_ok L" "packs_fit L" "cloud_io_ok io" "cloud_inv L V st" "cloud_fresh st" "cloud_sizes st"
    "unat (cl_next_pack_id st) + Suc n < 2 ^ 32" using rdy by (simp_all add: cloud_serving_def)
  have room: "cl_next_pack_id st + 1 \<noteq> 0" "unat (cl_next_pack_id st + 1) = Suc (unat (cl_next_pack_id st))"
    using room_next [of "cl_next_pack_id st" n] r(7) by simp_all
  have fits: "flush_fits L (cl_pending_chunks st)"
    by (rule packs_fit_flush [OF r(2)]) (use r(6) in \<open>simp add: cloud_sizes_def\<close>)
  from cloud_run_flush_spec [OF r(3,1,4,5) fits False room(1) run]
  show ?thesis using r room(2) by (simp add: cloud_serving_def cloud_sizes_def cloud_settled_def)
qed

lemma cloud_sign_keeps:
  assumes rdy: "cloud_serving L io V n st" and put: "cloud_put_signature st h sg = (r, st')"
  shows "cloud_serving L io V n st' \<and> ckinds st' = ckinds st"
proof (cases "sign_first h sg (cl_pending_chunks st)")
  case None
  with assms show ?thesis by (auto simp: cloud_put_signature_def)
next
  case (Some es)
  with put have st': "st' = st\<lparr>cl_pending_chunks := es\<rparr>" by (auto simp: cloud_put_signature_def)
  note sp = sign_first_spec [OF Some]
  have len: "map (\<lambda>e. length (pd_data e)) es = map (\<lambda>e. length (pd_data e)) (cl_pending_chunks st)"
    using arg_cong [OF sp [THEN conjunct2, THEN conjunct1], of "map length"] by (simp add: comp_def)
  have ks: "ckinds st' = ckinds st" using sp st' by (simp add: ckinds_def)
  have "\<forall>e \<in> set es. pending_good L V e" using sp rdy by (fastforce simp: cloud_serving_def cloud_inv_def)
  then have "cloud_inv L V st'"
    using rdy unfolding cloud_serving_def cloud_inv_def ks by (simp add: st' bucket_loaded_def cache_ok_def)
  moreover have "cloud_sizes st' = cloud_sizes st" "cloud_fresh st' = cloud_fresh st"
    unfolding cloud_sizes_def cloud_fresh_def st' by (simp_all add: len)
  ultimately show ?thesis using rdy ks by (simp add: cloud_serving_def st')
qed

lemma cloud_serving_cache_step:
  "cloud_serving L io V n st \<Longrightarrow> cache_step st st' \<Longrightarrow> cloud_serving L io V n st'"
  using cache_step_fields [of st st']
  by (simp add: cloud_serving_def cloud_fresh_def cloud_sizes_def)

lemma cloud_put_entry_known: "ix (pd_hash new) = Some loc \<Longrightarrow> cloud_put_entry L io ix st new = (Inr loc, st)"
  by (simp add: cloud_put_entry_def)

interpretation cloud_contract: content_store_contract "cloud_ops L io" L V ckinds "cloud_serving L io V" cloud_settled
  for L io V
proof (unfold_locales, goal_cases)
  case (1 n s) then show ?case by (simp add: cloud_serving_def cloud_inv_def)
next
  case (2 n s) then show ?case by (simp add: cloud_serving_def)
next
  case (3 n s h k) then show ?case by (auto simp: cloud_serving_def dest: ckinds_genuine)
next
  case (4 n s ix h loc d) then show ?case by (simp add: cloud_ops_def cloud_put_def cloud_put_entry_known)
next
  case (5 n s ix h loc b d l) then show ?case
    by (simp add: cloud_ops_def cloud_put_delta_def cloud_put_entry_known)
next
  case (6 n s ix h loc s')
  let ?new = "\<lparr>pd_hash = h, pd_data = V h, pd_orig_length = of_nat (length (V h)),
      pd_entry_type = Full, pd_signature = None\<rparr>"
  from 6 cloud_put_new_entry [of L io V n s ix ?new loc s'] show ?case
    by (simp add: cloud_ops_def cloud_put_def pending_good_def base_of_def)
next
  case (7 n s ix h b d l loc s')
  let ?new = "\<lparr>pd_hash = h, pd_data = d, pd_orig_length = l,
      pd_entry_type = Delta b, pd_signature = None\<rparr>"
  from 7 cloud_put_new_entry [of L io V n s ix ?new loc s'] show ?case
    by (simp add: cloud_ops_def cloud_put_delta_def pending_good_def base_of_def)
next
  case (8 n s h sg r s') then show ?case using cloud_sign_keeps [of L io V n s h sg r s'] by (simp add: cloud_ops_def)
next
  case (9 n s h ix got s')
  then have "exact_read V s h (got, s')"
    using cloud_get_full [of io L V s h ix] by (simp add: cloud_serving_def cloud_ops_def)
  with 9 show ?case
    by (auto simp: exact_read_def cache_step_fields(4) intro: cloud_serving_cache_step)
next
  case (10 n s h k ix got s')
  then have "exact_read V s h (got, s')"
    using cloud_get_any [of io L V s h k ix] by (simp add: cloud_serving_def cloud_ops_def cloud_settled_def)
  with 10 show ?case
    by (auto simp: exact_read_def cache_step_fields(1,4) cloud_settled_def intro: cloud_serving_cache_step)
next
  case (11 n s s') then show ?case by (auto simp: cloud_ops_def dest: cloud_flush_keeps)
qed

end
