(* ===== verification/Cloud_Reopen.thy ===== *)
theory Cloud_Reopen
  imports Cloud_Contract
begin

text \<open>
  Closing a cloud store and opening it again from its global index: what is found and what is lost.
\<close>

section \<open>The index of an opened store\<close>

text \<open>The lookups of the shared index, for the operations of the stores.\<close>

definition index_lookup :: "(bytes \<Rightarrow> bytes \<Rightarrow> bytes) \<Rightarrow> hash_index \<Rightarrow> hash \<Rightarrow> pack_location option" where
  "index_lookup keyed ix h = (case hi_lookup keyed ix h of Inr r \<Rightarrow> r | Inl _ \<Rightarrow> None)"

definition meta_location :: "meta_index_entry \<Rightarrow> hash \<times> pack_location" where
  "meta_location entry = (Hash (mi_hash entry), location_of_meta entry)"

definition packs_meta :: "(u32 \<times> pack_metadata) list \<Rightarrow> meta_index_entry list" where
  "packs_meta packs = concat (map (\<lambda>(pack_id, pack). map (meta_of pack_id) (pm_entries pack)) packs)"

lemma meta_location_of [simp]: "meta_location (meta_of i e) = (ie_hash e, entry_location i e)"
  by (cases "ie_hash e") (simp add: meta_location_def meta_of_def location_of_meta_def entry_location_def)

lemma set_packs_meta:
  "set (map meta_location (packs_meta packs))
     = {(ie_hash e, entry_location i e) |i m e. (i, m) \<in> set packs \<and> e \<in> set (pm_entries m)}"
proof (induction packs)
  case (Cons p packs)
  obtain i m where p: "p = (i, m)" by force
  have "packs_meta (p # packs) = map (meta_of i) (pm_entries m) @ packs_meta packs"
    by (simp add: packs_meta_def p)
  with Cons show ?case unfolding p by (simp add: image_image) blast
qed (simp add: packs_meta_def)

lemma index_lookup_all:
  "\<exists>ix. insert_all (hi_insert keyed) (hi_new 1000000) es = Inr ix
     \<and> index_lookup keyed ix = map_of (rev es)"
proof -
  have wf: "hi_wf keyed (hi_new 1000000)" by (rule hi_new_wf) simp_all
  obtain ix where ix: "insert_all (hi_insert keyed) (hi_new 1000000) es = Inr ix" "hi_wf keyed ix"
    "hi_map ix = map_of (rev es)"
    using hash_index.insert_all_ok [OF wf, of es] by (auto simp: hi_new_def)
  then show ?thesis using hash_index.lookup_abs [OF ix(2)] by (auto simp: index_lookup_def)
qed

lemma open_from_meta:
  assumes "read_meta_index io objects = Some entries"
  shows "\<exists>next ix. cloud_open L keyed io objects cache (hi_new 1000000)
      = Inr ((cloud_fresh_store objects cache)\<lparr>cl_next_pack_id := next\<rparr>, ix)
    \<and> index_lookup keyed ix = map_of (rev (map meta_location entries))"
proof -
  obtain ix where "insert_all (hi_insert keyed) (hi_new 1000000) (map meta_location entries) = Inr ix"
    "index_lookup keyed ix = map_of (rev (map meta_location entries))" using index_lookup_all by blast
  moreover have "(\<lambda>entry. (Hash (mi_hash entry), location_of_meta entry)) = meta_location"
    by (simp add: meta_location_def fun_eq_iff)
  ultimately show ?thesis
    using assms by (auto simp: cloud_open_def cloud_populate_def cloud_fresh_store_def)
qed

text \<open>The decoder reads what the encoder wrote.\<close>

definition meta_codec_ok :: "cloud_io \<Rightarrow> bool" where
  "meta_codec_ok io \<longleftrightarrow> (\<forall>es bs. ci_ser_meta io es = Some bs \<longrightarrow> ci_de_meta io bs = Some es)"

lemma run_flush_meta:
  assumes run: "cloud_run_flush L io st = (Inr pack_id, st')" and codec: "meta_codec_ok io"
    and reads: "\<forall>path. ci_read io path" and some: "packs_meta (cl_packs st') \<noteq> []"
  shows "read_meta_index io (cl_objects st') = Some (packs_meta (cl_packs st'))"
proof -
  from run obtain st1 u where mi: "write_meta_index io st1 = (Inr u, st')"
    by (auto simp: cloud_run_flush_def Let_def res_simps split: prod.splits)
  have packs: "cl_packs st1 = cl_packs st'" using write_meta_index_Inr [OF mi] by auto
  from mi some obtain data where "ci_ser_meta io (packs_meta (cl_packs st')) = Some data"
    "cl_objects st' = AList.update META_INDEX_PATH data (cl_objects st1)"
    unfolding packs [symmetric]
    by (auto simp: write_meta_index_def packs_meta_def Let_def res_simps object_write_Inr split: if_splits)
  with codec reads show ?thesis
    by (auto simp: read_meta_index_def object_read_def meta_codec_ok_def update_conv')
qed

section \<open>Reading through the index alone\<close>

text \<open>
  In a pack, no two entries have the same offset and length. The offsets of full chunks count from
  the super-block and those of deltas from the file, so this is not a matter of course.
\<close>

definition locations_distinct :: "pack_metadata \<Rightarrow> bool" where
  "locations_distinct m \<longleftrightarrow> (\<forall>e \<in> set (pm_entries m). \<forall>e' \<in> set (pm_entries m).
     ie_offset e = ie_offset e' \<and> ie_length e = ie_length e' \<longrightarrow> e = e')"

lemma read_location_exact:
  assumes io: "cloud_io_ok io" and ok: "cache_ok st" and good: "object_good L V (cl_objects st) i m"
    and dist: "locations_distinct m" and e: "e \<in> set (pm_entries m)" and g: "genuine L V (ie_hash e)"
    and get: "\<And>b st1. base_of (ie_entry_type e) = Some b \<Longrightarrow> cache_step st st1 \<Longrightarrow> exact_read V st1 b (get st1 b)"
  shows "exact_read V st (ie_hash e) (read_from_cloud L io get st (ie_hash e) (entry_location i e))"
proof -
  from good obtain p ck where p: "map_of (cl_objects st) (object_name i) = Some p"
    "read_pack L p = Inr (pm_entries m, ck, pm_superblock m)" "entry_good L V p (pm_superblock m) e"
    using e by (auto simp: object_good_def)
  from read_pack_cached_spec [OF io ok, of i] p obtain st1 where s1: "cache_step st st1"
    and r1: "read_pack_cached io st i = (Inr p, st1)" by auto
  have ok1: "cache_ok st1" using s1 by (simp add: cache_step_def)
  have f: "List.find (\<lambda>x. ie_offset x = ie_offset e \<and> ie_length x = ie_length e) (pm_entries m) = Some e"
  proof (cases "List.find (\<lambda>x. ie_offset x = ie_offset e \<and> ie_length x = ie_length e) (pm_entries m)")
    case None
    with e have False unfolding find_None_iff_all by blast
    then show ?thesis ..
  next
    case (Some x)
    from find_Some_in [OF this] dist e have "x = e" by (auto simp: locations_distinct_def)
    with Some show ?thesis by simp
  qed
  have "\<exists>st2. cache_step st1 st2 \<and> extract_chunk L get st1 (ie_hash e) p (entry_location i e)
      (base_of (ie_entry_type e)) (ie_entry_type e = FullRaw) (pm_superblock m) = (Inr (V (ie_hash e)), st2)"
    by (rule extract_good [OF p(3) g ok1]) (use get s1 in \<open>auto simp: entry_location_def exact_read_alt\<close>)
  with s1 r1 p(2) f show ?thesis
    by (auto simp: read_from_cloud_def base_and_raw_eq exact_read_alt entry_location_def
        dest: cache_step_trans)
qed

text \<open>\<open>ix\<close> leads every hash of the packs to an entry of it.\<close>

definition index_covers :: "(hash \<Rightarrow> pack_location option) \<Rightarrow> (u32 \<times> pack_metadata) list \<Rightarrow> bool" where
  "index_covers ix packs \<longleftrightarrow> (\<forall>(h, k) \<in> packs_kinds packs. \<exists>(i, m) \<in> set packs. \<exists>e \<in> set (pm_entries m).
     ie_hash e = h \<and> ix h = Some (entry_location i e))"

lemma meta_index_covers:
  assumes "ix = map_of (rev (map meta_location (packs_meta packs)))"
  shows "index_covers ix packs"
  unfolding index_covers_def
proof clarify
  fix h k assume "(h, k) \<in> packs_kinds packs"
  then have "h \<in> fst ` set (map meta_location (packs_meta packs))"
    unfolding set_packs_meta by (force simp: packs_kinds_def pack_kinds_def)
  then obtain loc where loc: "ix h = Some loc"
    unfolding assms by (metis list.set_map map_of_eq_None_iff not_Some_eq rev_map set_rev)
  then have "(h, loc) \<in> set (map meta_location (packs_meta packs))"
    unfolding assms by (metis map_of_SomeD set_rev)
  with loc show "\<exists>(i, m) \<in> set packs. \<exists>e \<in> set (pm_entries m). ie_hash e = h \<and> ix h = Some (entry_location i e)"
    unfolding set_packs_meta by auto
qed

lemma indexed_reads:
  assumes io: "cloud_io_ok io" and good: "\<forall>(i, m) \<in> set packs. object_good L V objects i m \<and> locations_distinct m"
    and ko: "kinds_ok (packs_kinds packs)" and gen: "\<forall>h \<in> fst ` packs_kinds packs. genuine L V h"
    and ix: "index_covers ix packs"
    and k: "(h, k) \<in> packs_kinds packs" and d: "depth \<le> 16"
    and st: "cl_objects st = objects" "cl_pending_chunks st = []" "cache_ok st"
    and get: "\<And>b st1. (b, None) \<in> packs_kinds packs \<Longrightarrow> k \<noteq> None \<Longrightarrow> cache_step st st1
      \<Longrightarrow> exact_read V st1 b (cloud_get_inner L io ix (Suc depth) st1 b)"
  shows "exact_read V st h (cloud_get_inner L io ix depth st h)"
proof -
  obtain i m e where e: "(i, m) \<in> set packs" "e \<in> set (pm_entries m)" "ie_hash e = h"
    "ix h = Some (entry_location i e)"
    using ix k by (fastforce simp: index_covers_def)
  have ek: "(h, base_of (ie_entry_type e)) \<in> packs_kinds packs"
    using e by (force simp: packs_kinds_def pack_kinds_def)
  have g: "genuine L V (ie_hash e)" using gen k e(3) by force
  have "object_good L V (cl_objects st) i m" "locations_distinct m" using good e(1) st(1) by auto
  note exact = read_location_exact [OF io st(3) this e(2) g, unfolded e(3)]
  have base: "(b, None) \<in> packs_kinds packs \<and> k \<noteq> None" if "base_of (ie_entry_type e) = Some b" for b
    using ek ko k that by (cases k) (auto simp: kinds_ok_def)
  have "exact_read V st h (read_from_cloud L io (\<lambda>st b. cloud_get_inner L io ix (Suc depth) st b) st h
      (entry_location i e))"
    by (rule exact) (use get base in blast)
  then show ?thesis
    using d e(4) st(2) by (subst cloud_get_inner.simps) (auto simp: Let_def exact_read_alt)
qed

lemma indexed_get:
  assumes io: "cloud_io_ok io" and good: "\<forall>(i, m) \<in> set packs. object_good L V objects i m \<and> locations_distinct m"
    and ko: "kinds_ok (packs_kinds packs)" and gen: "\<forall>h \<in> fst ` packs_kinds packs. genuine L V h"
    and ix: "index_covers ix packs" and k: "(h, k) \<in> packs_kinds packs"
    and st: "cl_objects st = objects" "cl_pending_chunks st = []" "cache_ok st"
  shows "exact_read V st h (cloud_get L io ix st h)"
  unfolding cloud_get_def
proof (rule indexed_reads [OF io good ko gen ix k _ st])
  fix b st1 assume b: "(b, None) \<in> packs_kinds packs" "cache_step st st1"
  show "exact_read V st1 b (cloud_get_inner L io ix (Suc 0) st1 b)"
    by (rule indexed_reads [OF io good ko gen ix b(1)])
      (use st cache_step_fields [OF b(2)] b(2) in \<open>auto simp: cache_step_def\<close>)
qed simp

section \<open>A flush, a reopening\<close>

lemma packs_kinds_meta: "packs_kinds packs \<noteq> {} \<Longrightarrow> packs_meta packs \<noteq> []"
proof -
  assume "packs_kinds packs \<noteq> {}"
  then obtain i m e where "(i, m) \<in> set packs" "e \<in> set (pm_entries m)"
    by (fastforce simp: packs_kinds_def pack_kinds_def)
  then have "(ie_hash e, entry_location i e) \<in> set (map meta_location (packs_meta packs))"
    unfolding set_packs_meta by blast
  then show ?thesis by (cases "packs_meta packs") simp_all
qed

lemma reopen_reads:
  assumes inv: "cloud_inv L V st" and io: "cloud_io_ok io" and np: "cl_pending_chunks st = []"
    and meta: "read_meta_index io (cl_objects st) = Some (packs_meta (cl_packs st))"
    and dist: "\<forall>(i, m) \<in> set (cl_packs st). locations_distinct m"
    and cache: "cache_ok (cloud_fresh_store (cl_objects st) cache)"
  shows "\<exists>st2 ix. cloud_open L keyed io (cl_objects st) cache (hi_new 1000000) = Inr (st2, ix)
    \<and> (\<forall>(h, k) \<in> ckinds st. fst (cloud_get L io (index_lookup keyed ix) st2 h) = Inr (V h))"
proof -
  from open_from_meta [OF meta] obtain nid ix where
    o: "cloud_open L keyed io (cl_objects st) cache (hi_new 1000000)
      = Inr ((cloud_fresh_store (cl_objects st) cache)\<lparr>cl_next_pack_id := nid\<rparr>, ix)"
    and ix: "index_lookup keyed ix = map_of (rev (map meta_location (packs_meta (cl_packs st))))" by blast
  let ?st = "(cloud_fresh_store (cl_objects st) cache)\<lparr>cl_next_pack_id := nid\<rparr>"
  have ck: "ckinds st = packs_kinds (cl_packs st)" using np by (simp add: ckinds_def)
  have g: "exact_read V ?st h (cloud_get L io (index_lookup keyed ix) ?st h)" if "(h, k) \<in> ckinds st" for h k
  proof (rule indexed_get [OF io])
    show "\<forall>(i, m) \<in> set (cl_packs st). object_good L V (cl_objects st) i m \<and> locations_distinct m"
      using dist inv_object_good [OF inv] by auto
    show "kinds_ok (packs_kinds (cl_packs st))" "\<forall>h \<in> fst ` packs_kinds (cl_packs st). genuine L V h"
      using inv ck by (simp_all add: cloud_inv_def)
    show "index_covers (index_lookup keyed ix) (cl_packs st)" by (rule meta_index_covers [OF ix])
    show "(h, k) \<in> packs_kinds (cl_packs st)" using that ck by simp
  qed (use cache in \<open>simp_all add: cloud_fresh_store_def cache_ok_def\<close>)
  then show ?thesis using o by (auto simp: exact_read_def)
qed

section \<open>A concrete service\<close>

text \<open>
  For the witnesses: an encoding of the global index with 52 bytes for each entry, a cache of two
  packs, and a service on which everything succeeds.
\<close>

definition enc_meta :: "meta_index_entry \<Rightarrow> bytes" where
  "enc_meta e = u32_to_le (mi_pack_id e) @ u64_to_le (mi_offset e) @ u32_to_le (mi_length e)
     @ u32_to_le (mi_orig_length e) @ mi_hash e"

definition dec_meta :: "bytes \<Rightarrow> meta_index_entry" where
  "dec_meta bs = \<lparr>mi_hash = drop 20 bs, mi_pack_id = u32_from_le (take 4 bs),
     mi_offset = u64_from_le (take 8 (drop 4 bs)), mi_length = u32_from_le (take 4 (drop 12 bs)),
     mi_orig_length = u32_from_le (take 4 (drop 16 bs))\<rparr>"

fun dec_metas :: "nat \<Rightarrow> bytes \<Rightarrow> meta_index_entry list" where
  "dec_metas 0 bs = []"
| "dec_metas (Suc n) bs = dec_meta (take 52 bs) # dec_metas n (drop 52 bs)"

definition demo_cloud_io :: cloud_io where
  "demo_cloud_io = \<lparr>ci_read = (\<lambda>_. True), ci_list = True, ci_write = (\<lambda>_. Put_Done), ci_delete = True,
     ci_cache_write = Written, ci_cache_read = True, ci_cache_remove = True,
     ci_lru_put = (\<lambda>i l. take 2 (i # removeAll i l)),
     ci_lru_push = (\<lambda>i l. let l' = i # removeAll i l in (if length l' \<le> 2 then None else Some (last l'), take 2 l')),
     ci_ser_meta = (\<lambda>es. if list_all (\<lambda>e. length (mi_hash e) = 32) es then Some (concat (map enc_meta es)) else None),
     ci_de_meta = (\<lambda>bs. Some (dec_metas (length bs div 52) bs))\<rparr>"

lemma dec_enc_meta: "length (mi_hash e) = 32 \<Longrightarrow> dec_meta (enc_meta e) = e"
  by (cases e) (simp add: dec_meta_def enc_meta_def)

lemma dec_enc_metas:
  "list_all (\<lambda>e. length (mi_hash e) = 32) es
    \<Longrightarrow> length (concat (map enc_meta es)) = 52 * length es
      \<and> dec_metas (length es) (concat (map enc_meta es)) = es"
proof (induction es)
  case (Cons e es)
  then have "length (enc_meta e) = 52" by (simp add: enc_meta_def)
  with Cons dec_enc_meta [of e] show ?case by simp
qed simp

lemma demo_codec: "meta_codec_ok demo_cloud_io"
  using dec_enc_metas by (auto simp: meta_codec_ok_def demo_cloud_io_def split: if_splits)

lemma demo_cloud_io_ok: "cloud_io_ok demo_cloud_io"
  by (simp add: cloud_io_ok_def demo_cloud_io_def)

lemma demo_cloud_serving:
  "n < 2 ^ 32 \<Longrightarrow> cloud_serving demo_libs demo_cloud_io demo_value n (cloud_fresh_store [] cache)
    \<longleftrightarrow> cache_ok (cloud_fresh_store [] cache)"
  by (auto simp: cloud_serving_def demo_libs_ok demo_packs_fit demo_cloud_io_ok cloud_inv_def ckinds_def
      cloud_fresh_store_def kinds_ok_def bucket_loaded_def cloud_fresh_def cloud_sizes_def DEFAULT_PACK_TARGET_def)

text \<open>A flush of one full chunk succeeds.\<close>

lemma cloud_put_first:
  assumes "ix h = None" and "cl_pending_chunks st = []" and "cl_pending_size st = 0"
    and "cl_pack_target_size st = DEFAULT_PACK_TARGET" and "length d \<le> 2 ^ 20"
  shows "cloud_put L io ix st h d = (Inr (cloud_placeholder (cl_next_pack_id st) (of_nat (length d))),
    st\<lparr>cl_pending_chunks := [full_entry h d], cl_pending_size := of_nat (length d)\<rparr>)"
proof -
  have "unat (of_nat (length d) :: u64) = length d" using assms(5) by (simp add: unat_of_nat_u64)
  then have "\<not> DEFAULT_PACK_TARGET \<le> (of_nat (length d) :: u64)"
    using assms(5) by (simp add: word_le_nat_alt DEFAULT_PACK_TARGET_def)
  with assms(1-4) show ?thesis
    by (simp add: cloud_put_def cloud_put_entry_def full_entry_def Let_def)
qed

text \<open>The pack of one full chunk has one hash.\<close>

lemma single_pack:
  assumes ok: "libs_ok L" and fit: "packs_fit L" and small: "length d \<le> 2 ^ 20"
    and w: "write_pack L (map pack_entry_of [full_entry h d]) = Inr p"
  shows "\<exists>e ck sb. read_pack L p = Inr ([e], ck, sb) \<and> ie_hash e = h"
proof -
  have fits: "flush_fits L [full_entry h d]"
    by (rule packs_fit_flush [OF fit]) (use small in \<open>simp add: full_entry_def\<close>)
  have good: "\<forall>e \<in> set [full_entry h d]. pending_good L (\<lambda>_. d) e"
    using small by (simp add: pending_good_def full_entry_def base_of_def)
  from flushed_pack_good [OF ok fits w good] obtain ies ck sb where
    r: "read_pack L p = Inr (ies, ck, sb)"
    and k: "pack_kinds \<lparr>pm_entries = ies, pm_superblock = sb\<rparr> = pending_kinds [full_entry h d]" by blast
  have "sum_list (map (\<lambda>e. length (pe_data e)) (map pack_entry_of [full_entry h d])) < 2 ^ 32" "length p < 2 ^ 32"
    using fits w small by (simp_all add: flush_fits_def pack_entry_of_def full_entry_def)
  from write_pack_readable [OF ok w this(2,1)] r
  have "list_all2 (stored_as L p sb) (pack_order (map pack_entry_of [full_entry h d])) ies" by auto
  then have "length ies = length (pack_order (map pack_entry_of [full_entry h d]))"
    by (simp add: list_all2_lengthD)
  also have "\<dots> = 1" by (simp add: pack_order_def)
  finally obtain e where e: "ies = [e]" by (cases ies) auto
  with k have "ie_hash e = h" by (simp add: pack_kinds_def pending_kinds_def full_entry_def)
  with r e show ?thesis by blast
qed

text \<open>Flushing one full chunk: the only pack the store has loaded is the new one.\<close>

lemma single_flush:
  assumes ok: "libs_ok L" "packs_fit L" "length d \<le> 2 ^ 20" and packs: "cl_packs st = []"
    and pend: "cl_pending_chunks st = [full_entry h d]" and fl: "cloud_flush L io st = (Inr (), st')"
    and codec: "meta_codec_ok io" and reads: "\<forall>path. ci_read io path"
  shows "read_meta_index io (cl_objects st') = Some (packs_meta (cl_packs st'))
    \<and> fst ` set (map meta_location (packs_meta (cl_packs st'))) = {h}
    \<and> (\<forall>i. i \<noteq> cl_next_pack_id st
         \<longrightarrow> map_of (cl_objects st') (object_name i) = map_of (cl_objects st) (object_name i))
    \<and> (\<forall>(i, m) \<in> set (cl_packs st'). locations_distinct m)"
proof -
  from fl pend obtain pid where run: "cloud_run_flush L io st = (Inr pid, st')"
    by (auto simp: cloud_flush_def res_simps)
  obtain p m ck where f: "pid = cl_next_pack_id st" "write_pack L (map pack_entry_of (cl_pending_chunks st)) = Inr p"
    "read_pack L p = Inr (pm_entries m, ck, pm_superblock m)" "cl_packs st' = AList.update pid m (cl_packs st)"
    "\<forall>i. map_of (cl_objects st') (object_name i)
       = (if i = pid then Some p else map_of (cl_objects st) (object_name i))"
    by (rule cloud_run_flush_Inr [OF run]) (use pend in simp_all)
  obtain e where m: "pm_entries m = [e]" "ie_hash e = h"
    using single_pack [OF ok f(2) [unfolded pend]] f(3) by auto
  have packs': "cl_packs st' = [(pid, m)]" using f(4) packs by simp
  have "fst ` set (map meta_location (packs_meta (cl_packs st'))) = {h}"
    unfolding set_packs_meta packs' by (auto simp: image_iff m)
  moreover have "\<forall>(i, m) \<in> set (cl_packs st'). locations_distinct m"
    by (simp add: packs' locations_distinct_def m)
  moreover from calculation(1) have "packs_meta (cl_packs st') \<noteq> []" by auto
  ultimately show ?thesis using run_flush_meta [OF run codec reads] f(1,5) by simp
qed

section \<open>Properties\<close>

text \<open>
  C11. Closing a cloud store that has all packs of its bucket loaded loses nothing: after a flush that
  uploads a pack, a store opened on the bucket takes its index from the global index, and through it
  reads back every chunk the old store held, in full or as a delta. This needs that no two entries of
  a pack share offset and length, which the code does not ensure, and that the files left in a cache
  directory belong to the bucket.
\<close>

theorem cloud_flush_reopen:
  assumes "cloud_serving L io V (Suc n) st" and "cl_pending_chunks st \<noteq> []"
    and "cloud_flush L io st = (Inr (), st1)" and "meta_codec_ok io"
    and "\<forall>(i, m) \<in> set (cl_packs st1). locations_distinct m"
    and "cache_ok (cloud_fresh_store (cl_objects st1) cache)"
  shows "\<exists>st2 ix. cloud_open L keyed io (cl_objects st1) cache (hi_new 1000000) = Inr (st2, ix)
    \<and> (\<forall>(h, k) \<in> ckinds st. fst (cloud_get L io (index_lookup keyed ix) st2 h) = Inr (V h))"
proof -
  from assms(2,3) obtain pid where run: "cloud_run_flush L io st = (Inr pid, st1)"
    by (auto simp: cloud_flush_def res_simps)
  from cloud_flush_keeps [OF assms(1,3)] have st1: "cloud_io_ok io" "cloud_inv L V st1"
    "cl_pending_chunks st1 = []" "ckinds st1 = ckinds st" by (auto simp: cloud_serving_def cloud_settled_def)
  have "ckinds st \<noteq> {}" using assms(2) by (auto simp: ckinds_def pending_kinds_def)
  then have "packs_meta (cl_packs st1) \<noteq> []"
    using packs_kinds_meta st1(3,4) by (simp add: ckinds_def)
  with run_flush_meta [OF run assms(4)] st1(1)
  have "read_meta_index io (cl_objects st1) = Some (packs_meta (cl_packs st1))" by (simp add: cloud_io_ok_def)
  from reopen_reads [OF st1(2,1,3) this assms(5,6)] st1(4) show ?thesis by simp
qed

text \<open>
  C10. A cloud store that was opened from its global index forgets what it had: the packs of the bucket are
  not loaded then, so the first flush rewrites the global index with the new pack alone. The store
  opened next knows the new chunk only; every other hash is missing from its index and \<open>get\<close> does not
  find it, although all the old packs are still in the bucket.
\<close>

theorem cloud_reopen_forgets:
  assumes "cloud_open L keyed io objects cache (hi_new 1000000) = Inr (st0, ix0)"
    and "read_meta_index io objects = Some entries"
    and "index_lookup keyed ix0 h = None" and "length d \<le> 2 ^ 20"
    and "cloud_put L io (index_lookup keyed ix0) st0 h d = (Inr loc, st1)"
    and "cloud_flush L io st1 = (Inr (), st2)"
    and "libs_ok L" and "packs_fit L" and "meta_codec_ok io" and "\<forall>path. ci_read io path"
  shows "\<exists>st3 ix3. cloud_open L keyed io (cl_objects st2) cache (hi_new 1000000) = Inr (st3, ix3)
    \<and> (\<forall>h'. h' \<noteq> h \<longrightarrow> index_lookup keyed ix3 h' = None
         \<and> cloud_get L io (index_lookup keyed ix3) st3 h' = (Inl (Err (ChunkNotFound (to_hex h'))), st3))
    \<and> (\<forall>i. i \<noteq> cl_next_pack_id st0
         \<longrightarrow> map_of (cl_objects st2) (object_name i) = map_of objects (object_name i))"
proof -
  from open_from_meta [OF assms(2), of L keyed cache] assms(1)
  have st0: "cl_packs st0 = []" "cl_pending_chunks st0 = []" "cl_pending_size st0 = 0"
    "cl_pack_target_size st0 = DEFAULT_PACK_TARGET" "cl_objects st0 = objects"
    by (auto simp: cloud_fresh_store_def)
  from cloud_put_first [of "index_lookup keyed ix0" h, OF assms(3) st0(2-4) assms(4)] assms(5)
  have st1: "cl_packs st1 = []" "cl_pending_chunks st1 = [full_entry h d]" "cl_objects st1 = objects"
    "cl_next_pack_id st1 = cl_next_pack_id st0" using st0 by auto
  from single_flush [OF assms(7,8,4) st1(1,2) assms(6,9,10)] st1(3,4)
  have meta: "read_meta_index io (cl_objects st2) = Some (packs_meta (cl_packs st2))"
    and hs: "fst ` set (map meta_location (packs_meta (cl_packs st2))) = {h}"
    and objs: "\<forall>i. i \<noteq> cl_next_pack_id st0
       \<longrightarrow> map_of (cl_objects st2) (object_name i) = map_of objects (object_name i)" by auto
  from open_from_meta [OF meta] obtain nid ix3 where
    o: "cloud_open L keyed io (cl_objects st2) cache (hi_new 1000000)
      = Inr ((cloud_fresh_store (cl_objects st2) cache)\<lparr>cl_next_pack_id := nid\<rparr>, ix3)"
    and ix: "index_lookup keyed ix3 = map_of (rev (map meta_location (packs_meta (cl_packs st2))))" by blast
  have none: "index_lookup keyed ix3 h' = None" if "h' \<noteq> h" for h'
    unfolding ix using hs that by (auto simp: map_of_eq_None_iff)
  then have "cloud_get L io (index_lookup keyed ix3) st h' = (Inl (Err (ChunkNotFound (to_hex h'))), st)"
    if "h' \<noteq> h" "cl_pending_chunks st = []" "cl_packs st = []" for h' st
    using that by (simp add: cloud_get_def cloud_get_inner.simps cloud_scan_def)
  then show ?thesis using o none objs by (auto simp: cloud_fresh_store_def)
qed

text \<open>
  A damaged file in the cache is never replaced: when the file of a pack in the cache directory can
  be read but is not a pack (as a write that failed half way leaves it), every chunk that the index
  places in that pack is unreadable after opening from the global index, whatever the bucket holds,
  and the file is still there afterwards.
\<close>

theorem damaged_cache_sticks:
  assumes "cl_cache st = Some (lru, files)" and "map_of files (cache_name (pl_pack_id loc)) = Some bad"
    and "ci_cache_read io" and "read_pack L bad = Inl (Err e)"
    and "ix h = Some loc" and "cl_pending_chunks st = []" and "cl_packs st = []"
  shows "\<exists>lru'. cloud_get L io ix st h
    = (Inl (Err (ChunkNotFound (to_hex h))), st\<lparr>cl_cache := Some (lru', files)\<rparr>)"
  using assms
  by (auto simp: cloud_get_def cloud_get_inner.simps read_from_cloud_def read_pack_cached_def cache_hit_def
      cloud_scan_def)

text \<open>
  The cache directory is not bounded by the LRU list: a flush writes the file of the new pack into
  it without telling the list, so no flush ever evicts a file, whatever the capacity.
\<close>

theorem flush_bypasses_lru:
  assumes "cl_cache st = Some (lru, files)" and "cl_pending_chunks st \<noteq> []"
    and "cloud_flush L io st = (Inr (), st')" and "ci_cache_write io = Written"
  shows "\<exists>p. cl_cache st' = Some (lru, AList.update (cache_name (cl_next_pack_id st)) p files)"
proof -
  from assms(2,3) obtain pid where run: "cloud_run_flush L io st = (Inr pid, st')"
    by (auto simp: cloud_flush_def res_simps)
  show ?thesis
    by (rule cloud_run_flush_Inr [OF run assms(2)]) (use assms(1,4) in \<open>auto simp: cache_write_def\<close>)
qed

text \<open>
  What the cloud store hands out is what was asked for: whatever the state of the store, of the
  bucket, of the cache and of the index, data that \<open>get\<close> returns for a hash that is not pending has
  that hash as its digest.
\<close>

theorem cloud_get_verified:
  assumes "cloud_get L io ix st h = (Inr d, st')" and "\<forall>e \<in> set (cl_pending_chunks st). pd_hash e \<noteq> h"
  shows "Hash (lib_blake3 L d) = h"
proof -
  have ex: "extract_chunk L get s h p loc b raw sb = (Inr d, s') \<Longrightarrow> Hash (lib_blake3 L d) = h"
    for get s p loc b raw sb s'
    by (auto simp: extract_chunk_def res_simps Let_def split: if_splits)
  have rd: "Hash (lib_blake3 L d) = h" if "read_from_cloud L io get s h loc = (Inr d, s')" for get s loc s'
  proof -
    from that obtain p s1 where p: "(case read_pack L p of
         Inl (Err e) \<Rightarrow> (Inl (Err (StoreCorrupted ''pack corrupted'')), s1)
       | Inl (Panic m) \<Rightarrow> (Inl (Panic m), s1)
       | Inr (entries, checksum, superblock) \<Rightarrow>
           (case List.find (\<lambda>e. ie_offset e = pl_offset loc \<and> ie_length e = pl_length loc) entries of
              None \<Rightarrow> (Inl (Err (ChunkNotFound (to_hex h))), s1)
            | Some entry \<Rightarrow>
                (let (base_hash, needs_raw) = base_and_raw entry
                 in extract_chunk L get s1 h p loc base_hash needs_raw superblock))) = (Inr d, s')"
      unfolding read_from_cloud_def bind_state_eq_Inr by blast
    then show ?thesis
      by (auto simp: Let_def split: sum.splits failure.splits prod.splits option.splits dest: ex)
  qed
  have sc: "cloud_scan L io get s h = (Inr d, s') \<Longrightarrow> Hash (lib_blake3 L d) = h" for get s s'
    by (auto simp: cloud_scan_def res_simps Let_def split: option.splits prod.splits dest: ex)
  have "List.find (\<lambda>entry. pd_hash entry = h) (cl_pending_chunks st) = None"
    using assms(2) by (simp add: find_None_iff_all)
  with assms(1) show ?thesis
    by (auto simp: cloud_get_def cloud_get_inner.simps [of L io ix 0] Let_def
        split: option.splits prod.splits sum.splits failure.splits dest: rd sc)
qed

section \<open>Witnesses\<close>

definition demo_keyed :: "bytes \<Rightarrow> bytes \<Rightarrow> bytes" where
  "demo_keyed k d = replicate 32 0"

definition holding :: "hash \<Rightarrow> bytes \<Rightarrow> cloud_store \<Rightarrow> cloud_store" where
  "holding h d st = st\<lparr>cl_pending_chunks := [full_entry h d], cl_pending_size := of_nat (length d)\<rparr>"

lemma holding_simps [simp]:
  "cl_pending_chunks (holding h d st) = [full_entry h d]" "cl_packs (holding h d st) = cl_packs st"
  "cl_objects (holding h d st) = cl_objects st" "cl_next_pack_id (holding h d st) = cl_next_pack_id st"
  "cl_cache (holding h d st) = cl_cache st"
  by (simp_all add: holding_def)

lemma fresh_store_simps [simp]:
  "cl_packs (cloud_fresh_store objects cache) = []" "cl_pending_chunks (cloud_fresh_store objects cache) = []"
  "cl_pending_size (cloud_fresh_store objects cache) = 0"
  "cl_pack_target_size (cloud_fresh_store objects cache) = DEFAULT_PACK_TARGET"
  "cl_objects (cloud_fresh_store objects cache) = objects"
  "cl_next_pack_id (cloud_fresh_store objects cache) = 0"
  "cl_cache (cloud_fresh_store objects cache) = map_option (\<lambda>files. ([], files)) cache"
  by (simp_all add: cloud_fresh_store_def)

lemma demo_chunks_short: "d \<in> {chunk_a, chunk_b} \<Longrightarrow> length d \<le> 2 ^ 20"
  by (auto simp: chunk_a_def chunk_b_def)

lemma demo_write_full:
  assumes "h \<in> {hash_a, hash_b}" and "d \<in> {chunk_a, chunk_b}"
  shows "\<exists>p. write_pack demo_libs (map pack_entry_of [full_entry h d]) = Inr p"
  using assms
  by (auto simp: full_entry_def pack_entry_of_def write_pack_def store_full_def chunk_a_def chunk_b_def
      hash_a_def hash_b_def is_high_entropy_def demo_libs_def toy_libs_def toy_zstd_def toy_compress_def
      write_superblock_def seal_pack_def toy_ser_def small_entry_def Let_def)

lemma demo_flush:
  assumes h: "h \<in> {hash_a, hash_b}" and d: "d \<in> {chunk_a, chunk_b}" and "cl_packs st = []"
  shows "\<exists>st'. cloud_flush demo_libs demo_cloud_io (holding h d st) = (Inr (), st')"
proof -
  obtain p where p: "write_pack demo_libs (map pack_entry_of [full_entry h d]) = Inr p"
    using demo_write_full [OF h d] by blast
  obtain e ck sb where e: "read_pack demo_libs p = Inr ([e], ck, sb)" "ie_hash e = h"
    using single_pack [OF demo_libs_ok demo_packs_fit demo_chunks_short [OF d] p] by blast
  have "length (hash_bytes h) = 32" using h by (auto simp: hash_a_def hash_b_def)
  with p e assms(3) show ?thesis
    by (cases "cl_cache st") (auto simp: cloud_flush_def cloud_run_flush_def cloud_flush_prepare_def
        cloud_flush_write_def write_meta_index_def object_write_def demo_cloud_io_def meta_of_def Let_def
        holding_def split: prod.split)
qed

lemma demo_holding_serving:
  assumes "cache_ok (cloud_fresh_store [] cache)"
  shows "cloud_serving demo_libs demo_cloud_io demo_value (Suc 4) (holding hash_a chunk_a (cloud_fresh_store [] cache))
    \<and> (hash_a, None) \<in> ckinds (holding hash_a chunk_a (cloud_fresh_store [] cache))"
proof -
  have v: "demo_value hash_a = chunk_a" by (simp add: demo_value_def)
  have k: "\<forall>k. (hash_a, k) \<notin> ckinds (cloud_fresh_store [] cache)" by (simp add: ckinds_def)
  have rdy: "cloud_serving demo_libs demo_cloud_io demo_value (Suc (Suc 4)) (cloud_fresh_store [] cache)"
    using assms by (subst demo_cloud_serving) simp_all
  have "cs_put (cloud_ops demo_libs demo_cloud_io) (\<lambda>_. None) (cloud_fresh_store [] cache) hash_a (demo_value hash_a)
      = (Inr (cloud_placeholder 0 3), holding hash_a chunk_a (cloud_fresh_store [] cache))"
    using cloud_put_first [of "\<lambda>_. None" hash_a "cloud_fresh_store [] cache" chunk_a demo_libs demo_cloud_io]
    by (simp add: cloud_ops_def v holding_def chunk_a_def)
  from cloud_contract.put_new [OF rdy refl k demo_genuine(1) _ this] show ?thesis
    by (simp add: v chunk_a_def)
qed

lemma no_cache_ok [simp]: "cache_ok (cloud_fresh_store objects None)"
  by (simp add: cache_ok_def)

abbreviation "demo_store \<equiv> holding hash_a chunk_a (cloud_fresh_store [] None)"

lemma demo_first_flush:
  "\<exists>st1. cloud_flush demo_libs demo_cloud_io demo_store = (Inr (), st1)
     \<and> read_meta_index demo_cloud_io (cl_objects st1) = Some (packs_meta (cl_packs st1))
     \<and> fst ` set (map meta_location (packs_meta (cl_packs st1))) = {hash_a}
     \<and> (\<forall>(i, m) \<in> set (cl_packs st1). locations_distinct m)"
proof -
  obtain st1 where st1: "cloud_flush demo_libs demo_cloud_io demo_store = (Inr (), st1)"
    using demo_flush [of hash_a chunk_a "cloud_fresh_store [] None"] by auto
  have reads: "\<forall>path. ci_read demo_cloud_io path" by (simp add: demo_cloud_io_def)
  have "length chunk_a \<le> 2 ^ 20" "cl_packs demo_store = []" "cl_pending_chunks demo_store = [full_entry hash_a chunk_a]"
    using demo_chunks_short [of chunk_a] by simp_all
  from single_flush [OF demo_libs_ok demo_packs_fit this st1 demo_codec reads] st1 show ?thesis by blast
qed

theorem cloud_flush_reopen_witness:
  "\<exists>st1 st2 ix. cloud_flush demo_libs demo_cloud_io demo_store = (Inr (), st1)
     \<and> cloud_open demo_libs demo_keyed demo_cloud_io (cl_objects st1) None (hi_new 1000000) = Inr (st2, ix)
     \<and> fst (cloud_get demo_libs demo_cloud_io (index_lookup demo_keyed ix) st2 hash_a) = Inr chunk_a"
proof -
  obtain st1 where st1: "cloud_flush demo_libs demo_cloud_io demo_store = (Inr (), st1)"
    "\<forall>(i, m) \<in> set (cl_packs st1). locations_distinct m"
    using demo_first_flush by blast
  note d = demo_holding_serving [OF no_cache_ok [of "[]"]]
  have v: "demo_value hash_a = chunk_a" by (simp add: demo_value_def)
  have ne: "cl_pending_chunks demo_store \<noteq> []" by simp
  from cloud_flush_reopen [OF d [THEN conjunct1] ne st1(1) demo_codec st1(2) no_cache_ok, of demo_keyed]
    d [THEN conjunct2] st1(1) v
  show ?thesis by fastforce
qed

theorem cloud_reopen_forgets_witness:
  "\<exists>objects st0 ix0 st2 st3 ix3.
     cloud_open demo_libs demo_keyed demo_cloud_io objects None (hi_new 1000000) = Inr (st0, ix0)
   \<and> index_lookup demo_keyed ix0 hash_a \<noteq> None
   \<and> cloud_flush demo_libs demo_cloud_io (holding hash_b chunk_b st0) = (Inr (), st2)
   \<and> cloud_open demo_libs demo_keyed demo_cloud_io (cl_objects st2) None (hi_new 1000000) = Inr (st3, ix3)
   \<and> cloud_get demo_libs demo_cloud_io (index_lookup demo_keyed ix3) st3 hash_a
       = (Inl (Err (ChunkNotFound (to_hex hash_a))), st3)"
proof -
  obtain st1 where "cloud_flush demo_libs demo_cloud_io demo_store = (Inr (), st1)"
    and meta: "read_meta_index demo_cloud_io (cl_objects st1) = Some (packs_meta (cl_packs st1))"
    and hs: "fst ` set (map meta_location (packs_meta (cl_packs st1))) = {hash_a}"
    using demo_first_flush by (elim exE conjE)
  from open_from_meta [OF meta, of demo_libs demo_keyed None] obtain nid ix0 where
    o: "cloud_open demo_libs demo_keyed demo_cloud_io (cl_objects st1) None (hi_new 1000000)
      = Inr ((cloud_fresh_store (cl_objects st1) None)\<lparr>cl_next_pack_id := nid\<rparr>, ix0)"
    and ix: "index_lookup demo_keyed ix0 = map_of (rev (map meta_location (packs_meta (cl_packs st1))))" by blast
  let ?st0 = "(cloud_fresh_store (cl_objects st1) None)\<lparr>cl_next_pack_id := nid\<rparr>"
  have b: "index_lookup demo_keyed ix0 hash_b = None" and a: "index_lookup demo_keyed ix0 hash_a \<noteq> None"
    using hs unfolding ix by (auto simp: map_of_eq_None_iff)
  have short: "length chunk_b \<le> 2 ^ 20" using demo_chunks_short [of chunk_b] by simp
  have put: "cloud_put demo_libs demo_cloud_io (index_lookup demo_keyed ix0) ?st0 hash_b chunk_b
      = (Inr (cloud_placeholder nid (of_nat (length chunk_b))), holding hash_b chunk_b ?st0)"
    using cloud_put_first [of "index_lookup demo_keyed ix0" hash_b ?st0 chunk_b] b short
    by (simp add: holding_def)
  obtain st2 where fl: "cloud_flush demo_libs demo_cloud_io (holding hash_b chunk_b ?st0) = (Inr (), st2)"
    using demo_flush [of hash_b chunk_b ?st0] by auto
  have "\<forall>path. ci_read demo_cloud_io path" by (simp add: demo_cloud_io_def)
  from cloud_reopen_forgets [OF o meta b short put fl demo_libs_ok demo_packs_fit demo_codec this] o a fl
  show ?thesis by (metis hashes_distinct(1))
qed

theorem damaged_cache_sticks_witness:
  "let loc = \<lparr>pl_pack_id = 3, pl_offset = 0, pl_length = 4, pl_orig_length = 3\<rparr>;
       st = cloud_fresh_store [] (Some [(cache_name 3, [1, 2])])
   in fst (cloud_get demo_libs demo_cloud_io (\<lambda>_. Some loc) st hash_a) = Inl (Err (ChunkNotFound (to_hex hash_a)))"
proof -
  let ?loc = "\<lparr>pl_pack_id = 3, pl_offset = 0, pl_length = 4, pl_orig_length = 3\<rparr> :: pack_location"
  let ?st = "cloud_fresh_store [] (Some [(cache_name 3, [1, 2])])"
  obtain e where bad: "read_pack demo_libs [1, 2] = Inl (Err e)" by (auto simp: read_pack_def FOOTER_SIZE_def)
  have "cl_cache ?st = Some ([], [(cache_name 3, [1, 2])])"
    "map_of [(cache_name 3, [1, 2])] (cache_name (pl_pack_id ?loc)) = Some [1, 2]"
    "ci_cache_read demo_cloud_io" by (simp_all add: demo_cloud_io_def)
  from damaged_cache_sticks [OF this bad refl, of hash_a] show ?thesis by (auto simp: Let_def)
qed

theorem flush_bypasses_lru_witness:
  "\<exists>st' p. cloud_flush demo_libs demo_cloud_io (holding hash_a chunk_a (cloud_fresh_store [] (Some []))) = (Inr (), st')
     \<and> cl_cache st' = Some ([], [(cache_name 0, p)])"
proof -
  let ?st = "holding hash_a chunk_a (cloud_fresh_store [] (Some []))"
  obtain st' where fl: "cloud_flush demo_libs demo_cloud_io ?st = (Inr (), st')"
    using demo_flush [of hash_a chunk_a "cloud_fresh_store [] (Some [])"] by auto
  have "cl_cache ?st = Some ([], [])" "cl_pending_chunks ?st \<noteq> []" "ci_cache_write demo_cloud_io = Written"
    by (simp_all add: demo_cloud_io_def)
  from flush_bypasses_lru [OF this(1,2) fl this(3)] fl show ?thesis by auto
qed

theorem cloud_get_verified_witness:
  "\<exists>st d st'. cloud_get demo_libs demo_cloud_io (\<lambda>_. None) st hash_a = (Inr d, st')
     \<and> Hash (lib_blake3 demo_libs d) = hash_a"
proof -
  obtain st1 where st1: "cloud_flush demo_libs demo_cloud_io demo_store = (Inr (), st1)"
    using demo_first_flush by blast
  note d = demo_holding_serving [OF no_cache_ok [of "[]"]]
  from cloud_flush_keeps [OF d [THEN conjunct1] st1] d [THEN conjunct2]
  have k: "cloud_inv demo_libs demo_value st1" "cl_pending_chunks st1 = []" "(hash_a, None) \<in> ckinds st1"
    by (auto simp: cloud_serving_def cloud_settled_def)
  from cloud_get_full [OF demo_cloud_io_ok k(1,3), of "\<lambda>_. None"] obtain st' where
    g: "cloud_get demo_libs demo_cloud_io (\<lambda>_. None) st1 hash_a = (Inr (demo_value hash_a), st')"
    by (auto simp: exact_read_alt)
  have "\<forall>e \<in> set (cl_pending_chunks st1). pd_hash e \<noteq> hash_a" using k(2) by simp
  from cloud_get_verified [OF g this] g show ?thesis by blast
qed

section \<open>Backups to the cloud\<close>

text \<open>
  C9. A backup to a cloud store that succeeds can be read back: let a cloud store with all its packs
  loaded be given to a backup of the chunks of a file, with no similarity stage or a fresh one that has
  room for them. However the two threads interleave, if the backup returns statistics then nothing
  is left unwritten, and reading the hashes it lists, whatever the index answers and with or without
  a cache, gives the chunks of the file in order.
\<close>

theorem cloud_backup_correct:
  assumes "en_ops env = cloud_ops L io" and "en_libs env = L"
    and "zstd_ok (lib_zstd L)" and "zstd_bounded (lib_zstd L)"
    and "cloud_serving L io V (length items + 1) st" and "dom ix = fst ` ckinds st" and "items_ok L V items"
    and "stage = None \<or> (\<exists>cfg. stage = Some (stage_new cfg) \<and> length items \<le> sc_memory_budget cfg div NUM_SHARDS)"
    and "(step env)\<^sup>*\<^sup>* (system_init fs items stage ix st) sy" and "sy_result sy = Some (Inr stats)"
  shows "cl_pending_chunks (w_store (sy_writer sy)) = []
    \<and> map (\<lambda>h. fst (cloud_get L io ix' (w_store (sy_writer sy)) h)) (bs_chunk_hashes stats)
        = map (Inr \<circ> item_data) items"
proof -
  have stage: "case stage of None \<Rightarrow> True | Some sm \<Rightarrow> stage_ok sm \<and> stage_roomy (length items) sm \<and> stage_live sm = {}"
    using assms(8) by (auto simp: stage_new_ok)
  have inv: "cloud_contract.sys_inv L V io env items (system_init fs items stage ix st)"
    by (rule cloud_contract.sys_inv_init [OF assms(5-7) stage])
  show ?thesis
    using cloud_contract.run_correct [OF assms(1-4,9) inv assms(10), of ix']
    by (simp add: cloud_settled_def cloud_ops_def)
qed

definition demo_cloud_env :: "cloud_store env" where
  "demo_cloud_env = \<lparr>en_ops = cloud_ops demo_libs demo_cloud_io, en_libs = demo_libs, en_level = 3,
     en_xxh3 = (\<lambda>_. 0), en_ser_sig = (\<lambda>_. None)\<rparr>"

abbreviation "demo_cloud_start \<equiv> system_init 3 [item_a] None (\<lambda>_. None) (cloud_fresh_store [] (Some []))"

lemma demo_cloud_put:
  "cloud_put demo_libs demo_cloud_io (\<lambda>_. None) (cloud_fresh_store [] cache) (Hash (replicate 32 1)) chunk_a
     = (Inr (cloud_placeholder 0 3), holding hash_a chunk_a (cloud_fresh_store [] cache))"
  using cloud_put_first [of "\<lambda>_. None" hash_a "cloud_fresh_store [] cache" chunk_a demo_libs demo_cloud_io]
  by (simp add: holding_def chunk_a_def hash_a_def)

lemma demo_cloud_run:
  "\<exists>sy stats. run_schedule demo_cloud_env [Producer, Producer, Producer, Writer, Writer, Producer] demo_cloud_start
       = Some sy
     \<and> sy_result sy = Some (Inr stats) \<and> bs_chunk_hashes stats = [hash_a]"
proof -
  obtain st' where "cloud_flush demo_libs demo_cloud_io (holding hash_a chunk_a (cloud_fresh_store [] (Some []))) = (Inr (), st')"
    using demo_flush [of hash_a chunk_a "cloud_fresh_store [] (Some [])"] by auto
  then show ?thesis
    by (simp add: demo_cloud_env_def cloud_ops_def demo_cloud_put demo_run_simps)
      (simp add: hash_a_def)
qed

theorem cloud_backup_correct_witness:
  "\<exists>sy stats. (step demo_cloud_env)\<^sup>*\<^sup>* demo_cloud_start sy \<and> sy_result sy = Some (Inr stats)
     \<and> map (\<lambda>h. fst (cloud_get demo_libs demo_cloud_io (\<lambda>_. None) (w_store (sy_writer sy)) h)) (bs_chunk_hashes stats)
         = [Inr chunk_a]"
proof -
  obtain sy stats where r: "(step demo_cloud_env)\<^sup>*\<^sup>* demo_cloud_start sy" "sy_result sy = Some (Inr stats)"
    using demo_cloud_run run_schedule_steps by blast
  have items: "items_ok demo_libs demo_value [item_a]"
    using demo_genuine(1) by (simp add: items_ok_def chunk_ok_def hash_a_def [symmetric] demo_value_def)
      (simp add: chunk_a_def)
  have serving: "cloud_serving demo_libs demo_cloud_io demo_value (length [item_a] + 1) (cloud_fresh_store [] (Some []))"
    by (subst demo_cloud_serving) (simp_all add: cache_ok_def)
  have z: "zstd_ok (lib_zstd demo_libs)" "zstd_bounded (lib_zstd demo_libs)"
    using toy_zstd_ok toy_zstd_bounded by (simp_all add: demo_libs_def toy_libs_def)
  have "en_ops demo_cloud_env = cloud_ops demo_libs demo_cloud_io" "en_libs demo_cloud_env = demo_libs"
    "dom (\<lambda>_. None :: pack_location option) = fst ` ckinds (cloud_fresh_store [] (Some []))"
    by (simp_all add: demo_cloud_env_def ckinds_def)
  from cloud_backup_correct [OF this(1,2) z serving this(3) items disjI1 [OF refl] r(1,2)] r
  show ?thesis by fastforce
qed

end
