(* ===== verification/Store_Config.thy ===== *)
theory Store_Config
  imports Local_Store
begin

text \<open>
  Where a store is and which paths it writes: the configuration and the URIs of
  \<^verbatim>\<open>packt-lib/src/store/store_api.rs\<close>, and the part of \<^verbatim>\<open>std::path\<close> that its manifests and
  restores use. A path is the string of its bytes, with the rules of Unix.
\<close>

section \<open>Strings\<close>

text \<open>\<^verbatim>\<open>str::split_once\<close>, \<^verbatim>\<open>str::split\<close> and \<^verbatim>\<open>str::trim_start_matches\<close>.\<close>

definition split_once :: "char \<Rightarrow> string \<Rightarrow> (string \<times> string) option" where
  "split_once c s =
     (case dropWhile (\<lambda>x. x \<noteq> c) s of
        [] \<Rightarrow> None
      | _ # rest \<Rightarrow> Some (takeWhile (\<lambda>x. x \<noteq> c) s, rest))"

fun split_on :: "char \<Rightarrow> string \<Rightarrow> string list" where
  "split_on c [] = [[]]"
| "split_on c (x # xs) =
     (if x = c then [] # split_on c xs
      else (case split_on c xs of p # ps \<Rightarrow> (x # p) # ps | [] \<Rightarrow> [[x]]))"

function trim_start_matches :: "string \<Rightarrow> string \<Rightarrow> string" where
  "trim_start_matches pat s =
     (if pat = [] then s
      else (case strip_prefix pat s of None \<Rightarrow> s | Some rest \<Rightarrow> trim_start_matches pat rest))"
  by pat_completeness auto
termination
  by (relation "measure (\<lambda>(_, s). length s)") (auto simp: strip_prefix_Some)

declare trim_start_matches.simps [simp del]

definition starts_with :: "string \<Rightarrow> string \<Rightarrow> bool" where
  "starts_with s pat \<longleftrightarrow> strip_prefix pat s \<noteq> None"

lemma starts_with_append [simp]: "starts_with (pat @ s) pat"
  by (simp add: starts_with_def)

lemma split_once_absent: "c \<notin> set s \<Longrightarrow> split_once c s = None"
proof -
  assume "c \<notin> set s"
  then have "dropWhile (\<lambda>x. x \<noteq> c) s = []" by (auto simp: dropWhile_eq_Nil_conv)
  then show ?thesis by (simp only: split_once_def list.case)
qed

lemma split_once_append: "c \<notin> set a \<Longrightarrow> split_once c (a @ c # b) = Some (a, b)"
proof -
  assume "c \<notin> set a"
  then have "\<forall>x \<in> set a. x \<noteq> c" by auto
  then show ?thesis by (simp add: split_once_def dropWhile_append2 takeWhile_append2)
qed

lemma split_on_nonempty [simp]: "split_on c s \<noteq> []"
  by (induction c s rule: split_on.induct) (auto split: list.split)

lemma split_on_append: "split_on c (a @ c # b) = split_on c a @ split_on c b"
  by (induction c a rule: split_on.induct) (auto split: list.split)

lemma split_on_absent: "c \<notin> set s \<Longrightarrow> split_on c s = [s]"
  by (induction c s rule: split_on.induct) auto

lemma trim_once:
  "pat \<noteq> [] \<Longrightarrow> \<not> starts_with s pat \<Longrightarrow> trim_start_matches pat (pat @ s) = s"
  by (subst trim_start_matches.simps, simp, subst trim_start_matches.simps)
    (simp add: starts_with_def split: option.split)

section \<open>The configuration of a store\<close>

datatype store_config =
    Local string
  | S3 string "string option" "string option" "string option" "string option" "string option"
  | GCS string "string option" "string option"

definition default_store_config :: store_config where
  "default_store_config = Local ''packt-store''"

text \<open>
  The query part of a URI: the pairs \<^verbatim>\<open>key=value\<close>, collected in a map in which a later pair
  replaces an earlier one.
\<close>

definition query_map :: "string option \<Rightarrow> string \<Rightarrow> string option" where
  "query_map query_part =
     (case query_part of
        None \<Rightarrow> Map.empty
      | Some q \<Rightarrow> map_of (rev (List.map_filter (split_once CHR ''='') (split_on CHR ''&'' q))))"

definition split_query :: "string \<Rightarrow> string \<times> string option" where
  "split_query rest =
     (case split_once CHR ''?'' rest of Some (p, q) \<Rightarrow> (p, Some q) | None \<Rightarrow> (rest, None))"

definition split_bucket :: "string \<Rightarrow> string \<times> string" where
  "split_bucket path_part =
     (case split_once CHR ''/'' path_part of Some (b, k) \<Rightarrow> (b, k) | None \<Rightarrow> (path_part, []))"

text \<open>With the feature \<^verbatim>\<open>cloud\<close> and without it.\<close>

definition config_from_uri :: "string \<Rightarrow> store_config result" where
  "config_from_uri uri =
     (if starts_with uri ''s3://'' then
        (let rest = trim_start_matches ''s3://'' uri;
             (path_part, query_part) = split_query rest;
             (name, key) = split_bucket path_part;
             query = query_map query_part
         in Inr (S3 name (query ''region'') (query ''endpoint'') (query ''access_key_id'')
                   (query ''secret_access_key'') (query ''cache_dir'')))
      else if starts_with uri ''gcs://'' then
        (let rest = trim_start_matches ''gcs://'' uri;
             (path_part, query_part) = split_query rest;
             (name, prefix) = split_bucket path_part;
             query = query_map query_part
         in Inr (GCS name (if prefix = [] then None else Some prefix) (query ''cache_dir'')))
      else Inr (Local uri))"

definition config_from_uri_local :: "string \<Rightarrow> store_config result" where
  "config_from_uri_local uri =
     (if starts_with uri ''s3://'' \<or> starts_with uri ''gcs://''
      then Inl (Err (Config ''cloud storage not supported: enable the 'cloud' feature''))
      else Inr (Local uri))"

section \<open>Paths\<close>

text \<open>\<^verbatim>\<open>std::path::Component\<close>, \<^verbatim>\<open>Path::components\<close>, \<^verbatim>\<open>file_name\<close>, \<^verbatim>\<open>join\<close> and \<^verbatim>\<open>starts_with\<close>.\<close>

datatype component = RootDir | CurDir | ParentDir | Normal string

definition component_of :: "string \<Rightarrow> component" where
  "component_of p = (if p = ''..'' then ParentDir else Normal p)"

definition path_names :: "string \<Rightarrow> string list" where
  "path_names s = filter (\<lambda>p. p \<noteq> [] \<and> p \<noteq> ''.'') (split_on CHR ''/'' s)"

definition path_start :: "string \<Rightarrow> component list" where
  "path_start s =
     (if s \<noteq> [] \<and> hd s = CHR ''/'' then [RootDir]
      else if hd (split_on CHR ''/'' s) = ''.'' then [CurDir] else [])"

definition path_components :: "string \<Rightarrow> component list" where
  "path_components s = path_start s @ map component_of (path_names s)"

definition file_name :: "string \<Rightarrow> string option" where
  "file_name s =
     (if path_components s = [] then None
      else (case last (path_components s) of Normal n \<Rightarrow> Some n | _ \<Rightarrow> None))"

definition path_join :: "string \<Rightarrow> string \<Rightarrow> string" where
  "path_join base p =
     (if p \<noteq> [] \<and> hd p = CHR ''/'' then p
      else if base \<noteq> [] \<and> last base \<noteq> CHR ''/'' then base @ ''/'' @ p else base @ p)"

definition path_starts_with :: "string \<Rightarrow> string \<Rightarrow> bool" where
  "path_starts_with p base \<longleftrightarrow>
     take (length (path_components base)) (path_components p) = path_components base"

text \<open>\<^verbatim>\<open>Store::manifest_name\<close>: the name a file is stored under.\<close>

definition manifest_name :: "string \<Rightarrow> string" where
  "manifest_name path = (case file_name path of None \<Rightarrow> [] | Some n \<Rightarrow> n)"

lemma path_names_append: "path_names (a @ CHR ''/'' # b) = path_names a @ path_names b"
  by (simp add: path_names_def split_on_append)

lemma path_start_append:
  assumes "a \<noteq> []"
  shows "path_start (a @ CHR ''/'' # b) = path_start a"
  using assms by (simp add: path_start_def split_on_append hd_append)

text \<open>A relative path stays under the path it is joined to, component by component.\<close>

lemma components_join:
  assumes "base \<noteq> []" and "p = [] \<or> hd p \<noteq> CHR ''/''"
  shows "path_components (path_join base p) = path_components base @ map component_of (path_names p)"
proof (cases "last base = CHR ''/''")
  case False
  with assms have "path_join base p = base @ CHR ''/'' # p" by (auto simp: path_join_def)
  then show ?thesis by (simp add: path_components_def path_names_append path_start_append [OF assms(1)])
next
  case True
  then obtain b where b: "base = b @ [CHR ''/'']" using assms(1) by (metis append_butlast_last_id)
  then have j: "path_join base p = b @ CHR ''/'' # p" using assms(2) by (auto simp: path_join_def)
  have e: "path_names [] = []" by (simp add: path_names_def)
  have n: "path_names base = path_names b" unfolding b by (simp add: path_names_append e)
  have s: "path_start (b @ CHR ''/'' # p) = path_start base" unfolding b
    by (cases "b = []") (simp_all add: path_start_append, simp add: path_start_def)
  show ?thesis by (simp add: path_components_def j path_names_append n s)
qed

lemma join_starts_with:
  assumes "p = [] \<or> hd p \<noteq> CHR ''/''"
  shows "path_starts_with (path_join base p) base"
proof (cases "base = []")
  case True
  then show ?thesis by (simp add: path_starts_with_def path_components_def path_start_def path_names_def)
next
  case False
  then show ?thesis using assms by (simp add: path_starts_with_def components_join)
qed

text \<open>A name that a file is stored under has no slash.\<close>

lemma split_on_pieces: "p \<in> set (split_on c s) \<Longrightarrow> c \<notin> set p"
  by (induction c s arbitrary: p rule: split_on.induct) (auto split: list.splits if_splits)

lemma manifest_name_plain: "CHR ''/'' \<notin> set (manifest_name path)"
proof (cases "file_name path")
  case (Some n)
  then have "Normal n \<in> set (path_components path)"
    by (auto simp: file_name_def split: if_splits component.splits) (metis last_in_set)
  then have "n \<in> set (path_names path)"
    by (auto simp: path_components_def path_start_def component_of_def split: if_splits)
  then show ?thesis using Some by (auto simp: manifest_name_def path_names_def dest: split_on_pieces)
qed (simp add: manifest_name_def)

section \<open>Properties\<close>

text \<open>The query of a URI as it is written.\<close>

fun query_string :: "(string \<times> string) list \<Rightarrow> string" where
  "query_string [] = []"
| "query_string [(k, v)] = k @ ''='' @ v"
| "query_string ((k, v) # ps) = k @ ''='' @ v @ ''&'' @ query_string ps"

definition query_plain :: "(string \<times> string) list \<Rightarrow> bool" where
  "query_plain ps \<longleftrightarrow> (\<forall>(k, v) \<in> set ps. CHR ''='' \<notin> set k \<and> CHR ''&'' \<notin> set k \<and> CHR ''&'' \<notin> set v)"

lemma split_pair:
  assumes "CHR ''='' \<notin> set k" and "CHR ''&'' \<notin> set k" and "CHR ''&'' \<notin> set v"
  shows "split_on CHR ''&'' (k @ CHR ''='' # v) = [k @ CHR ''='' # v]"
    and "split_on CHR ''&'' (k @ CHR ''='' # v @ CHR ''&'' # s) = (k @ CHR ''='' # v) # split_on CHR ''&'' s"
proof -
  show one: "split_on CHR ''&'' (k @ CHR ''='' # v) = [k @ CHR ''='' # v]"
    by (rule split_on_absent) (use assms in auto)
  show "split_on CHR ''&'' (k @ CHR ''='' # v @ CHR ''&'' # s) = (k @ CHR ''='' # v) # split_on CHR ''&'' s"
    using split_on_append [of "CHR ''&''" "k @ CHR ''='' # v" s] one by simp
qed

lemma query_map_string:
  assumes "query_plain ps"
  shows "query_map (Some (query_string ps)) = map_of (rev ps)"
proof -
  have "List.map_filter (split_once CHR ''='') (split_on CHR ''&'' (query_string ps)) = ps"
    using assms
    by (induction ps rule: query_string.induct)
      (simp_all add: query_plain_def split_pair split_once_append split_once_absent map_filter_simps)
  then show ?thesis by (simp add: query_map_def)
qed

lemma split_uri:
  assumes "CHR ''/'' \<notin> set b" and "CHR ''?'' \<notin> set b" and "CHR ''?'' \<notin> set key"
  shows "split_query (b @ ''/'' @ key @ ''?'' @ q) = (b @ ''/'' @ key, Some q)"
    and "split_bucket (b @ ''/'' @ key) = (b, key)"
proof -
  have "split_once CHR ''?'' ((b @ ''/'' @ key) @ CHR ''?'' # q) = Some (b @ ''/'' @ key, q)"
    by (rule split_once_append) (use assms in auto)
  then show "split_query (b @ ''/'' @ key @ ''?'' @ q) = (b @ ''/'' @ key, Some q)"
    by (simp add: split_query_def)
  show "split_bucket (b @ ''/'' @ key) = (b, key)"
    using split_once_append [OF assms(1), of key] by (simp add: split_bucket_def)
qed

text \<open>What follows the scheme does not begin with the scheme again.\<close>

lemma trim_scheme:
  assumes "CHR ''/'' \<notin> set b" and "CHR ''/'' \<notin> set scheme" and "b \<noteq> scheme"
  shows "trim_start_matches (scheme @ ''//'') (scheme @ ''//'' @ b @ ''/'' @ rest) = b @ ''/'' @ rest"
proof -
  have "\<not> starts_with (b @ ''/'' @ rest) (scheme @ ''//'')"
  proof
    assume "starts_with (b @ ''/'' @ rest) (scheme @ ''//'')"
    then obtain t where "b @ CHR ''/'' # rest = scheme @ CHR ''/'' # CHR ''/'' # t"
      by (auto simp: starts_with_def strip_prefix_Some)
    then have "split_once CHR ''/'' (b @ CHR ''/'' # rest) = split_once CHR ''/'' (scheme @ CHR ''/'' # CHR ''/'' # t)"
      by simp
    with assms show False by (simp add: split_once_append)
  qed
  from trim_once [OF _ this] show ?thesis by simp
qed

text \<open>
  C38. A URI of an object store is read as it is written: the bucket, for GCS the prefix, and every setting
  of the query, of which the last counts when one is repeated. The key of an S3 URI is dropped, so
  two URIs that differ in it name the same store.
\<close>

theorem config_from_uri_reads:
  assumes "CHR ''/'' \<notin> set b" and "CHR ''?'' \<notin> set b" and "CHR ''?'' \<notin> set key"
    and "b \<noteq> ''s3:''" and "b \<noteq> ''gcs:''" and "query_plain ps"
  shows "config_from_uri (''s3://'' @ b @ ''/'' @ key @ ''?'' @ query_string ps)
      = Inr (S3 b (map_of (rev ps) ''region'') (map_of (rev ps) ''endpoint'')
          (map_of (rev ps) ''access_key_id'') (map_of (rev ps) ''secret_access_key'')
          (map_of (rev ps) ''cache_dir''))
    \<and> config_from_uri (''gcs://'' @ b @ ''/'' @ key @ ''?'' @ query_string ps)
      = Inr (GCS b (if key = [] then None else Some key) (map_of (rev ps) ''cache_dir''))"
proof -
  define r where "r = b @ ''/'' @ key @ ''?'' @ query_string ps"
  have split: "split_query r = (b @ ''/'' @ key, Some (query_string ps))" "split_bucket (b @ ''/'' @ key) = (b, key)"
    unfolding r_def by (rule split_uri [OF assms(1-3)])+
  have trim: "trim_start_matches ''s3://'' (''s3://'' @ r) = r" "trim_start_matches ''gcs://'' (''gcs://'' @ r) = r"
    using trim_scheme [of b "''s3:''"] trim_scheme [of b "''gcs:''"] assms(1,4,5) by (simp_all add: r_def)
  have start: "starts_with (''s3://'' @ r) ''s3://''" "\<not> starts_with (''gcs://'' @ r) ''s3://''"
    "starts_with (''gcs://'' @ r) ''gcs://''"
    by (simp_all add: starts_with_def)
  have "config_from_uri (''s3://'' @ r)
      = Inr (S3 b (map_of (rev ps) ''region'') (map_of (rev ps) ''endpoint'')
          (map_of (rev ps) ''access_key_id'') (map_of (rev ps) ''secret_access_key'')
          (map_of (rev ps) ''cache_dir''))"
    unfolding config_from_uri_def trim if_P [OF start(1)]
    by (simp only: Let_def split prod.case query_map_string [OF assms(6)])
  moreover have "config_from_uri (''gcs://'' @ r)
      = Inr (GCS b (if key = [] then None else Some key) (map_of (rev ps) ''cache_dir''))"
    unfolding config_from_uri_def trim if_P [OF start(3)] if_not_P [OF start(2)]
    by (simp only: Let_def split prod.case query_map_string [OF assms(6)])
  ultimately show ?thesis by (simp only: r_def)
qed

theorem config_from_uri_reads_witness:
  "config_from_uri (''s3://'' @ ''archive'' @ ''/'' @ ''a'' @ ''?'' @ query_string [(''region'', ''x''), (''region'', ''eu'')])
      = Inr (S3 ''archive'' (Some ''eu'') None None None None)"
  using config_from_uri_reads [of "''archive''" "''a''" "[(''region'', ''x''), (''region'', ''eu'')]"]
  by (simp add: query_plain_def)

end
