(* ===== verification/Store_Api.thy ===== *)
theory Store_Api
  imports Cloud_Reopen Store_Config
begin

text \<open>
  The interface of the library: \<^verbatim>\<open>Store\<close> of \<^verbatim>\<open>packt-lib/src/store/store_api.rs\<close>. A store
  is a content store with its index and a directory of manifests, one for each file backed up, which
  names the chunks of the file. \<open>'s\<close> is the state of the content store and \<open>S\<close> its operations, so
  the definitions hold for the local and the cloud store. \<^verbatim>\<open>serde_json\<close> and the outcomes of the
  file system and of the object service are the record \<open>store_io\<close>; the metadata of the file and its
  chunks are the record \<open>source_file\<close>.
\<close>

section \<open>Data\<close>

record file_info =
  fi_name :: string
  fi_size :: u64
  fi_modified :: string
  fi_chunk_count :: nat

record store_info =
  si_file_count :: nat
  si_total_source_bytes :: u64
  si_total_chunks :: usize

record verify_report =
  vr_files_checked :: nat
  vr_chunks_checked :: nat
  vr_errors :: "string list"
  vr_ok :: bool

record backup_opts =
  bo_chunk_size :: usize
  bo_similarity_threshold :: f64
  bo_force :: bool

definition default_backup_opts :: backup_opts where
  "default_backup_opts =
     \<lparr>bo_chunk_size = 32768, bo_similarity_threshold = lit_0_70, bo_force = False\<rparr>"

record manifest_entry =
  me_path :: string
  me_size :: u64
  me_modified :: string
  me_permissions :: u32
  me_chunk_hashes :: "string list"

text \<open>
  \<open>sr_manifests\<close> are the files of the directory \<^verbatim>\<open>manifests\<close> (the objects below
  \<^verbatim>\<open>manifests/\<close>), by name; \<open>None\<close> when a local store has no such directory yet.
  \<open>sr_manifest_op\<close> tells whether the store has an operator for them.
\<close>

record 's store =
  sr_store :: 's
  sr_index :: index
  sr_config :: store_config
  sr_manifest_op :: bool
  sr_manifests :: "dir option"

text \<open>
  What writing a file does: it is complete, it could not be opened, or it ends after some bytes.
\<close>

datatype write_outcome = Written | Not_Opened | Cut nat

record store_io =
  so_read :: "string \<Rightarrow> bool"
  so_mkdir :: bool
  so_write :: write_outcome
  so_list :: bool
  so_remove :: bool
  so_ser :: "manifest_entry \<Rightarrow> bytes option"
  so_de :: "bytes \<Rightarrow> manifest_entry option"
  so_out_mkdir :: bool
  so_out_write :: "string \<Rightarrow> write_outcome"
  so_utime :: "string \<Rightarrow> bool"

text \<open>\<^verbatim>\<open>std::fs::Metadata\<close>; the time is that since the epoch in seconds, where there is one.\<close>

record file_meta =
  fm_len :: u64
  fm_modified :: "u64 option"
  fm_mode :: u32

definition perm :: "file_meta \<Rightarrow> u32" where
  "perm m = fm_mode m"

text \<open>
  The file to back up: its path, its metadata each time they are asked for (\<open>None\<close> for an error),
  whether it can be opened, and the chunks the streaming chunker cuts it into under a configuration.
\<close>

record source_file =
  sf_path :: string
  sf_check :: "file_meta option"
  sf_skip :: "file_meta option"
  sf_stat :: "u64 option"
  sf_open :: bool
  sf_items :: "chunk_config \<Rightarrow> stream_item list"
  sf_after :: "file_meta option"

section \<open>Opening\<close>

definition store_open_local ::
    "libs \<Rightarrow> (bytes \<Rightarrow> bytes \<Rightarrow> bytes) \<Rightarrow> string \<Rightarrow> dir option \<Rightarrow> dir option
      \<Rightarrow> local_store store result" where
  "store_open_local L keyed path packs_dir manifests =
     bind_res (local_open L packs_dir) (\<lambda>st.
     bind_res (populate_index keyed st (hi_new 1000000)) (\<lambda>index.
     Inr \<lparr>sr_store = local_set_index st, sr_index = index_lookup keyed index,
          sr_config = Local path, sr_manifest_op = False, sr_manifests = manifests\<rparr>))"

section \<open>Manifests\<close>

definition is_local :: "'s store \<Rightarrow> bool" where
  "is_local st = (case sr_config st of Local _ \<Rightarrow> True | _ \<Rightarrow> False)"

definition manifest_files :: "'s store \<Rightarrow> dir" where
  "manifest_files st = (case sr_manifests st of None \<Rightarrow> [] | Some files \<Rightarrow> files)"

definition manifest_file :: "string \<Rightarrow> string" where
  "manifest_file name = name @ ''.manifest''"

definition read_manifest_entry :: "store_io \<Rightarrow> 's store \<Rightarrow> string \<Rightarrow> manifest_entry option result" where
  "read_manifest_entry io st name =
     (let parse = (\<lambda>data. bind_res (or_err (Serialization ''manifest parse'') (so_de io data)) (\<lambda>e. Inr (Some e)))
      in if is_local st then
           (case map_of (manifest_files st) (manifest_file name) of
              None \<Rightarrow> Inr None
            | Some data \<Rightarrow> if so_read io name then parse data else Inl (Err (Io ''manifest'')))
         else if sr_manifest_op st then
           (if \<not> so_read io name then Inl (Err (Cloud ''failed to read manifest''))
            else (case map_of (manifest_files st) (manifest_file name) of
                    None \<Rightarrow> Inr None
                  | Some data \<Rightarrow> parse data))
         else Inr None)"

definition write_manifest_entry ::
    "store_io \<Rightarrow> 's store \<Rightarrow> string \<Rightarrow> manifest_entry \<Rightarrow> unit result \<times> 's store" where
  "write_manifest_entry io st name entry =
     bind_state (or_err (Serialization ''manifest serialize'') (so_ser io entry), st) (\<lambda>data st.
       let put = (\<lambda>bs. st\<lparr>sr_manifests := Some (AList.update (manifest_file name) bs (manifest_files st))\<rparr>)
       in if is_local st then
            (if \<not> so_mkdir io then (Inl (Err (Io ''manifests'')), st)
             else (case so_write io of
                     Written \<Rightarrow> (Inr (), put data)
                   | Not_Opened \<Rightarrow> (Inl (Err (Io ''manifest'')), st\<lparr>sr_manifests := Some (manifest_files st)\<rparr>)
                   | Cut k \<Rightarrow> (Inl (Err (Io ''manifest'')), put (take k data))))
          else if sr_manifest_op st then
            (if so_write io = Written then (Inr (), put data)
             else (Inl (Err (Cloud ''failed to write manifest'')), st))
          else (Inr (), st))"

text \<open>The entries of the directory itself, without those of directories below it.\<close>

definition manifest_names :: "'s store \<Rightarrow> string list" where
  "manifest_names st =
     sort (List.map_filter (strip_suffix ''.manifest'')
       (filter (\<lambda>f. CHR ''/'' \<notin> set f) (map fst (manifest_files st))))"

definition list_manifest_names :: "store_io \<Rightarrow> 's store \<Rightarrow> string list result" where
  "list_manifest_names io st =
     (if is_local st then
        (if sr_manifests st = None then Inr []
         else if so_list io then Inr (manifest_names st) else Inl (Err (Io ''manifests'')))
      else if sr_manifest_op st then
        (if so_list io then Inr (manifest_names st) else Inl (Err (Cloud ''failed to list manifests'')))
      else Inr [])"

definition delete_manifest_entry :: "store_io \<Rightarrow> 's store \<Rightarrow> string \<Rightarrow> unit result \<times> 's store" where
  "delete_manifest_entry io st name =
     (let removed = st\<lparr>sr_manifests := Some (AList.delete (manifest_file name) (manifest_files st))\<rparr>
      in if is_local st then
           (if map_of (manifest_files st) (manifest_file name) = None then (Inr (), st)
            else if so_remove io then (Inr (), removed) else (Inl (Err (Io ''manifest'')), st))
         else if sr_manifest_op st then (Inr (), if so_remove io then removed else st)
         else (Inr (), st))"

definition show_secs :: "u64 \<Rightarrow> string" where
  "show_secs t = show_nat (unat t)"

definition is_file_unchanged :: "store_io \<Rightarrow> 's store \<Rightarrow> source_file \<Rightarrow> string \<Rightarrow> bool result" where
  "is_file_unchanged io st source name =
     bind_res (read_manifest_entry io st name) (\<lambda>found.
       case found of
         None \<Rightarrow> Inr False
       | Some entry \<Rightarrow> bind_res (or_err (Io ''metadata'') (sf_check source)) (\<lambda>meta.
           if me_size entry \<noteq> fm_len meta then Inr False
           else (case fm_modified meta of
                   None \<Rightarrow> Inr False
                 | Some t \<Rightarrow> Inr (me_modified entry = show_secs t))))"

section \<open>Backup\<close>

record pipeline_config =
  pc_chunk_config :: chunk_config
  pc_compression_level :: int
  pc_similarity_config :: "similarity_config option"

definition default_pipeline_config :: pipeline_config where
  "default_pipeline_config = \<lparr>pc_chunk_config = default_32k, pc_compression_level = 3,
     pc_similarity_config = Some default_similarity_config\<rparr>"

text \<open>The pipeline's hasher, store and index are those of the environment and of the store.\<close>

record backup_pipeline =
  bp_config :: pipeline_config
  bp_similarity :: "similarity_stage option"

definition pipeline_new :: "pipeline_config \<Rightarrow> backup_pipeline" where
  "pipeline_new config =
     \<lparr>bp_config = config, bp_similarity = map_option stage_new (pc_similarity_config config)\<rparr>"

definition has_similarity :: "backup_pipeline \<Rightarrow> bool" where
  "has_similarity p \<longleftrightarrow> bp_similarity p \<noteq> None"

text \<open>
  The pipeline on the file, along a schedule of its two threads; \<open>None\<close> when the schedule is not one
  of a whole run.
\<close>

definition backup_file ::
    "'s env \<Rightarrow> thread list \<Rightarrow> backup_pipeline \<Rightarrow> 's \<Rightarrow> index \<Rightarrow> source_file
      \<Rightarrow> (backup_stats result \<times> 's \<times> index) option" where
  "backup_file env schedule pipeline s ix source =
     (case sf_stat source of
        None \<Rightarrow> Some (Inl (Err (Io ''Failed to stat source'')), s, ix)
      | Some len \<Rightarrow>
          if \<not> sf_open source then Some (Inl (Err (Io ''Failed to open source'')), s, ix)
          else Option.bind
            (run_schedule (env\<lparr>en_level := pc_compression_level (bp_config pipeline)\<rparr>) schedule
               (system_init len (sf_items source (pc_chunk_config (bp_config pipeline)))
                  (bp_similarity pipeline) ix s)) (\<lambda>sy.
            map_option (\<lambda>r. (r, w_store (sy_writer sy), w_index (sy_writer sy))) (sy_result sy)))"

definition chunk_config_of :: "backup_opts \<Rightarrow> chunk_config" where
  "chunk_config_of opts = \<lparr>min_size = max (bo_chunk_size opts div 2) 64, avg_size = bo_chunk_size opts,
     max_size = min (bo_chunk_size opts * 4) 1048576\<rparr>"

definition f64_less :: "f64 \<Rightarrow> f64 \<Rightarrow> bool" where
  "f64_less a b \<longleftrightarrow> f64_le a b \<and> \<not> f64_le b a"

definition f64_clamp :: "f64 \<Rightarrow> f64 \<Rightarrow> f64 \<Rightarrow> f64" where
  "f64_clamp x lo hi = (if f64_less x lo then lo else if f64_less hi x then hi else x)"

definition similarity_of :: "backup_opts \<Rightarrow> similarity_config option" where
  "similarity_of opts =
     (if f64_less (Fin 0) (bo_similarity_threshold opts)
      then Some (default_similarity_config
             \<lparr>sc_threshold := f64_clamp (bo_similarity_threshold opts) (Fin 0) (Fin 1)\<rparr>)
      else None)"

definition entry_of :: "string \<Rightarrow> file_meta \<Rightarrow> backup_stats \<Rightarrow> manifest_entry" where
  "entry_of name meta stats =
     \<lparr>me_path = name, me_size = fm_len meta,
      me_modified = (case fm_modified meta of None \<Rightarrow> [] | Some t \<Rightarrow> show_secs t),
      me_permissions = perm meta, me_chunk_hashes = map to_hex (bs_chunk_hashes stats)\<rparr>"

definition backup ::
    "'s env \<Rightarrow> store_io \<Rightarrow> thread list \<Rightarrow> 's store \<Rightarrow> source_file \<Rightarrow> backup_opts
      \<Rightarrow> (backup_stats result \<times> 's store) option" where
  "backup env io schedule st source opts =
     (let name = manifest_name (sf_path source);
          cfg = chunk_config_of opts
      in case if bo_force opts then Inr False else is_file_unchanged io st source name of
           Inl e \<Rightarrow> Some (Inl e, st)
         | Inr True \<Rightarrow>
             Some (bind_res (or_err (Io ''metadata'') (sf_skip source)) (\<lambda>meta.
                     Inr (default_stats\<lparr>bs_source_size := fm_len meta\<rparr>)), st)
         | Inr False \<Rightarrow>
             if \<not> validate cfg then Some (Inl (Err (Config ''invalid chunk config'')), st)
             else map_option (\<lambda>(result, s, ix).
               bind_state (result, st\<lparr>sr_store := s, sr_index := ix\<rparr>) (\<lambda>stats st.
               bind_state (or_err (Io ''metadata'') (sf_after source), st) (\<lambda>meta st.
               bind_state (write_manifest_entry io st name (entry_of name meta stats)) (\<lambda>_ st.
               (Inr stats, st)))))
               (backup_file env schedule
                  (pipeline_new (default_pipeline_config
                     \<lparr>pc_chunk_config := cfg, pc_similarity_config := similarity_of opts\<rparr>))
                  (sr_store st) (sr_index st) source))"

section \<open>Restore\<close>

text \<open>What a restore leaves: the files it wrote, by path, and the times it set, in seconds.\<close>

record restored =
  rs_files :: dir
  rs_mtimes :: "(string \<times> int) list"

definition store_get :: "'s content_store \<Rightarrow> 's store \<Rightarrow> hash \<Rightarrow> bytes result \<times> 's store" where
  "store_get S st h =
     (case cs_get S (sr_index st) (sr_store st) h of (got, s) \<Rightarrow> (got, st\<lparr>sr_store := s\<rparr>))"

fun read_chunks ::
    "'s content_store \<Rightarrow> 's store \<Rightarrow> string list \<Rightarrow> bytes \<Rightarrow> bytes result \<times> 's store" where
  "read_chunks S st [] file_data = (Inr file_data, st)"
| "read_chunks S st (hash_hex # hashes) file_data =
     (case from_hex hash_hex of
        Inl e \<Rightarrow> (Inl (Err (Serialization (''invalid hash: '' @ e))), st)
      | Inr h \<Rightarrow> bind_state (store_get S st h) (\<lambda>chunk st. read_chunks S st hashes (file_data @ chunk)))"

definition restore_path :: "string \<Rightarrow> string \<Rightarrow> manifest_entry \<Rightarrow> string result" where
  "restore_path dest name entry =
     (if me_path entry = [] then Inr (path_join dest name)
      else (let p = path_join dest (me_path entry)
            in if \<not> path_starts_with p dest
               then Inl (Err (Config ''path traversal detected in manifest entry'')) else Inr p))"

text \<open>
  The time of the file: \<^verbatim>\<open>parse::<u64>\<close>, an addition to the epoch that panics when the sum does not
  fit the signed seconds of a \<^verbatim>\<open>SystemTime\<close>, and setting the time, of which errors are ignored.
\<close>

definition restore_mtime :: "store_io \<Rightarrow> string \<Rightarrow> string \<Rightarrow> restored \<Rightarrow> unit result \<times> restored" where
  "restore_mtime io out_path modified out =
     (case parse_uint (2 ^ 64) modified of
        None \<Rightarrow> (Inr (), out)
      | Some secs \<Rightarrow>
          if secs \<ge> 2 ^ 63 then (Inl (Panic ''overflow when adding duration to instant''), out)
          else (Inr (), if so_utime io out_path
                        then out\<lparr>rs_mtimes := AList.update out_path (int secs) (rs_mtimes out)\<rparr> else out))"

definition write_out :: "store_io \<Rightarrow> string \<Rightarrow> bytes \<Rightarrow> restored \<Rightarrow> unit result \<times> restored" where
  "write_out io out_path data out =
     (case so_out_write io out_path of
        Written \<Rightarrow> (Inr (), out\<lparr>rs_files := AList.update out_path data (rs_files out)\<rparr>)
      | Not_Opened \<Rightarrow> (Inl (Err (Io ''restore'')), out)
      | Cut k \<Rightarrow> (Inl (Err (Io ''restore'')), out\<lparr>rs_files := AList.update out_path (take k data) (rs_files out)\<rparr>))"

text \<open>A call that changes the second part of the state only.\<close>

definition on_out :: "(restored \<Rightarrow> unit result \<times> restored) \<Rightarrow> 'a \<times> restored \<Rightarrow> unit result \<times> 'a \<times> restored" where
  "on_out f s = (case f (snd s) of (r, out) \<Rightarrow> (r, fst s, out))"

definition restore_entry ::
    "'s content_store \<Rightarrow> store_io \<Rightarrow> string \<Rightarrow> string \<Rightarrow> manifest_entry \<Rightarrow> 's store \<times> restored
      \<Rightarrow> unit result \<times> 's store \<times> restored" where
  "restore_entry S io dest name entry s =
     bind_state (restore_path dest name entry, s) (\<lambda>out_path s.
     bind_state (case read_chunks S (fst s) (me_chunk_hashes entry) [] of (r, st) \<Rightarrow> (r, st, snd s)) (\<lambda>file_data s.
     bind_state (on_out (write_out io out_path file_data) s) (\<lambda>_ s.
     on_out (restore_mtime io out_path (me_modified entry)) s)))"

fun restore_files ::
    "'s content_store \<Rightarrow> store_io \<Rightarrow> string \<Rightarrow> string list \<Rightarrow> 's store \<times> restored
      \<Rightarrow> unit result \<times> 's store \<times> restored" where
  "restore_files S io dest [] s = (Inr (), s)"
| "restore_files S io dest (name # names) s =
     bind_state (read_manifest_entry io (fst s) name, s) (\<lambda>found s.
       case found of
         None \<Rightarrow> restore_files S io dest names s
       | Some entry \<Rightarrow> bind_state (restore_entry S io dest name entry s) (\<lambda>_ s.
           restore_files S io dest names s))"

definition chosen_names :: "store_io \<Rightarrow> 's store \<Rightarrow> string option \<Rightarrow> string list result" where
  "chosen_names io st file = (case file of Some f \<Rightarrow> Inr [f] | None \<Rightarrow> list_manifest_names io st)"

definition restore ::
    "'s content_store \<Rightarrow> store_io \<Rightarrow> string \<Rightarrow> string option \<Rightarrow> 's store \<times> restored
      \<Rightarrow> unit result \<times> 's store \<times> restored" where
  "restore S io dest file s =
     bind_state (chosen_names io (fst s) file, s) (\<lambda>names s.
       if names = []
       then (Inl (Err (ChunkNotFound (case file of None \<Rightarrow> ''no manifests found'' | Some f \<Rightarrow> f))), s)
       else if \<not> so_out_mkdir io then (Inl (Err (Io ''destination'')), s)
       else restore_files S io dest names s)"

section \<open>Listing, information, deletion\<close>

fun list_entries :: "store_io \<Rightarrow> 's store \<Rightarrow> string list \<Rightarrow> (string \<times> manifest_entry) list result" where
  "list_entries io st [] = Inr []"
| "list_entries io st (name # names) =
     bind_res (read_manifest_entry io st name) (\<lambda>found.
     bind_res (list_entries io st names) (\<lambda>rest.
     Inr (case found of None \<Rightarrow> rest | Some entry \<Rightarrow> (name, entry) # rest)))"

definition list_files :: "store_io \<Rightarrow> 's store \<Rightarrow> file_info list result" where
  "list_files io st =
     bind_res (list_manifest_names io st) (\<lambda>names.
     bind_res (list_entries io st names) (\<lambda>es.
     Inr (map (\<lambda>(name, entry). \<lparr>fi_name = name, fi_size = me_size entry,
            fi_modified = me_modified entry, fi_chunk_count = length (me_chunk_hashes entry)\<rparr>) es)))"

definition info :: "store_io \<Rightarrow> 's store \<Rightarrow> store_info result" where
  "info io st =
     bind_res (list_manifest_names io st) (\<lambda>names.
     bind_res (list_entries io st names) (\<lambda>es.
     Inr \<lparr>si_file_count = length names,
          si_total_source_bytes = sum_list (map (me_size \<circ> snd) es),
          si_total_chunks = sum_list (map (\<lambda>(_, e). of_nat (length (me_chunk_hashes e))) es)\<rparr>))"

definition has_file :: "store_io \<Rightarrow> 's store \<Rightarrow> string \<Rightarrow> bool result" where
  "has_file io st name = bind_res (read_manifest_entry io st name) (\<lambda>found. Inr (found \<noteq> None))"

definition delete_file :: "store_io \<Rightarrow> 's store \<Rightarrow> string \<Rightarrow> unit result \<times> 's store" where
  "delete_file io st name =
     bind_state (has_file io st name, st) (\<lambda>found st.
       if \<not> found then (Inl (Err (ChunkNotFound (''file not found in store: '' @ name))), st)
       else delete_manifest_entry io st name)"

text \<open>With the feature \<^verbatim>\<open>cloud\<close> and without it.\<close>

definition iter_chunks :: "'s store \<Rightarrow> hash list result" where
  "iter_chunks st = Inl (Err (Config ''iter_chunks not yet implemented for cloud''))"

definition iter_chunks_local :: "'s store \<Rightarrow> hash list result" where
  "iter_chunks_local st = Inl (Err (Config ''iter_chunks not yet implemented''))"

section \<open>Verification\<close>

fun verify_chunks ::
    "'s content_store \<Rightarrow> libs \<Rightarrow> string \<Rightarrow> string list \<Rightarrow> verify_report \<Rightarrow> 's store
      \<Rightarrow> verify_report result \<times> 's store" where
  "verify_chunks S L name [] rep st = (Inr rep, st)"
| "verify_chunks S L name (hash_hex # hashes) rep st =
     (case from_hex hash_hex of
        Inl e \<Rightarrow> verify_chunks S L name hashes
          (rep\<lparr>vr_errors := vr_errors rep @ [name @ '': invalid hash '' @ hash_hex @ '': '' @ e]\<rparr>) st
      | Inr h \<Rightarrow>
          (let rep = rep\<lparr>vr_chunks_checked := vr_chunks_checked rep + 1\<rparr>
           in case store_get S st h of
                (Inl (Panic m), st) \<Rightarrow> (Inl (Panic m), st)
              | (Inl (Err e), st) \<Rightarrow> verify_chunks S L name hashes
                  (rep\<lparr>vr_errors := vr_errors rep @ [name @ '': chunk '' @ hash_hex @ '' not found'']\<rparr>) st
              | (Inr data, st) \<Rightarrow> verify_chunks S L name hashes
                  (if Hash (lib_blake3 L data) \<noteq> h
                   then rep\<lparr>vr_errors := vr_errors rep @ [name @ '': chunk '' @ hash_hex @ '' checksum mismatch'']\<rparr>
                   else rep) st))"

fun verify_files ::
    "'s content_store \<Rightarrow> libs \<Rightarrow> store_io \<Rightarrow> string list \<Rightarrow> verify_report \<Rightarrow> 's store
      \<Rightarrow> verify_report result \<times> 's store" where
  "verify_files S L io [] rep st = (Inr rep, st)"
| "verify_files S L io (name # names) rep st =
     bind_state (read_manifest_entry io st name, st) (\<lambda>found st.
       case found of
         None \<Rightarrow> verify_files S L io names
           (rep\<lparr>vr_errors := vr_errors rep @ [''manifest not found: '' @ name]\<rparr>) st
       | Some entry \<Rightarrow> bind_state
           (verify_chunks S L name (me_chunk_hashes entry)
              (rep\<lparr>vr_files_checked := vr_files_checked rep + 1\<rparr>) st) (\<lambda>rep st.
           verify_files S L io names rep st))"

definition verify ::
    "'s content_store \<Rightarrow> libs \<Rightarrow> store_io \<Rightarrow> string option \<Rightarrow> 's store \<Rightarrow> verify_report result \<times> 's store" where
  "verify S L io file st =
     bind_state (chosen_names io st file, st) (\<lambda>names st.
     bind_state (verify_files S L io names
       \<lparr>vr_files_checked = 0, vr_chunks_checked = 0, vr_errors = [], vr_ok = False\<rparr> st) (\<lambda>rep st.
     (Inr (rep\<lparr>vr_ok := vr_errors rep = []\<rparr>), st)))"

end
