(* ===== verification/Crash_Safety.thy ===== *)
theory Crash_Safety
  imports Backup_Runs
begin

text \<open>
  What is left when a backup fails or its process is killed. The locale \<open>crash_store_contract\<close> adds
  to the contract of a store what it guarantees of the state a failed operation leaves; over it, every
  state a backup can reach, at the end or in the middle, has that guarantee. The local store keeps
  it: whatever happened, its directory can be opened again and holds what it held.
\<close>

section \<open>The contract\<close>

text \<open>
  \<open>survives\<close> is what is promised of the state of a store that is abandoned.
\<close>

locale crash_store_contract = content_store_contract S L V held ready settled
  for S :: "'s content_store" and L :: libs and V :: "hash \<Rightarrow> bytes"
    and held :: "'s \<Rightarrow> (hash \<times> hash option) set" and ready :: "nat \<Rightarrow> 's \<Rightarrow> bool" and settled :: "'s \<Rightarrow> bool" +
  fixes survives :: "'s \<Rightarrow> bool"
  assumes ready_survives: "ready n s \<Longrightarrow> survives s"
    and put_fails: "ready (Suc n) s \<Longrightarrow> ix h = None \<Longrightarrow> (\<forall>k. (h, k) \<notin> held s) \<Longrightarrow> genuine L V h
          \<Longrightarrow> length (V h) \<le> 2 ^ 20 \<Longrightarrow> cs_put S ix s h (V h) = (Inl e, s') \<Longrightarrow> survives s'"
    and put_delta_fails: "ready (Suc n) s \<Longrightarrow> ix h = None \<Longrightarrow> (\<forall>k. (h, k) \<notin> held s) \<Longrightarrow> genuine L V h
          \<Longrightarrow> (b, None) \<in> held s \<Longrightarrow> length d \<le> 2 ^ 20
          \<Longrightarrow> z_decompress_dict (lib_zstd L) (V b) d (unat l) = Some (V h)
          \<Longrightarrow> cs_put_delta S ix s h b d l = (Inl e, s') \<Longrightarrow> survives s'"
    and flush_fails: "ready (Suc n) s \<Longrightarrow> cs_flush S s = (Inl e, s') \<Longrightarrow> survives s'"
begin

lemma store_chunk_fails:
  assumes env: "en_ops env = S" and inv: "writer_inv (Suc n) w" and c: "chunk_ok L V h d"
    and st: "store_chunk env h d w = (Inl e, w')"
  shows "survives (w_store w')"
proof (cases "w_index w h")
  case (Some loc)
  then have "cs_put S (w_index w) (w_store w) h d = (Inr loc, w_store w)"
    using inv put_known [of "Suc n" "w_store w" "w_index w" h loc d] by (simp add: writer_inv_def)
  with st env show ?thesis by (simp add: store_chunk_def insert_loc_def)
next
  case None
  then have new: "\<forall>k. (h, k) \<notin> held (w_store w)" using inv by (force simp: writer_inv_def)
  from st env obtain s' where "cs_put S (w_index w) (w_store w) h d = (Inl e, s')" "w_store w' = s'"
    by (auto simp: store_chunk_def insert_loc_def split: prod.splits sum.splits)
  with put_fails [of n "w_store w" "w_index w" h e s'] None new c inv show ?thesis
    by (simp add: chunk_ok_def writer_inv_def)
qed

lemma store_delta_fails:
  assumes env: "en_ops env = S" and inv: "writer_inv (Suc n) w" and c: "chunk_ok L V h d"
    and b: "b \<in> fulls (held (w_store w))" and small: "length frame \<le> 2 ^ 20"
    and dec: "z_decompress_dict (lib_zstd L) (V b) frame (length d) = Some (V h)"
    and st: "store_delta env h b frame d w = (Inl e, w')"
  shows "survives (w_store w')"
proof (cases "w_index w h")
  case (Some loc)
  then have "cs_put_delta S (w_index w) (w_store w) h b frame l = (Inr loc, w_store w)" for l
    using inv put_delta_known [of "Suc n" "w_store w" "w_index w" h loc b frame l]
    by (simp add: writer_inv_def)
  with st env show ?thesis by (simp add: store_delta_def insert_loc_def)
next
  case None
  then have new: "\<forall>k. (h, k) \<notin> held (w_store w)" using inv by (force simp: writer_inv_def)
  from st env obtain s' where
    put: "cs_put_delta S (w_index w) (w_store w) h b frame (of_nat (length d)) = (Inl e, s')" "w_store w' = s'"
    by (auto simp: store_delta_def insert_loc_def split: prod.splits sum.splits)
  have "unat (of_nat (length d) :: u32) = length d"
    by (rule unat_of_nat_u32) (use c in \<open>simp add: chunk_ok_def\<close>)
  with put_delta_fails [of n "w_store w" "w_index w" h b frame "of_nat (length d)" e s']
    None new small put c inv b dec show ?thesis
    by (simp add: chunk_ok_def writer_inv_def fulls_def)
qed

lemma finish_message_Inl: "finish_message env h d r = (Inl e, w') \<Longrightarrow> r = (Inl e, w')"
  by (auto simp: finish_message_def split: prod.splits sum.splits)

lemma then_count_Inl: "then_count r f = (Inl e, w') \<Longrightarrow> r = (Inl e, w')"
  by (auto simp: then_count_def split: prod.splits sum.splits)

lemma store_near_fails:
  assumes env: "en_ops env = S" "en_libs env = L" and Z: "zstd_ok (lib_zstd L)" "zstd_bounded (lib_zstd L)"
    and inv0: "writer_inv (Suc n) w0" and c: "chunk_ok L V h d" and b0: "b \<in> fulls (held (w_store w0))"
    and st0: "store_near_duplicate env h d b w0 = (Inl e, w')"
  shows "survives (w_store w')"
proof -
  obtain r s where get0: "cs_get S (w_index w0) (w_store w0) b = (r, s)" by force
  define w where "w = w0\<lparr>w_store := s\<rparr>"
  have g: "r = Inr (V b) \<and> ready (Suc n) s \<and> held s = held (w_store w0)"
    using get_full [OF _ _ get0, of "Suc n"] inv0 b0 by (simp add: writer_inv_def fulls_def)
  then have inv: "writer_inv (Suc n) w" and b: "b \<in> fulls (held (w_store w))"
    using inv0 b0 by (simp_all add: writer_inv_def w_def)
  have st: "(case try_encode (lib_zstd L) (en_level env) (V b) d of
      Inl e \<Rightarrow> (Inl e, w)
    | Inr (Some frame) \<Rightarrow> then_count (store_delta env h b frame d w) (count_delta d frame)
    | Inr None \<Rightarrow> then_count (store_chunk env h d w) count_fallback) = (Inl e, w')"
    using st0 get0 g env unfolding w_def by (simp add: store_near_duplicate_def Let_def)
  show ?thesis
  proof (cases "try_encode (lib_zstd L) (en_level env) (V b) d")
    case (Inl f)
    then have "w' = w" using st by simp
    then show ?thesis using inv ready_survives by (auto simp: writer_inv_def)
  next
    case enc: (Inr fr)
    show ?thesis
    proof (cases fr)
      case None
      then have "store_chunk env h d w = (Inl e, w')" using st enc by (auto dest: then_count_Inl)
      then show ?thesis by (rule store_chunk_fails [OF env(1) inv c])
    next
      case (Some frame)
      then have e: "try_encode (lib_zstd L) (en_level env) (V b) d = Inr (Some frame)" using enc by simp
      have "store_delta env h b frame d w = (Inl e, w')" using st e by (auto dest: then_count_Inl)
      moreover have "length frame \<le> 2 ^ 20" using try_encode_short [OF Z(2) e] c by (simp add: chunk_ok_def)
      moreover have "z_decompress_dict (lib_zstd L) (V b) frame (length d) = Some (V h)"
        using zstd_okD(4) [OF Z(1)] try_encode_Some [OF e] c by (auto simp: chunk_ok_def)
      ultimately show ?thesis using store_delta_fails [OF env(1) inv c b] by blast
    qed
  qed
qed

lemma handle_message_fails:
  assumes env: "en_ops env = S" "en_libs env = L" and Z: "zstd_ok (lib_zstd L)" "zstd_bounded (lib_zstd L)"
    and inv: "writer_inv (Suc n) w"
    and q: "q_ok L V (fst ` held (w_store w)) (fulls (held (w_store w))) [m]"
    and st: "handle_message env m w = (Inl e, w')"
  shows "survives (w_store w')"
proof (cases m)
  case (Store h d)
  with st have "store_chunk env h d w = (Inl e, w')"
    by (auto simp: handle_message_def dest: finish_message_Inl)
  with store_chunk_fails [OF env(1) inv] q Store show ?thesis by simp
next
  case (StoreNearDuplicate h d b t)
  with st have "store_near_duplicate env h d b w = (Inl e, w')"
    by (auto simp: handle_message_def dest: finish_message_Inl)
  moreover have "chunk_ok L V h d" "b \<in> fulls (held (w_store w))" using q StoreNearDuplicate by simp_all
  ultimately show ?thesis using store_near_fails [OF env Z inv] by blast
next
  case (Skip h)
  with st show ?thesis by (simp add: handle_message_def)
qed

text \<open>Every state that a backup reaches.\<close>

definition crash_inv :: "'s env \<Rightarrow> stream_item list \<Rightarrow> 's system \<Rightarrow> bool" where
  "crash_inv env items sy \<longleftrightarrow> sys_inv env items sy
     \<and> (\<forall>e. sy_writer_result sy = Some (Inl e) \<longrightarrow> survives (w_store (sy_writer sy)))"

lemma receive_fails:
  assumes env: "en_ops env = S" "en_libs env = L" and Z: "zstd_ok (lib_zstd L)" "zstd_bounded (lib_zstd L)"
    and inv: "live_inv env sy" and ch: "sy_channel sy = m # q"
    and h: "handle_message env m (sy_writer sy) = (Inl e, w')"
  shows "survives (w_store w')"
proof -
  let ?K = "held (w_store (sy_writer sy))"
  have qs: "queue sy = [m] @ queue (sy\<lparr>sy_channel := q\<rparr>)" by (simp add: queue_def ch)
  have "q_ok L V (fst ` ?K) (fulls ?K) ([m] @ queue (sy\<lparr>sy_channel := q\<rparr>))"
    using inv by (simp only: live_inv_def Let_def qs)
  then have "q_ok L V (fst ` ?K) (fulls ?K) [m]" by (simp only: q_append)
  moreover obtain n where "writer_inv (Suc n) (sy_writer sy)"
    using inv by (auto simp: live_inv_def Let_def)
  ultimately show ?thesis using handle_message_fails [OF env Z _ _ h] by blast
qed

lemma crash_inv_step:
  assumes env: "en_ops env = S" "en_libs env = L" and Z: "zstd_ok (lib_zstd L)" "zstd_bounded (lib_zstd L)"
    and st: "step env sy sy'" and inv: "crash_inv env items sy"
  shows "crash_inv env items sy'"
proof -
  have sys: "sys_inv env items sy" "sys_inv env items sy'"
    using inv sys_inv_step [OF env Z st] by (simp_all add: crash_inv_def)
  from st have "sy_writer_result sy' = Some (Inl e) \<Longrightarrow> survives (w_store (sy_writer sy'))" for e
  proof cases
    case (receive m q)
    assume a: "sy_writer_result sy' = Some (Inl e)"
    obtain r w' where h: "handle_message env m (sy_writer sy) = (r, w')" by force
    have live: "live_inv env sy" using sys(1) receive by (simp add: sys_inv_def)
    from a h receive obtain f where "handle_message env m (sy_writer sy) = (Inl f, w')" "sy_writer sy' = w'"
      by (cases r) (auto simp: after_message_def)
    with receive_fails [OF env Z live receive(3)] show ?thesis by metis
  next
    case writer_flush
    assume a: "sy_writer_result sy' = Some (Inl e)"
    obtain r s' where f: "cs_flush (en_ops env) (w_store (sy_writer sy)) = (r, s')" by force
    obtain n where "ready (Suc n) (w_store (sy_writer sy))"
      using sys(1) writer_flush by (auto simp: sys_inv_def live_inv_def writer_inv_def Let_def)
    moreover from a f writer_flush obtain g where "cs_flush S (w_store (sy_writer sy)) = (Inl g, s')"
      "w_store (sy_writer sy') = s'"
      using env by (cases r) (auto simp: after_flush_def)
    ultimately show ?thesis using flush_fails by metis
  qed (use inv in \<open>auto simp: crash_inv_def prepare_chunk_def Let_def split: prod.splits\<close>)
  with sys show ?thesis by (simp add: crash_inv_def)
qed

lemma crash_inv_init:
  "sys_inv env items (system_init fs items stage ix s) \<Longrightarrow> crash_inv env items (system_init fs items stage ix s)"
  by (simp add: crash_inv_def system_init_def)

lemma crash_inv_env: "en_xxh3 env' = en_xxh3 env \<Longrightarrow> crash_inv env' items sy = crash_inv env items sy"
  by (simp add: crash_inv_def sys_inv_def live_inv_def Let_def)

lemma crash_inv_survives: "crash_inv env items sy \<Longrightarrow> survives (w_store (sy_writer sy))"
  using ready_survives
  by (cases "sy_writer_result sy"; cases "the (sy_writer_result sy)")
    (auto simp: crash_inv_def sys_inv_def live_inv_def writer_inv_def Let_def)

end

section \<open>What a directory of packs holds\<close>

text \<open>
  \<open>dir_holds L V H dir\<close>: the directory is that of some store in good order with nothing pending, which
  holds at least \<open>H\<close>, and only chunks that their hashes determine.
\<close>

definition dir_holds :: "libs \<Rightarrow> (hash \<Rightarrow> bytes) \<Rightarrow> (hash \<times> hash option) set \<Rightarrow> dir \<Rightarrow> bool" where
  "dir_holds L V H dir \<longleftrightarrow> (\<exists>st. ls_dir st = dir \<and> local_inv L V st \<and> local_fresh st \<and> dir_complete st
     \<and> ls_pending_chunks st = [] \<and> H \<subseteq> kinds st \<and> (\<forall>h \<in> fst ` kinds st. genuine L V h))"

lemma dir_complete_cong:
  "ls_dir st' = ls_dir st \<Longrightarrow> ls_packs st' = ls_packs st \<Longrightarrow> dir_complete st' = dir_complete st"
  unfolding dir_complete_def by (simp only:)

lemma dir_complete_local_flush:
  "dir_complete st \<Longrightarrow> local_flush L io st = (Inr (), st') \<Longrightarrow> dir_complete st'"
  using dir_complete_flush [of st L io st']
  by (cases "ls_pending_chunks st = []") (auto simp: local_flush_def)

lemma dir_complete_put_entry:
  assumes c: "dir_complete st" and put: "put_entry L io ix st new = (Inr loc, st')"
  shows "dir_complete st'"
proof -
  let ?st1 = "append_entry st new"
  have 1: "dir_complete ?st1" "ls_pending_chunks ?st1 \<noteq> []"
    using c dir_complete_cong [of ?st1 st] by (simp_all add: append_entry_def)
  show ?thesis
    using put c 1 dir_complete_flush [OF 1, of L io st']
    by (auto simp: put_entry_cases Let_def split: if_splits prod.splits sum.splits option.splits)
qed

lemma dir_complete_sign:
  assumes "local_inv L V st" and "dir_complete st" and "local_put_signature st h sg = (r, st')"
  shows "dir_complete st'"
  using put_signature_spec [OF assms(1,3)] assms(2) dir_complete_cong [of st' st] by simp

lemma packs_kinds_flush:
  "local_fresh st \<Longrightarrow> run_flush L io st = (r, st') \<Longrightarrow> packs_kinds (ls_packs st) \<subseteq> packs_kinds (ls_packs st')"
  by (erule run_flush_cases) (simp_all add: fresh_pack_update)

lemma packs_kinds_put_entry:
  assumes "local_fresh st" and "put_entry L io ix st new = (r, st')"
  shows "packs_kinds (ls_packs st) \<subseteq> packs_kinds (ls_packs st')"
  using assms packs_kinds_flush [of "append_entry st new" L io]
  by (fastforce simp: put_entry_cases Let_def split: if_splits prod.splits sum.splits option.splits)

text \<open>The packs of a store in good order, and of one whose flush failed, are there for the next one.\<close>

lemma dir_holds_packs:
  assumes inv: "local_inv L V st" and fresh: "local_fresh st" and dir: "dir_complete st"
    and g: "\<forall>h \<in> fst ` kinds st. genuine L V h"
  shows "dir_holds L V (packs_kinds (ls_packs st)) (ls_dir st)"
proof -
  let ?st = "st\<lparr>ls_pending_chunks := []\<rparr>"
  have "kinds ?st = packs_kinds (ls_packs st)" by (simp add: kinds_def)
  moreover have "local_inv L V ?st" using inv by (auto simp: local_inv_def kinds_def)
  moreover have "local_fresh ?st" using fresh by (simp add: local_fresh_def)
  moreover have "dir_complete ?st" using dir dir_complete_cong [of ?st st] by simp
  ultimately show ?thesis using g unfolding dir_holds_def
    by (intro exI [of _ ?st]) (auto simp: kinds_def)
qed

lemma dir_holds_mono: "dir_holds L V H dir \<Longrightarrow> K \<subseteq> H \<Longrightarrow> dir_holds L V K dir"
  unfolding dir_holds_def by blast

text \<open>A file that is not taken for a pack makes no difference.\<close>

lemma dir_holds_tmp:
  assumes "dir_holds L V H dir"
  shows "dir_holds L V H (AList.update (tmp_name i) data dir)"
proof -
  from assms obtain st where st: "ls_dir st = dir" "local_inv L V st" "local_fresh st" "dir_complete st"
    "ls_pending_chunks st = []" "H \<subseteq> kinds st" "\<forall>h \<in> fst ` kinds st. genuine L V h"
    unfolding dir_holds_def by blast
  let ?st = "st\<lparr>ls_dir := AList.update (tmp_name i) data dir\<rparr>"
  have k: "kinds ?st = kinds st" by (simp add: kinds_def)
  have "local_inv L V ?st"
    using st(1,2) pack_good_other_dir [of L V dir] unfolding local_inv_def k
    by (fastforce simp: update_conv')
  moreover have "dir_complete ?st"
  proof -
    have names: "fst ` set (ls_dir ?st) = insert (tmp_name i) (fst ` set dir)" by (simp add: dom_update)
    have packs: "ls_packs ?st = ls_packs st" by simp
    have "distinct (map fst (ls_dir ?st))" using st(1,4) by (simp add: dir_complete_def distinct_update)
    moreover have "\<not> has_pack_extension (tmp_name i)" by simp
    ultimately show ?thesis
      using st(1,4) unfolding dir_complete_def names packs by blast
  qed
  moreover have "local_fresh ?st" using st(3) by (simp add: local_fresh_def)
  ultimately show ?thesis using st(5-7) k unfolding dir_holds_def by (intro exI [of _ ?st]) simp
qed

text \<open>What a failed flush leaves: as many bytes of the temporary file as there are, or the whole pack.\<close>

lemma flush_write_failed:
  assumes "flush_write L io chunks i dir = (Inl e, dir')"
  shows "dir' = dir \<or> (\<exists>data. dir' = AList.update (tmp_name i) data dir)
    \<or> (\<exists>p. write_pack L chunks = Inr p
        \<and> dir' = AList.update (pack_name i) p (AList.delete (tmp_name i) (AList.update (tmp_name i) p dir)))"
  using assms
  by (auto simp: flush_write_def Let_def split: if_splits sum.splits option.splits failure.splits)

lemma dir_holds_failed_flush:
  assumes inv: "local_inv L V st" and fresh: "local_fresh st" and dir: "dir_complete st"
    and g: "\<forall>h \<in> fst ` kinds st. genuine L V h" and ok: "libs_ok L"
    and fits: "flush_fits L (ls_pending_chunks st)" and ne: "ls_pending_chunks st \<noteq> []"
    and room: "ls_next_pack_id st + 1 \<noteq> 0" and run: "run_flush L io st = (Inl e, st')"
  shows "dir_holds L V (packs_kinds (ls_packs st)) (ls_dir st')"
proof -
  let ?i = "ls_next_pack_id st" and ?es = "map pack_entry_of (ls_pending_chunks st)"
  note packs = dir_holds_packs [OF inv fresh dir g]
  from run obtain dir' where w: "flush_write L io ?es ?i (ls_dir st) = (Inl e, dir')" "ls_dir st' = dir'"
    by (cases rule: run_flush_cases) auto
  from flush_write_failed [OF w(1)] consider "dir' = ls_dir st"
    | data where "dir' = AList.update (tmp_name ?i) data (ls_dir st)"
    | p where "write_pack L ?es = Inr p"
      "dir' = AList.update (pack_name ?i) p (AList.delete (tmp_name ?i) (AList.update (tmp_name ?i) p (ls_dir st)))"
    by blast
  then show ?thesis
  proof cases
    case 1 then show ?thesis using packs w(2) by simp
  next
    case 2 then show ?thesis using dir_holds_tmp [OF packs] w(2) by simp
  next
    case (3 p)
    have "\<forall>e \<in> set (ls_pending_chunks st). pending_good L V e" using inv by (simp add: local_inv_def)
    from flushed_pack_good [OF ok fits 3(1) this] obtain ies ck sb where
      "read_pack L p = Inr (ies, ck, sb)" by blast
    from flush_write_fine [OF 3(1) this] obtain m dir2 where
      f: "flush_write L io_fine ?es ?i (ls_dir st) = (Inr m, dir2)" by blast
    with flush_write_ok [OF f] ne 3 have "dir2 = dir'" by auto
    with f obtain st2 where st2: "run_flush L io_fine st = (Inr (), st2)" "ls_dir st2 = dir'"
      by (simp add: run_flush_def flush_prepare_def Let_def)
    have sp: "local_inv L V st2 \<and> local_fresh st2 \<and> kinds st2 = kinds st \<and> ls_pending_chunks st2 = []"
      using run_flush_spec [OF inv fresh ok fits ne room st2(1)] by simp
    then have "packs_kinds (ls_packs st2) = kinds st2" by (simp add: kinds_def)
    with dir_holds_packs [of L V st2] dir_complete_flush [OF dir ne st2(1)] sp g
    have "dir_holds L V (kinds st) dir'" by (simp add: st2(2))
    then show ?thesis using w(2) by (auto simp: kinds_def intro: dir_holds_mono)
  qed
qed

text \<open>A store that serves backups over a directory it knows completely, with \<open>H\<close> in its packs.\<close>

definition local_durable ::
    "libs \<Rightarrow> (hash \<Rightarrow> bytes) \<Rightarrow> (hash \<times> hash option) set \<Rightarrow> nat \<Rightarrow> local_store \<Rightarrow> bool" where
  "local_durable L V H n st \<longleftrightarrow> local_serving L V n st \<and> dir_complete st \<and> H \<subseteq> packs_kinds (ls_packs st)"

lemma durable_dir: "local_durable L V H n st \<Longrightarrow> dir_holds L V H (ls_dir st)"
  using dir_holds_packs [of L V st] dir_holds_mono
  by (auto simp: local_durable_def local_serving_def local_ready_def)

lemma durable_put:
  assumes d: "local_durable L V H (Suc n) st" and put: "put_entry L io ix st new = (Inr loc, st')"
    and s: "local_serving L V n st'"
  shows "local_durable L V H n st'"
  using assms dir_complete_put_entry [OF _ put] packs_kinds_put_entry [OF _ put]
  by (auto simp: local_durable_def local_serving_def local_ready_def)

lemma durable_flush:
  assumes d: "local_durable L V H (Suc n) st" and fl: "local_flush L io st = (Inr (), st')"
  shows "local_durable L V H n st' \<and> local_settled st' \<and> kinds st' = kinds st"
proof -
  have sv: "local_serving L V (Suc n) st" "dir_complete st" "H \<subseteq> packs_kinds (ls_packs st)" "local_fresh st"
    using d by (simp_all add: local_durable_def local_serving_def local_ready_def)
  have f: "local_serving L V n st' \<and> local_settled st' \<and> kinds st' = kinds st"
    using local_contract.flush_ok [OF sv(1), of io st'] fl by (simp add: local_ops_def)
  moreover have "packs_kinds (ls_packs st) \<subseteq> packs_kinds (ls_packs st')"
    using fl packs_kinds_flush [OF sv(4)] by (auto simp: local_flush_def split: if_splits)
  ultimately show ?thesis
    using sv(3) dir_complete_local_flush [OF sv(2) fl] by (auto simp: local_durable_def)
qed

lemma durable_put_fails:
  assumes d: "local_durable L V H (Suc n) st" and ix: "ix (pd_hash new) = None"
    and new: "\<forall>k. (pd_hash new, k) \<notin> kinds st" and g: "genuine L V (pd_hash new)"
    and good: "pending_good L V new" and small: "length (pd_data new) \<le> 2 ^ 20"
    and base: "\<forall>b. base_of (pd_entry_type new) = Some b \<longrightarrow> (b, None) \<in> kinds st"
    and put: "put_entry L io ix st new = (Inl e, st')"
  shows "dir_holds L V H (ls_dir st')"
proof -
  let ?st = "append_entry st new"
  have sv: "local_serving L V (Suc n) st" "dir_complete st" "H \<subseteq> packs_kinds (ls_packs ?st)"
    using d by (simp_all add: local_durable_def)
  then have rdy: "local_inv L V st" "local_fresh ?st" "local_sizes st" "libs_ok L" "packs_fit L"
    "unat (ls_next_pack_id st) + Suc n < 2 ^ 32"
    by (simp_all add: local_serving_def local_ready_def)
  have ap: "appends ix st (pd_hash new)" by (rule new_appends) (use new ix in simp_all)
  with put have run: "run_flush L io ?st = (Inl e, st')"
    by (auto simp: put_entry_cases Let_def split: if_splits prod.splits sum.splits)
  have k: "kinds_ok (insert (pd_hash new, base_of (pd_entry_type new)) (kinds st))"
    using serving_kinds [OF sv(1)] new base kinds_ok_insert_full kinds_ok_insert_delta
    by (cases "base_of (pd_entry_type new)") auto
  have inv: "local_inv L V ?st"
    by (rule append_entry_inv [OF rdy(1) good _ k]) (use g in \<open>simp add: genuine_def\<close>)
  have fits: "flush_fits L (ls_pending_chunks ?st)"
    using packs_fit_flush [OF rdy(5)] append_sizes [OF rdy(3) small] by (simp add: pending_bytes_def)
  have "dir_complete ?st" using sv(2) dir_complete_cong [of ?st st] by simp
  moreover have "\<forall>h \<in> fst ` kinds ?st. genuine L V h" using sv(1) g by (auto simp: local_serving_def)
  moreover have "ls_next_pack_id ?st + 1 \<noteq> 0" using room_next [OF rdy(6)] by simp
  ultimately show ?thesis
    using dir_holds_mono [OF dir_holds_failed_flush [OF inv rdy(2) _ _ rdy(4) fits _ _ run] sv(3)] by simp
qed

lemma durable_flush_fails:
  assumes d: "local_durable L V H (Suc n) st" and fl: "local_flush L io st = (Inl e, st')"
  shows "dir_holds L V H (ls_dir st')"
proof -
  have sv: "local_serving L V (Suc n) st" "dir_complete st" "H \<subseteq> packs_kinds (ls_packs st)"
    using d by (simp_all add: local_durable_def)
  then have rdy: "local_inv L V st" "local_fresh st" "local_sizes st" "libs_ok L" "packs_fit L"
    "unat (ls_next_pack_id st) + Suc n < 2 ^ 32" "\<forall>h \<in> fst ` kinds st. genuine L V h"
    by (simp_all add: local_serving_def local_ready_def)
  have fits: "flush_fits L (ls_pending_chunks st)"
    by (rule packs_fit_flush [OF rdy(5)]) (use rdy(3) in \<open>simp add: local_sizes_def pending_bytes_def\<close>)
  have ne: "ls_pending_chunks st \<noteq> []" and run: "run_flush L io st = (Inl e, st')"
    using fl by (auto simp: local_flush_def split: if_splits)
  have "ls_next_pack_id st + 1 \<noteq> 0" using room_next [OF rdy(6)] by simp
  from dir_holds_mono [OF dir_holds_failed_flush [OF rdy(1,2) sv(2) rdy(7,4) fits ne this run] sv(3)]
  show ?thesis .
qed

text \<open>The ids for \<open>m\<close> packs more than the contract asks for are left in the end.\<close>

interpretation crash_contract: crash_store_contract "local_ops L io" L V kinds
    "\<lambda>n. local_durable L V H (n + m)" local_settled "\<lambda>st. dir_holds L V H (ls_dir st)"
  for L io V H m
proof (unfold_locales, goal_cases)
  case (1 n s) then show ?case by (auto simp: local_durable_def intro: local_contract.held_ok)
next
  case (2 n s) then show ?case by (auto simp: local_durable_def intro: local_contract.ready_mono)
next
  case (3 n s h k) then show ?case by (auto simp: local_durable_def intro: local_contract.held_genuine)
next
  case (4 n s ix h loc d) then show ?case by (auto simp: local_durable_def intro: local_contract.put_known)
next
  case (5 n s ix h loc b d l) then show ?case by (auto simp: local_durable_def intro: local_contract.put_delta_known)
next
  case (6 n s ix h loc s')
  then show ?case
    using local_contract.put_new [of L V "n + m" s ix h io loc s']
    by (simp add: local_ops_def local_put_def local_durable_def [of L V H "Suc (n + m)"])
      (metis durable_put local_durable_def)
next
  case (7 n s ix h b d l loc s')
  then show ?case
    using local_contract.put_delta_new [of L V "n + m" s ix h b d l io loc s']
    by (simp add: local_ops_def local_put_delta_def local_durable_def [of L V H "Suc (n + m)"])
      (metis durable_put local_durable_def)
next
  case (8 n s h sg r s')
  then show ?case
    using sign_ready [of L V "n + m" s h sg r s'] dir_complete_sign [of L V s h sg r s']
    by (auto simp: local_ops_def local_serving_def local_ready_def local_durable_def)
next
  case (9 n s h ix got s') then show ?case by (auto simp: local_ops_def serving_get_full local_durable_def)
next
  case (10 n s h k ix got s') then show ?case by (auto simp: local_ops_def serving_get_settled local_durable_def)
next
  case (11 n s s')
  then show ?case
    using durable_flush [of L V H "n + m" s io s'] by (simp add: local_ops_def)
next
  case (12 n s) then show ?case by (rule durable_dir)
next
  case (13 n s ix h e s')
  then show ?case
    using durable_put_fails [of L V H "n + m" s ix "\<lparr>pd_hash = h, pd_data = V h, pd_orig_length = of_nat (length (V h)),
      pd_entry_type = Full, pd_signature = None\<rparr>" io e s']
    by (simp add: local_ops_def local_put_def pending_good_def base_of_def)
next
  case (14 n s ix h b d l e s')
  then show ?case
    using durable_put_fails [of L V H "n + m" s ix "\<lparr>pd_hash = h, pd_data = d, pd_orig_length = l,
      pd_entry_type = Delta b, pd_signature = None\<rparr>" io e s']
    by (simp add: local_ops_def local_put_delta_def pending_good_def base_of_def)
next
  case (15 n s e s') then show ?case using durable_flush_fails by (simp add: local_ops_def)
qed

section \<open>Backups that may stop anywhere\<close>

text \<open>
  A step of a backup during which the file system behaves in any way: each flush may have its own
  outcome. The state of the directory when a process is killed inside a flush is that of a flush that
  ends there with an error.
\<close>

inductive any_io_step :: "libs \<Rightarrow> local_store env \<Rightarrow> local_store system \<Rightarrow> local_store system \<Rightarrow> bool"
  for L :: libs and env :: "local_store env" where
  any_io: "step (env\<lparr>en_ops := local_ops L io\<rparr>) sy sy' \<Longrightarrow> any_io_step L env sy sy'"

lemma step_any_io: "en_ops env = local_ops L io \<Longrightarrow> step env sy sy' \<Longrightarrow> any_io_step L env sy sy'"
  using any_io [where env = env and L = L and io = io and sy = sy and sy' = sy'] by (cases env) simp

lemma interrupted_dir:
  assumes env: "en_libs env = L" and Z: "zstd_ok (lib_zstd L)" "zstd_bounded (lib_zstd L)"
    and dur: "local_durable L V H (length items + 1) st" and dom: "dom ix = fst ` kinds st"
    and items: "items_ok L V items"
    and stage: "case stage of None \<Rightarrow> True | Some sm \<Rightarrow> stage_ok sm \<and> stage_roomy (length items) sm \<and> stage_live sm = {}"
    and run: "(any_io_step L env)\<^sup>*\<^sup>* (system_init len items stage ix st) sy"
  shows "dir_holds L V H (ls_dir (w_store (sy_writer sy)))"
proof -
  let ?inv = "crash_contract.crash_inv L V H 0 env items"
  have dur0: "local_durable L V H (length items + 1 + 0) st" using dur by simp
  from run have "?inv sy"
  proof (induction rule: rtranclp_induct)
    case base
    show ?case
      by (rule crash_contract.crash_inv_init) (rule crash_contract.sys_inv_init [OF dur0 dom items stage])
  next
    case (step sy1 sy2)
    from step.hyps(2) obtain io where st: "step (env\<lparr>en_ops := local_ops L io\<rparr>) sy1 sy2"
      by (auto simp: any_io_step.simps)
    let ?env = "env\<lparr>en_ops := local_ops L io\<rparr>"
    have e: "en_ops ?env = local_ops L io" "en_libs ?env = L" "en_xxh3 ?env = en_xxh3 env" using env by simp_all
    have "crash_contract.crash_inv L V H 0 ?env items sy1"
      unfolding crash_contract.crash_inv_env [OF e(3)] by (rule step.IH)
    from crash_contract.crash_inv_step [OF e(1,2) Z st this]
    show ?case unfolding crash_contract.crash_inv_env [OF e(3)] .
  qed
  then show ?thesis by (rule crash_contract.crash_inv_survives)
qed

end
