(* ===== verification/Store_Backup.thy ===== *)
theory Store_Backup
  imports Store_Api Crash_Safety
begin

text \<open>
  What the interface of the library promises: a backup that is read back by a store opened later,
  verification, deletion, the limits of the chunk size, and the places where names, times and paths
  are trusted too much.
\<close>

section \<open>A store opened on the directory\<close>

lemma populate_ok:
  "\<exists>index. populate_index keyed st (hi_new 1000000) = Inr index
    \<and> dom (index_lookup keyed index) = fst ` set (index_entries st)"
proof -
  have wf: "hi_wf keyed (hi_new 1000000)" by (rule hi_new_wf) simp_all
  obtain index where ix: "populate_index keyed st (hi_new 1000000) = Inr index" "hi_wf keyed index"
    "hi_map index = map_of (rev (index_entries st))"
    using hash_index.insert_all_ok [OF wf, of "index_entries st"]
    by (auto simp: populate_index_def hi_new_def)
  have "index_lookup keyed index = hi_map index"
    by (simp add: fun_eq_iff index_lookup_def hash_index.lookup_abs [OF ix(2)])
  then show ?thesis using ix(1) by (simp add: ix(3) dom_map_of_conv_image_fst)
qed

lemma populate_kinds: "ls_pending_chunks st = [] \<Longrightarrow> fst ` set (index_entries st) = fst ` kinds st"
  by (force simp: index_entries_def kinds_def packs_kinds_def pack_kinds_def)

lemma reopened:
  assumes "dir_holds L V H dir"
  shows "\<exists>lo st2. local_open L (Some dir) = Inr lo \<and> local_inv L V lo \<and> dir_complete lo \<and> ls_dir lo = dir
    \<and> ls_pending_chunks lo = [] \<and> H \<subseteq> kinds lo \<and> (\<forall>h \<in> fst ` kinds lo. genuine L V h)
    \<and> store_open_local L keyed path (Some dir) manifests = Inr st2 \<and> is_local st2
    \<and> sr_manifests st2 = manifests \<and> sr_store st2 = local_set_index lo
    \<and> dom (sr_index st2) = fst ` kinds (sr_store st2)"
proof -
  from assms obtain st where st: "ls_dir st = dir" "local_inv L V st" "local_fresh st" "dir_complete st"
    "ls_pending_chunks st = []" "H \<subseteq> kinds st" "\<forall>h \<in> fst ` kinds st. genuine L V h"
    unfolding dir_holds_def by blast
  have k: "kinds st = packs_kinds (ls_packs st)" using st(5) by (simp add: kinds_def)
  from reopen_spec [OF st(2-4)] st(1) obtain lo where lo: "local_open L (Some dir) = Inr lo" "local_inv L V lo"
    "kinds lo = kinds st" "ls_pending_chunks lo = []" "ls_dir lo = dir" "set (ls_packs lo) = set (ls_packs st)"
    by (auto simp: k)
  obtain index where ix: "populate_index keyed lo (hi_new 1000000) = Inr index"
    "dom (index_lookup keyed index) = fst ` set (index_entries lo)"
    using populate_ok by blast
  have "dir_complete lo = dir_complete st" unfolding dir_complete_def st(1) lo(5,6) ..
  with st(4) have "dir_complete lo" by simp
  moreover have "kinds (local_set_index lo) = kinds lo" by (simp add: local_set_index_def kinds_def)
  ultimately show ?thesis
    using lo ix st(6,7) populate_kinds [OF lo(4)]
    by (simp add: store_open_local_def is_local_def)
qed

lemma reopened_holds:
  assumes "dir_holds L V H dir"
  shows "\<exists>st2. store_open_local L keyed path (Some dir) manifests = Inr st2
    \<and> is_local st2 \<and> sr_manifests st2 = manifests
    \<and> (\<forall>(h, k) \<in> H. local_get L (sr_index st2) (sr_store st2) h = Inr (V h))"
proof -
  from reopened [OF assms, of keyed path manifests] obtain lo st2 where
    lo: "local_inv L V lo" "ls_pending_chunks lo = []" "H \<subseteq> kinds lo" "\<forall>h \<in> fst ` kinds lo. genuine L V h"
    and st2: "store_open_local L keyed path (Some dir) manifests = Inr st2" "is_local st2"
      "sr_manifests st2 = manifests" "sr_store st2 = local_set_index lo" by blast
  let ?lo = "local_set_index lo"
  have same: "kinds ?lo = kinds lo" "local_inv L V ?lo" "ls_pending_chunks ?lo = []"
    using lo(1,2) by (simp_all add: local_set_index_def kinds_def pending_kinds_def local_inv_def)
  have sound: "ix_sound L V ?lo ix" for ix
    by (rule genuine_ix_sound) (use lo(4) same in simp)
  have "local_get L ix ?lo h = Inr (V h)" if "(h, k) \<in> H" for ix h k
    using get_inner_full [OF same(2) sound, of h 0] get_inner_delta [OF same(2) sound, of h _ 0] that lo(3) same(1,3)
    by (cases k) (auto simp: local_get_def)
  with st2 show ?thesis by auto
qed

lemma reopened_reads:
  assumes serving: "local_serving L V n st" and dir: "dir_complete st" and settled: "local_settled st"
  shows "\<exists>st2. store_open_local L keyed path (Some (ls_dir st)) manifests = Inr st2
    \<and> is_local st2 \<and> sr_manifests st2 = manifests
    \<and> (\<forall>(h, k) \<in> kinds st. local_get L (sr_index st2) (sr_store st2) h = Inr (V h))"
proof (rule reopened_holds)
  have "packs_kinds (ls_packs st) = kinds st"
    using settled by (simp add: local_settled_def kinds_def)
  with dir_holds_packs [of L V st] serving dir show "dir_holds L V (kinds st) (ls_dir st)"
    by (simp add: local_serving_def local_ready_def)
qed

section \<open>Restoring one file\<close>

lemma from_hex_of_hash: "wf_hash h \<Longrightarrow> from_hex (to_hex h) = Inr h"
  by (cases h) (simp add: from_hex_def to_hex_def hex_decode_def wf_hash_def codec_simps)

lemma read_chunks_ok:
  assumes get: "\<And>h s. h \<in> set hs \<Longrightarrow> cs_get S (sr_index st) (sr_store st) h = (Inr (V h), sr_store st)"
    and wf: "\<forall>h \<in> set hs. wf_hash h"
  shows "read_chunks S st (map to_hex hs) acc = (Inr (acc @ concat (map V hs)), st)"
  using assms
  by (induction hs arbitrary: acc)
    (simp_all add: from_hex_of_hash store_get_def)

lemma restore_one:
  assumes "read_manifest_entry io st name = Inr (Some entry)" and "restore_path dest name entry = Inr p"
    and "read_chunks S st (me_chunk_hashes entry) [] = (Inr data, st')"
    and "so_out_mkdir io" and "so_out_write io p = Written"
    and "case parse_uint (2 ^ 64) (me_modified entry) of None \<Rightarrow> True | Some secs \<Rightarrow> secs < 2 ^ 63"
  shows "\<exists>out'. restore S io dest (Some name) (st, out) = (Inr (), st', out')
    \<and> rs_files out' = AList.update p data (rs_files out)"
  using assms
  by (auto simp: restore_def chosen_names_def restore_entry_def on_out_def write_out_def restore_mtime_def
      split: option.splits)

text \<open>\<^verbatim>\<open>serde_json\<close> reads back what it wrote.\<close>

definition manifest_codec_ok :: "store_io \<Rightarrow> bool" where
  "manifest_codec_ok io \<longleftrightarrow> (\<forall>e bs. so_ser io e = Some bs \<longrightarrow> so_de io bs = Some e)"

lemma read_written:
  assumes "manifest_codec_ok io" and "so_read io name"
    and "write_manifest_entry io st name entry = (Inr (), st')" and "is_local st"
  shows "read_manifest_entry io st' name = Inr (Some entry) \<and> sr_store st' = sr_store st
    \<and> sr_index st' = sr_index st \<and> is_local st'"
  using assms
  by (auto simp: manifest_codec_ok_def write_manifest_entry_def read_manifest_entry_def res_simps is_local_def manifest_files_def
      update_conv' Let_def split: if_splits write_outcome.splits)

section \<open>Backing up one file\<close>

lemma backup_stored:
  assumes "backup env io schedule st source opts = Some (Inr stats, st1)"
    and "bo_force opts \<or> is_file_unchanged io st source (manifest_name (sf_path source)) = Inr False"
  obtains s ix meta where
    "backup_file env schedule (pipeline_new (default_pipeline_config
       \<lparr>pc_chunk_config := chunk_config_of opts, pc_similarity_config := similarity_of opts\<rparr>))
       (sr_store st) (sr_index st) source = Some (Inr stats, s, ix)"
    "sf_after source = Some meta"
    "write_manifest_entry io (st\<lparr>sr_store := s, sr_index := ix\<rparr>) (manifest_name (sf_path source))
       (entry_of (manifest_name (sf_path source)) meta stats) = (Inr (), st1)"
proof -
  have "(if bo_force opts then Inr False
         else is_file_unchanged io st source (manifest_name (sf_path source))) = Inr False"
    using assms(2) by auto
  with assms(1) show thesis
    by (auto simp: backup_def Let_def res_simps split: if_splits intro: that)
qed

lemma backup_file_run:
  assumes "backup_file env schedule pl s ix source = Some (Inr stats, s', ix')"
  obtains len sy where
    "(step (env\<lparr>en_level := pc_compression_level (bp_config pl)\<rparr>))\<^sup>*\<^sup>*
       (system_init len (sf_items source (pc_chunk_config (bp_config pl))) (bp_similarity pl) ix s) sy"
    "sy_result sy = Some (Inr stats)" "s' = w_store (sy_writer sy)" "ix' = w_index (sy_writer sy)"
  using assms
  by (auto simp: backup_file_def bind_eq_Some_conv split: option.splits if_splits
      dest!: run_schedule_steps intro: that)

text \<open>The similarity stage that a backup makes has room for a quarter of a million chunks.\<close>

lemma similarity_roomy:
  assumes "n \<le> 250000"
  shows "case map_option stage_new (similarity_of opts) of None \<Rightarrow> True
    | Some sm \<Rightarrow> stage_ok sm \<and> stage_roomy n sm \<and> stage_live sm = {}"
  using assms stage_new_ok [of n]
  by (auto simp: similarity_of_def default_similarity_config_def NUM_SHARDS_def)

context content_store_contract
begin

lemma backup_file_correct:
  assumes env: "en_ops env = S" "en_libs env = L" and Z: "zstd_ok (lib_zstd L)" "zstd_bounded (lib_zstd L)"
    and items: "items = sf_items source (pc_chunk_config (bp_config pl))" "items_ok L V items"
    and ready: "ready (length items + 1) s" and dom: "dom ix = fst ` held s"
    and stage: "case bp_similarity pl of None \<Rightarrow> True
      | Some sm \<Rightarrow> stage_ok sm \<and> stage_roomy (length items) sm \<and> stage_live sm = {}"
    and run: "backup_file env schedule pl s ix source = Some (Inr stats, s', ix')"
  shows "settled s' \<and> ready 0 s' \<and> dom ix' = fst ` held s' \<and> set (bs_chunk_hashes stats) \<subseteq> fst ` held s'
    \<and> concat (map V (bs_chunk_hashes stats)) = concat (map item_data items)"
proof -
  let ?env = "env\<lparr>en_level := pc_compression_level (bp_config pl)\<rparr>"
  from run obtain len sy where sy: "(step ?env)\<^sup>*\<^sup>* (system_init len items (bp_similarity pl) ix s) sy"
    "sy_result sy = Some (Inr stats)" "s' = w_store (sy_writer sy)" "ix' = w_index (sy_writer sy)"
    unfolding items(1) by (rule backup_file_run)
  have inv: "sys_inv ?env items (system_init len items (bp_similarity pl) ix s)"
    by (rule sys_inv_init [OF ready dom items(2) stage])
  have e: "en_ops ?env = S" "en_libs ?env = L" using env by simp_all
  note rc = run_correct [OF e Z sy(1) inv sy(2), folded sy(3)]
  have n: "ready 0 s'" "dom ix' = fst ` held s'" using rc sy(3,4) by (simp_all add: writer_inv_def)
  have "map (\<lambda>h. fst (cs_get S ix s' h)) (bs_chunk_hashes stats) = map (Inr \<circ> V) (bs_chunk_hashes stats)"
  proof (rule map_cong)
    fix h assume "h \<in> set (bs_chunk_hashes stats)"
    with rc obtain k where "(h, k) \<in> held s'" by force
    from get_settled [OF n(1) _ this, of ix] rc show "fst (cs_get S ix s' h) = (Inr \<circ> V) h"
      by (cases "cs_get S ix s' h") auto
  qed simp
  moreover have "map (\<lambda>h. fst (cs_get S ix s' h)) (bs_chunk_hashes stats) = map (Inr \<circ> item_data) items"
    using rc by blast
  ultimately have "map (Inr :: _ \<Rightarrow> failure + _) (map V (bs_chunk_hashes stats)) = map Inr (map item_data items)"
    by (simp only: map_map)
  then have "map V (bs_chunk_hashes stats) = map item_data items"
    by (rule map_injective) (rule inj_Inr)
  with rc n show ?thesis by metis
qed

end

lemma genuine_wf: "libs_ok L \<Longrightarrow> genuine L V h \<Longrightarrow> wf_hash h"
  unfolding genuine_def libs_ok_def wf_hash_def by (metis hash_bytes.simps)

lemma restore_path_named:
  assumes "me_path entry = name" and "CHR ''/'' \<notin> set name"
  shows "restore_path dest name entry = Inr (path_join dest name)"
proof -
  have "name = [] \<or> hd name \<noteq> CHR ''/''" using assms(2) by (cases name) auto
  from join_starts_with [OF this] show ?thesis by (simp add: restore_path_def assms(1) Let_def)
qed

lemma show_secs_ok:
  "t < 2 ^ 63 \<Longrightarrow> parse_uint (2 ^ 64) (show_secs t) = Some (unat t) \<and> unat t < 2 ^ 63"
proof -
  assume "t < 2 ^ 63"
  then have "unat t < 2 ^ 63" by (simp add: word_less_nat_alt)
  then show ?thesis by (simp add: show_secs_def parse_uint_show)
qed

text \<open>Reading the chunks a manifest names from a store that returns all of them.\<close>

lemma reads_back:
  assumes "local_serving L V n s" and "set hs \<subseteq> fst ` kinds s"
    and "\<forall>(h, k) \<in> kinds s. local_get L (sr_index st) (sr_store st) h = Inr (V h)"
  shows "read_chunks (local_ops L pio) st (map to_hex hs) [] = (Inr (concat (map V hs)), st)"
proof -
  have "wf_hash h" if "h \<in> set hs" for h
    using that assms(1,2) genuine_wf [of L V h] by (auto simp: local_serving_def)
  moreover have "cs_get (local_ops L pio) (sr_index st) (sr_store st) h = (Inr (V h), sr_store st)"
    if "h \<in> set hs" for h
    using that assms(2,3) by (fastforce simp: local_ops_def)
  ultimately show ?thesis using read_chunks_ok [of hs "local_ops L pio" st V "[]"] by simp
qed

text \<open>What a backup to a local store leaves.\<close>

lemma backup_leaves_store:
  assumes "en_ops env = local_ops L pio" and "en_libs env = L"
    and "zstd_ok (lib_zstd L)" and "zstd_bounded (lib_zstd L)"
    and "dom (sr_index st) = fst ` kinds (sr_store st)"
    and "local_durable L V H (length items + 1 + m) (sr_store st)"
    and "items = sf_items source (chunk_config_of opts)" and "items_ok L V items" and "length items \<le> 250000"
    and "bo_force opts \<or> is_file_unchanged io st source (manifest_name (sf_path source)) = Inr False"
    and "backup env io schedule st source opts = Some (Inr stats, st1)"
    and "name = manifest_name (sf_path source)"
  obtains s ix meta where "local_settled s" "local_durable L V H m s"
    "set (bs_chunk_hashes stats) \<subseteq> fst ` kinds s" "dom ix = fst ` kinds s"
    "concat (map V (bs_chunk_hashes stats)) = concat (map item_data items)" "sf_after source = Some meta"
    "write_manifest_entry io (st\<lparr>sr_store := s, sr_index := ix\<rparr>) name (entry_of name meta stats) = (Inr (), st1)"
proof -
  let ?pl = "pipeline_new (default_pipeline_config
       \<lparr>pc_chunk_config := chunk_config_of opts, pc_similarity_config := similarity_of opts\<rparr>)"
  from backup_stored [OF assms(11,10)] obtain s ix meta where
    run: "backup_file env schedule ?pl (sr_store st) (sr_index st) source = Some (Inr stats, s, ix)"
    and meta: "sf_after source = Some meta"
    and wr: "write_manifest_entry io (st\<lparr>sr_store := s, sr_index := ix\<rparr>) name (entry_of name meta stats)
       = (Inr (), st1)"
    unfolding assms(12) .
  have pl: "items = sf_items source (pc_chunk_config (bp_config ?pl))"
    "bp_similarity ?pl = map_option stage_new (similarity_of opts)"
    by (simp_all add: pipeline_new_def assms(7))
  from crash_contract.backup_file_correct [OF assms(1-4) pl(1) assms(8,6,5) _ run] similarity_roomy [OF assms(9)]
  show thesis using meta wr unfolding pl(2) by (intro that [of s ix meta]) auto
qed

lemma backup_leaves:
  assumes "en_ops env = local_ops L pio" and "en_libs env = L"
    and "zstd_ok (lib_zstd L)" and "zstd_bounded (lib_zstd L)" and "manifest_codec_ok io"
    and "is_local st" and "dom (sr_index st) = fst ` kinds (sr_store st)"
    and "local_serving L V (length items + 1) (sr_store st)" and "dir_complete (sr_store st)"
    and "items = sf_items source (chunk_config_of opts)" and "items_ok L V items" and "length items \<le> 250000"
    and "bo_force opts \<or> is_file_unchanged io st source (manifest_name (sf_path source)) = Inr False"
    and "backup env io schedule st source opts = Some (Inr stats, st1)"
    and "name = manifest_name (sf_path source)" and "so_read io name"
  obtains meta where "local_settled (sr_store st1)" "local_serving L V 0 (sr_store st1)" "dir_complete (sr_store st1)"
    "set (bs_chunk_hashes stats) \<subseteq> fst ` kinds (sr_store st1)"
    "concat (map V (bs_chunk_hashes stats)) = concat (map item_data items)"
    "sf_after source = Some meta" "read_manifest_entry io st1 name = Inr (Some (entry_of name meta stats))" "is_local st1"
proof -
  have dur: "local_durable L V {} (length items + 1 + 0) (sr_store st)" using assms(8,9) by (simp add: local_durable_def)
  from backup_leaves_store [OF assms(1-4,7) dur assms(10-15)] obtain s ix meta where
    ok: "local_settled s" "local_durable L V {} 0 s" "set (bs_chunk_hashes stats) \<subseteq> fst ` kinds s"
      "concat (map V (bs_chunk_hashes stats)) = concat (map item_data items)" "sf_after source = Some meta"
    and wr: "write_manifest_entry io (st\<lparr>sr_store := s, sr_index := ix\<rparr>) name (entry_of name meta stats) = (Inr (), st1)" .
  have loc: "is_local (st\<lparr>sr_store := s, sr_index := ix\<rparr>)" using assms(6) by (simp add: is_local_def)
  from read_written [OF assms(5,16) wr loc]
  have "read_manifest_entry io st1 name = Inr (Some (entry_of name meta stats))" "sr_store st1 = s" "is_local st1"
    by auto
  with ok show thesis by (intro that [of meta]) (simp_all add: local_durable_def)
qed

section \<open>Verification and deletion\<close>

definition chunk_verifies :: "libs \<Rightarrow> local_store store \<Rightarrow> string \<Rightarrow> bool" where
  "chunk_verifies L st x \<longleftrightarrow> (\<exists>h d. from_hex x = Inr h
     \<and> local_get L (sr_index st) (sr_store st) h = Inr d \<and> Hash (lib_blake3 L d) = h)"

lemma store_get_local [simp]:
  "store_get (local_ops L pio) st h = (local_get L (sr_index st) (sr_store st) h, st)"
  by (simp add: store_get_def local_ops_def)

lemma verify_chunks_exact:
  "verify_chunks (local_ops L pio) L name xs rep st = (Inr rep', st')
    \<Longrightarrow> st' = st \<and> (vr_errors rep' = [] \<longleftrightarrow> vr_errors rep = [] \<and> (\<forall>x \<in> set xs. chunk_verifies L st x))"
proof (induction xs arbitrary: rep)
  case (Cons x xs)
  show ?case
  proof (cases "from_hex x")
    case (Inl e)
    with Cons.prems Cons.IH show ?thesis by (fastforce simp: chunk_verifies_def)
  next
    case (Inr h)
    show ?thesis
    proof (cases "local_get L (sr_index st) (sr_store st) h")
      case (Inl f)
      with Inr Cons.prems Cons.IH show ?thesis
        by (cases f) (fastforce simp: chunk_verifies_def Let_def)+
    next
      case got: (Inr d)
      with Inr have c: "chunk_verifies L st x \<longleftrightarrow> Hash (lib_blake3 L d) = h" by (auto simp: chunk_verifies_def)
      from Inr got Cons.prems Cons.IH [of "if Hash (lib_blake3 L d) \<noteq> h
          then rep\<lparr>vr_chunks_checked := vr_chunks_checked rep + 1,
            vr_errors := vr_errors rep @ [name @ '': chunk '' @ x @ '' checksum mismatch'']\<rparr>
          else rep\<lparr>vr_chunks_checked := vr_chunks_checked rep + 1\<rparr>"]
      show ?thesis by (auto simp: Let_def c split: if_splits)
    qed
  qed
qed simp

lemma verify_files_exact:
  "verify_files (local_ops L pio) L io names rep st = (Inr rep', st')
    \<Longrightarrow> st' = st \<and> (vr_errors rep' = [] \<longleftrightarrow> vr_errors rep = []
      \<and> (\<forall>name \<in> set names. \<exists>entry. read_manifest_entry io st name = Inr (Some entry)
          \<and> (\<forall>x \<in> set (me_chunk_hashes entry). chunk_verifies L st x)))"
proof (induction names arbitrary: rep)
  case (Cons name names)
  from Cons.prems obtain found where m: "read_manifest_entry io st name = Inr found"
    by (auto simp: res_simps)
  show ?case
  proof (cases found)
    case None
    with m Cons.prems Cons.IH show ?thesis by fastforce
  next
    case (Some entry)
    with m Cons.prems obtain rep1 st1 where
      c: "verify_chunks (local_ops L pio) L name (me_chunk_hashes entry)
          (rep\<lparr>vr_files_checked := vr_files_checked rep + 1\<rparr>) st = (Inr rep1, st1)"
      and r: "verify_files (local_ops L pio) L io names rep1 st1 = (Inr rep', st')"
      by (auto simp: res_simps)
    from verify_chunks_exact [OF c] r Cons.IH [of rep1] m Some show ?thesis by auto
  qed
qed simp

lemma read_deleted:
  assumes "delete_manifest_entry io st name = (r, st')" and "so_remove io" and "has_file io st name = Inr True"
  shows "r = Inr () \<and> has_file io st' name = Inr False \<and> sr_store st' = sr_store st
    \<and> (\<forall>other. other \<noteq> name \<longrightarrow> read_manifest_entry io st' other = read_manifest_entry io st other)"
proof -
  have f: "manifest_file other = manifest_file name \<longleftrightarrow> other = name" for other
    by (simp add: manifest_file_def)
  show ?thesis
    using assms
    by (auto simp: delete_manifest_entry_def has_file_def read_manifest_entry_def res_simps is_local_def
        manifest_files_def delete_conv' f Let_def split: if_splits option.splits store_config.splits)
qed

section \<open>The chunk size\<close>

lemma double_word:
  fixes cs :: usize
  shows "unat (cs * 2) = (unat cs * 2) mod 2 ^ 64" "unat (cs * 4) = (unat cs * 4) mod 2 ^ 64"
    "unat (max (cs div 2) 64 * 2) = max (unat cs div 2) 64 * 2"
proof -
  show "unat (cs * 2) = (unat cs * 2) mod 2 ^ 64" "unat (cs * 4) = (unat cs * 4) mod 2 ^ 64"
    by (simp_all add: unat_word_ariths)
  have "unat (max (cs div 2) 64) = max (unat cs div 2) 64"
    by (simp add: max_def word_le_nat_alt unat_div)
  moreover have "unat cs < 2 ^ 64" using unsigned_less [of cs] by simp
  ultimately show "unat (max (cs div 2) 64 * 2) = max (unat cs div 2) 64 * 2"
    by (simp add: unat_word_ariths max_def)
qed

lemma valid_sizes:
  fixes n :: nat
  assumes "n < 2 ^ 64"
  shows "max (n div 2) 64 * 2 \<le> n \<and> (n * 2) mod 2 ^ 64 \<le> min ((n * 4) mod 2 ^ 64) 1048576
    \<longleftrightarrow> 128 \<le> n \<and> n \<le> 524288 \<or> 2 ^ 63 \<le> n \<and> n \<le> 2 ^ 63 + 524288"
proof -
  consider "n < 2 ^ 62" | "2 ^ 62 \<le> n" "n < 2 ^ 63" | k where "n = 2 ^ 63 + k" "k < 2 ^ 63"
  proof -
    assume a: "n < 2 ^ 62 \<Longrightarrow> thesis" "2 ^ 62 \<le> n \<Longrightarrow> n < 2 ^ 63 \<Longrightarrow> thesis"
      "\<And>k. n = 2 ^ 63 + k \<Longrightarrow> k < 2 ^ 63 \<Longrightarrow> thesis"
    show thesis using a(1,2) a(3) [of "n - 2 ^ 63"] assms by (cases "n < 2 ^ 63"; cases "n < 2 ^ 62") auto
  qed
  then show ?thesis
  proof cases
    case 1 then show ?thesis by auto
  next
    case 2 then show ?thesis by auto
  next
    case (3 k)
    have n: "n * 2 = 1 * 2 ^ 64 + k * 2" "n * 4 = 2 * 2 ^ 64 + k * 4" using 3 by simp_all
    have "(n * 2) mod 2 ^ 64 = (k * 2) mod 2 ^ 64" "(n * 4) mod 2 ^ 64 = (k * 4) mod 2 ^ 64"
      unfolding n by (rule mod_mult_self3)+
    moreover have "(k * 2) mod 2 ^ 64 = k * 2" using 3(2) by simp
    ultimately have "(n * 2) mod 2 ^ 64 = k * 2" "(n * 4) mod 2 ^ 64 = (k * 4) mod 2 ^ 64"
      by simp_all
    then show ?thesis using 3 by (cases "k \<le> 524288") auto
  qed
qed

section \<open>A concrete store and file\<close>

text \<open>The file \<^verbatim>\<open>a/f\<close>, of one chunk, in a new store; and a codec that knows its manifest.\<close>

definition demo_meta :: file_meta where
  "demo_meta = \<lparr>fm_len = 3, fm_modified = Some 7, fm_mode = 420\<rparr>"

definition demo_entry :: manifest_entry where
  "demo_entry = \<lparr>me_path = ''f'', me_size = 3, me_modified = show_secs 7, me_permissions = 420,
     me_chunk_hashes = [to_hex hash_a]\<rparr>"

definition demo_io :: store_io where
  "demo_io = \<lparr>so_read = (\<lambda>_. True), so_mkdir = True, so_write = Written, so_list = True, so_remove = True,
     so_ser = (\<lambda>e. if e = demo_entry then Some [1] else None),
     so_de = (\<lambda>bs. if bs = [1] then Some demo_entry else None),
     so_out_mkdir = True, so_out_write = (\<lambda>_. Written), so_utime = (\<lambda>_. True)\<rparr>"

definition demo_source :: "string \<Rightarrow> stream_item list \<Rightarrow> source_file" where
  "demo_source path items = \<lparr>sf_path = path, sf_check = Some demo_meta, sf_skip = Some demo_meta, sf_stat = Some 3,
     sf_open = True, sf_items = (\<lambda>_. items), sf_after = Some demo_meta\<rparr>"

definition demo_opts :: backup_opts where
  "demo_opts = default_backup_opts\<lparr>bo_similarity_threshold := Fin 0\<rparr>"

definition demo_empty :: "local_store store" where
  "demo_empty = \<lparr>sr_store = empty_store [], sr_index = (\<lambda>_. None), sr_config = Local ''d'',
     sr_manifest_op = False, sr_manifests = None\<rparr>"

abbreviation demo_schedule :: "thread list" where
  "demo_schedule \<equiv> [Producer, Producer, Producer, Writer, Writer, Producer]"

lemma demo_names [simp]:
  "manifest_name ''a/f'' = ''f''" "manifest_name ''b/f'' = ''f''" "path_join ''out'' ''f'' = ''out/f''"
  by (simp_all add: manifest_name_def file_name_def path_components_def path_start_def path_names_def
      component_of_def path_join_def)

lemma demo_manifest_codec: "manifest_codec_ok demo_io"
  by (auto simp: manifest_codec_ok_def demo_io_def split: if_splits)

lemma demo_backup:
  "\<exists>stats st1. backup demo_env demo_io demo_schedule demo_empty (demo_source ''a/f'' [item_a]) demo_opts
      = Some (Inr stats, st1)
    \<and> sr_manifests st1 = Some [(''f.manifest'', [1])] \<and> is_local st1"
proof -
  obtain sy stats where sy: "run_schedule demo_env demo_schedule (system_init 3 [item_a] None (\<lambda>_. None) (empty_store [])) = Some sy"
    "sy_result sy = Some (Inr stats)" "bs_chunk_hashes stats = [hash_a]"
    using demo_one unfolding demo_start_one by blast
  have env: "demo_env\<lparr>en_level := 3\<rparr> = demo_env" by (simp add: demo_env_def)
  have sim: "similarity_of demo_opts = None"
    by (simp add: similarity_of_def demo_opts_def f64_less_def)
  have valid: "validate (chunk_config_of demo_opts)"
    by (simp add: validate_def chunk_config_of_def demo_opts_def default_backup_opts_def)
  have run: "backup_file demo_env demo_schedule (pipeline_new (default_pipeline_config
       \<lparr>pc_chunk_config := chunk_config_of demo_opts, pc_similarity_config := similarity_of demo_opts\<rparr>))
       (empty_store []) (\<lambda>_. None) (demo_source ''a/f'' [item_a]) = Some (Inr stats, w_store (sy_writer sy), w_index (sy_writer sy))"
    unfolding sim using sy(2)
    by (simp add: backup_file_def demo_source_def pipeline_new_def default_pipeline_config_def env sy(1)
        del: run_schedule.simps)
  have "entry_of ''f'' demo_meta stats = demo_entry"
    by (simp add: entry_of_def demo_meta_def demo_entry_def perm_def sy(3))
  with valid run show ?thesis
    by (simp add: backup_def Let_def demo_empty_def is_file_unchanged_def read_manifest_entry_def is_local_def
        manifest_files_def write_manifest_entry_def manifest_file_def)
      (simp add: demo_source_def demo_opts_def default_backup_opts_def demo_io_def)
qed

lemma demo_items: "items_ok demo_libs demo_value [item_a]"
  using demo_genuine(1) by (simp add: items_ok_def chunk_ok_def hash_a_def [symmetric] demo_value_def)
    (simp add: chunk_a_def)

text \<open>A store that has the file of the manifest, with its chunk still pending.\<close>

definition demo_full :: "local_store store" where
  "demo_full = demo_empty\<lparr>sr_store := demo_put, sr_manifests := Some [(''f.manifest'', [1])]\<rparr>"

lemma demo_full_reads:
  "read_manifest_entry demo_io demo_full ''f'' = Inr (Some demo_entry)" "is_local demo_full"
  "local_get demo_libs (sr_index demo_full) (sr_store demo_full) hash_a = Inr chunk_a"
  "from_hex (to_hex hash_a) = Inr hash_a" "Hash (lib_blake3 demo_libs chunk_a) = hash_a"
proof -
  show "is_local demo_full" by (simp add: demo_full_def demo_empty_def is_local_def)
  then show "read_manifest_entry demo_io demo_full ''f'' = Inr (Some demo_entry)"
    by (simp add: read_manifest_entry_def manifest_files_def manifest_file_def)
      (simp add: demo_full_def demo_io_def)
  have "demo_value hash_a = chunk_a" by (simp add: demo_value_def)
  then show "local_get demo_libs (sr_index demo_full) (sr_store demo_full) hash_a = Inr chunk_a"
    using serving_get_full [of demo_libs demo_value "Suc 4" demo_put hash_a] demo_put_serving
    by (simp add: demo_full_def)
  show "from_hex (to_hex hash_a) = Inr hash_a" by (rule from_hex_of_hash) (simp add: wf_hash_def hash_a_def)
  show "Hash (lib_blake3 demo_libs chunk_a) = hash_a" by (simp add: hash_a_def)
qed

section \<open>Properties\<close>

text \<open>
  C2. What was backed up can be restored by another process: let a store on the local file system, in
  good order, back up a file that is not skipped. However the two threads of the pipeline interleave,
  if the backup succeeds then a store opened later on the directories it left restores the file under
  its name, with exactly the bytes that the chunker cut it into, whether the chunks were stored in
  full, as deltas, or were there already.
\<close>

theorem backup_reopen_restore:
  assumes "en_ops env = local_ops L pio" and "en_libs env = L"
    and "zstd_ok (lib_zstd L)" and "zstd_bounded (lib_zstd L)" and "manifest_codec_ok io"
    and "is_local st" and "dom (sr_index st) = fst ` kinds (sr_store st)"
    and "local_serving L V (length items + 1) (sr_store st)" and "dir_complete (sr_store st)"
    and "items = sf_items source (chunk_config_of opts)" and "items_ok L V items" and "length items \<le> 250000"
    and "\<forall>m t. sf_after source = Some m \<longrightarrow> fm_modified m = Some t \<longrightarrow> t < 2 ^ 63"
    and "bo_force opts \<or> is_file_unchanged io st source (manifest_name (sf_path source)) = Inr False"
    and "backup env io schedule st source opts = Some (Inr stats, st1)"
    and "name = manifest_name (sf_path source)"
    and "so_read io name" and "so_out_mkdir io" and "so_out_write io (path_join dest name) = Written"
  shows "\<exists>st2 out'. store_open_local L keyed path (Some (ls_dir (sr_store st1))) (sr_manifests st1) = Inr st2
    \<and> restore (local_ops L pio) io dest (Some name) (st2, out) = (Inr (), st2, out')
    \<and> map_of (rs_files out') (path_join dest name) = Some (concat (map item_data items))"
proof -
  from backup_leaves [OF assms(1-12,14-17)] obtain meta where
    ok: "local_settled (sr_store st1)" "local_serving L V 0 (sr_store st1)" "dir_complete (sr_store st1)"
      "set (bs_chunk_hashes stats) \<subseteq> fst ` kinds (sr_store st1)"
      "concat (map V (bs_chunk_hashes stats)) = concat (map item_data items)"
    and meta: "sf_after source = Some meta"
    and m: "read_manifest_entry io st1 name = Inr (Some (entry_of name meta stats))" "is_local st1" .
  let ?e = "entry_of name meta stats"
  from reopened_reads [OF ok(2,3,1), of keyed path "sr_manifests st1"] obtain st2 where
    st2: "store_open_local L keyed path (Some (ls_dir (sr_store st1))) (sr_manifests st1) = Inr st2"
      "is_local st2" "sr_manifests st2 = sr_manifests st1"
      "\<forall>(h, k) \<in> kinds (sr_store st1). local_get L (sr_index st2) (sr_store st2) h = Inr (V h)"
    by blast
  have "read_manifest_entry io st2 name = Inr (Some ?e)"
    using m st2(2,3) by (simp add: read_manifest_entry_def manifest_files_def)
  moreover have "restore_path dest name ?e = Inr (path_join dest name)"
    by (rule restore_path_named) (simp_all add: entry_of_def assms(16) manifest_name_plain)
  moreover have "read_chunks (local_ops L pio) st2 (me_chunk_hashes ?e) [] = (Inr (concat (map item_data items)), st2)"
    using reads_back [OF ok(2,4) st2(4), of pio] ok(5) by (simp add: entry_of_def)
  moreover have "case parse_uint (2 ^ 64) (me_modified ?e) of None \<Rightarrow> True | Some secs \<Rightarrow> secs < 2 ^ 63"
    using assms(13) meta show_secs_ok
    by (cases "fm_modified meta") (fastforce simp: entry_of_def parse_uint_def)+
  ultimately obtain out' where
    "restore (local_ops L pio) io dest (Some name) (st2, out) = (Inr (), st2, out')"
    "rs_files out' = AList.update (path_join dest name) (concat (map item_data items)) (rs_files out)"
    using restore_one [OF _ _ _ assms(18,19)] by blast
  with st2(1) show ?thesis by (auto simp: update_conv')
qed

theorem backup_reopen_restore_witness:
  "\<exists>stats st1 st2 out'.
     backup demo_env demo_io demo_schedule demo_empty (demo_source ''a/f'' [item_a]) demo_opts = Some (Inr stats, st1)
   \<and> store_open_local demo_libs demo_keyed ''d'' (Some (ls_dir (sr_store st1))) (sr_manifests st1) = Inr st2
   \<and> restore (local_ops demo_libs io_fine) demo_io ''out'' (Some ''f'') (st2, \<lparr>rs_files = [], rs_mtimes = []\<rparr>)
       = (Inr (), st2, out')
   \<and> map_of (rs_files out') ''out/f'' = Some chunk_a"
proof -
  obtain stats st1 where b: "backup demo_env demo_io demo_schedule demo_empty (demo_source ''a/f'' [item_a]) demo_opts
      = Some (Inr stats, st1)" using demo_backup by blast
  have serving: "local_serving demo_libs demo_value (length [item_a] + 1) (sr_store demo_empty)"
    unfolding demo_empty_def by (simp only: store.simps) (rule demo_serving, simp)
  have z: "zstd_ok (lib_zstd demo_libs)" "zstd_bounded (lib_zstd demo_libs)"
    using toy_zstd_ok toy_zstd_bounded by (simp_all add: demo_libs_def toy_libs_def)
  have st: "is_local demo_empty" "dom (sr_index demo_empty) = fst ` kinds (sr_store demo_empty)"
    "dir_complete (sr_store demo_empty)"
    by (simp_all add: demo_empty_def is_local_def kinds_def empty_store_def dir_complete_def)
  have env: "en_ops demo_env = local_ops demo_libs io_fine" "en_libs demo_env = demo_libs"
    by (simp_all add: demo_env_def)
  have src: "[item_a] = sf_items (demo_source ''a/f'' [item_a]) (chunk_config_of demo_opts)"
    "\<forall>m t. sf_after (demo_source ''a/f'' [item_a]) = Some m \<longrightarrow> fm_modified m = Some t \<longrightarrow> t < 2 ^ 63"
    "''f'' = manifest_name (sf_path (demo_source ''a/f'' [item_a]))"
    by (simp_all add: demo_source_def demo_meta_def)
  have skip: "is_file_unchanged demo_io demo_empty (demo_source ''a/f'' [item_a])
      (manifest_name (sf_path (demo_source ''a/f'' [item_a]))) = Inr False"
    by (simp add: is_file_unchanged_def read_manifest_entry_def is_local_def demo_empty_def manifest_files_def)
  have io: "so_read demo_io ''f''" "so_out_mkdir demo_io" "so_out_write demo_io (path_join ''out'' ''f'') = Written"
    by (simp_all add: demo_io_def)
  from backup_reopen_restore [OF env z demo_manifest_codec st(1,2) serving st(3) src(1) demo_items _ src(2) disjI2 [OF skip] b src(3) io,
      of demo_keyed "''d''" "\<lparr>rs_files = [], rs_mtimes = []\<rparr>"] b
  show ?thesis by auto
qed

text \<open>
  C36. The report of a verification of a local store means what it says: it is ok exactly when every file
  it was asked for has a readable manifest, in which every entry is the hex form of a hash under
  which the store returns data with that digest. Verifying changes nothing.
\<close>

theorem verify_exact:
  assumes "verify (local_ops L pio) L io only st = (Inr rep, st')"
  shows "st' = st \<and> (vr_ok rep \<longleftrightarrow> (\<exists>names. chosen_names io st only = Inr names
    \<and> (\<forall>name \<in> set names. \<exists>entry. read_manifest_entry io st name = Inr (Some entry)
        \<and> (\<forall>x \<in> set (me_chunk_hashes entry). \<exists>h d. from_hex x = Inr h
            \<and> local_get L (sr_index st) (sr_store st) h = Inr d \<and> Hash (lib_blake3 L d) = h))))"
proof -
  from assms obtain names rep1 where names: "chosen_names io st only = Inr names"
    and files: "verify_files (local_ops L pio) L io names
      \<lparr>vr_files_checked = 0, vr_chunks_checked = 0, vr_errors = [], vr_ok = False\<rparr> st = (Inr rep1, st')"
    and rep: "rep = rep1\<lparr>vr_ok := vr_errors rep1 = []\<rparr>"
    by (auto simp: verify_def res_simps)
  from verify_files_exact [OF files] names rep show ?thesis
    unfolding chunk_verifies_def by simp
qed

theorem verify_exact_witness:
  "verify (local_ops demo_libs io_fine) demo_libs demo_io None demo_full
      = (Inr \<lparr>vr_files_checked = 1, vr_chunks_checked = 1, vr_errors = [], vr_ok = True\<rparr>, demo_full)
   \<and> (\<exists>h d. from_hex (to_hex hash_a) = Inr h
        \<and> local_get demo_libs (sr_index demo_full) (sr_store demo_full) h = Inr d \<and> Hash (lib_blake3 demo_libs d) = h)"
proof -
  have names: "chosen_names demo_io demo_full None = Inr [''f'']"
    by (simp add: chosen_names_def list_manifest_names_def demo_full_reads(2) manifest_names_def)
      (simp add: demo_full_def demo_empty_def demo_io_def manifest_files_def map_filter_simps strip_suffix_def)
  have v: "verify (local_ops demo_libs io_fine) demo_libs demo_io None demo_full
      = (Inr \<lparr>vr_files_checked = 1, vr_chunks_checked = 1, vr_errors = [], vr_ok = True\<rparr>, demo_full)"
    by (simp add: verify_def names demo_full_reads demo_entry_def hash_a_def [symmetric] Let_def)
  from verify_exact [OF v] names demo_full_reads(1) have "\<forall>x \<in> set (me_chunk_hashes demo_entry). \<exists>h d. from_hex x = Inr h
      \<and> local_get demo_libs (sr_index demo_full) (sr_store demo_full) h = Inr d \<and> Hash (lib_blake3 demo_libs d) = h"
    by simp
  with v show ?thesis by (simp add: demo_entry_def)
qed

text \<open>
  The chunk sizes a backup accepts are those from 128 to 524288, and, because four times the size is
  computed with wrap-around, also those up to 524288 above the middle of the range of the type, for
  which the largest chunk is smaller than the smallest one.
\<close>

theorem chunk_size_bounds:
  "validate (chunk_config_of opts) \<longleftrightarrow>
     128 \<le> unat (bo_chunk_size opts) \<and> unat (bo_chunk_size opts) \<le> 524288
   \<or> 2 ^ 63 \<le> unat (bo_chunk_size opts) \<and> unat (bo_chunk_size opts) \<le> 2 ^ 63 + 524288"
proof -
  let ?cs = "bo_chunk_size opts"
  have n: "unat ?cs < 2 ^ 64" using unsigned_less [of ?cs] by simp
  have "64 \<le> max (?cs div 2) 64" by simp
  then have valid: "validate (chunk_config_of opts) \<longleftrightarrow> unat (max (?cs div 2) 64 * 2) \<le> unat ?cs
      \<and> unat (?cs * 2) \<le> min (unat (?cs * 4)) 1048576"
    by (simp add: validate_def chunk_config_of_def word_le_nat_alt min_def)
  show ?thesis unfolding valid unfolding double_word(3) unfolding double_word(1,2) by (rule valid_sizes [OF n])
qed

text \<open>
  C37. Deleting a file that the store has removes its manifest, when the file system or the service lets
  it: afterwards the file is gone, every other manifest reads as before, and the chunks are untouched.
  When it does not, a local store reports the error, and a cloud store reports success.
\<close>

theorem delete_file_exact:
  assumes "has_file io st name = Inr True" and "delete_file io st name = (r, st')"
  shows "(so_remove io \<longrightarrow> r = Inr () \<and> has_file io st' name = Inr False \<and> sr_store st' = sr_store st
      \<and> (\<forall>other. other \<noteq> name \<longrightarrow> read_manifest_entry io st' other = read_manifest_entry io st other))
    \<and> (\<not> so_remove io \<longrightarrow> st' = st \<and> (r = Inr () \<longleftrightarrow> \<not> is_local st))"
proof -
  have d: "delete_manifest_entry io st name = (r, st')"
    using assms by (simp add: delete_file_def)
  moreover have "\<not> so_remove io \<longrightarrow> st' = st \<and> (r = Inr () \<longleftrightarrow> \<not> is_local st)"
    using d assms(1)
    by (auto simp: delete_manifest_entry_def has_file_def read_manifest_entry_def res_simps Let_def split: if_splits option.splits)
  ultimately show ?thesis using read_deleted [OF d _ assms(1)] by blast
qed

theorem delete_file_exact_witness:
  "\<exists>st'. delete_file demo_io demo_full ''f'' = (Inr (), st') \<and> has_file demo_io st' ''f'' = Inr False
     \<and> sr_store st' = demo_put"
proof -
  have h: "has_file demo_io demo_full ''f'' = Inr True" by (simp add: has_file_def demo_full_reads(1))
  obtain r st' where d: "delete_file demo_io demo_full ''f'' = (r, st')" by force
  from delete_file_exact [OF h d] have "r = Inr () \<and> has_file demo_io st' ''f'' = Inr False \<and> sr_store st' = sr_store demo_full"
    by (simp add: demo_io_def)
  with d show ?thesis by (simp add: demo_full_def)
qed

text \<open>
  C39. The check of a restore against paths that leave the destination stops none but absolute paths: with
  any relative path in the manifest, also one that climbs out with \<^verbatim>\<open>..\<close>, the file is written to
  that path, taken from the destination.
\<close>

theorem restore_escapes:
  assumes "read_manifest_entry io st name = Inr (Some entry)"
    and "me_path entry \<noteq> []" and "hd (me_path entry) \<noteq> CHR ''/''"
    and "read_chunks S st (me_chunk_hashes entry) [] = (Inr data, st')"
    and "so_out_mkdir io" and "so_out_write io (path_join dest (me_path entry)) = Written"
    and "case parse_uint (2 ^ 64) (me_modified entry) of None \<Rightarrow> True | Some secs \<Rightarrow> secs < 2 ^ 63"
  shows "\<exists>out'. restore S io dest (Some name) (st, out) = (Inr (), st', out')
    \<and> map_of (rs_files out') (path_join dest (me_path entry)) = Some data"
proof -
  have "restore_path dest name entry = Inr (path_join dest (me_path entry))"
    using join_starts_with [of "me_path entry" dest] assms(2,3) by (simp add: restore_path_def Let_def)
  from restore_one [OF assms(1) this assms(4-7), of out] show ?thesis by (auto simp: update_conv')
qed

text \<open>A manifest that names a path above the destination.\<close>

definition bad_entry :: manifest_entry where
  "bad_entry = demo_entry\<lparr>me_path := ''../x''\<rparr>"

theorem restore_escapes_witness:
  "path_components ''out/../x'' = [Normal ''out'', ParentDir, Normal ''x'']
   \<and> (\<exists>out'. restore (local_ops demo_libs io_fine) (demo_io\<lparr>so_de := (\<lambda>_. Some bad_entry)\<rparr>) ''out'' (Some ''f'')
          (demo_full, \<lparr>rs_files = [], rs_mtimes = []\<rparr>) = (Inr (), demo_full, out')
        \<and> map_of (rs_files out') ''out/../x'' = Some chunk_a)"
proof -
  let ?io = "demo_io\<lparr>so_de := (\<lambda>_. Some bad_entry)\<rparr>"
  have m: "read_manifest_entry ?io demo_full ''f'' = Inr (Some bad_entry)"
    using demo_full_reads(2) by (simp add: read_manifest_entry_def manifest_files_def manifest_file_def)
      (simp add: demo_full_def demo_io_def)
  have p: "me_path bad_entry \<noteq> []" "hd (me_path bad_entry) \<noteq> CHR ''/''"
    "path_join ''out'' (me_path bad_entry) = ''out/../x''"
    by (simp_all add: bad_entry_def path_join_def)
  have c: "read_chunks (local_ops demo_libs io_fine) demo_full (me_chunk_hashes bad_entry) [] = (Inr chunk_a, demo_full)"
    by (simp add: bad_entry_def demo_entry_def demo_full_reads)
  have t: "case parse_uint (2 ^ 64) (me_modified bad_entry) of None \<Rightarrow> True | Some secs \<Rightarrow> secs < 2 ^ 63"
    using show_secs_ok [of 7] by (simp add: bad_entry_def demo_entry_def)
  have io: "so_out_mkdir ?io" "so_out_write ?io (path_join ''out'' (me_path bad_entry)) = Written"
    by (simp_all add: demo_io_def)
  from restore_escapes [OF m p(1,2) c io t, of "\<lparr>rs_files = [], rs_mtimes = []\<rparr>"] show ?thesis
    unfolding p(3) by (simp add: path_components_def path_start_def path_names_def component_of_def)
qed

text \<open>
  C40. Files are told apart by their last name, size and time alone: once a file has been backed up, another
  file with the same last name, size and time in seconds, in whatever directory and with whatever
  contents, counts as unchanged. Its backup succeeds without a chunk being stored.
\<close>

theorem same_name_not_stored:
  assumes "backup env io schedule st source opts = Some (Inr stats, st1)"
    and "bo_force opts \<or> is_file_unchanged io st source (manifest_name (sf_path source)) = Inr False"
    and "manifest_codec_ok io" and "is_local st" and "so_read io (manifest_name (sf_path source))"
    and "sf_after source = Some meta" and "fm_modified meta = Some t"
    and "manifest_name (sf_path other) = manifest_name (sf_path source)"
    and "sf_check other = Some meta2" and "fm_len meta2 = fm_len meta" and "fm_modified meta2 = Some t"
    and "sf_skip other = Some meta3" and "\<not> bo_force opts2"
  shows "backup env io schedule2 st1 other opts2
    = Some (Inr (default_stats\<lparr>bs_source_size := fm_len meta3\<rparr>), st1)"
proof -
  let ?name = "manifest_name (sf_path source)"
  from backup_stored [OF assms(1,2)] obtain s ix where
    wr: "write_manifest_entry io (st\<lparr>sr_store := s, sr_index := ix\<rparr>) ?name (entry_of ?name meta stats) = (Inr (), st1)"
    using assms(6) by (metis option.inject)
  have loc: "is_local (st\<lparr>sr_store := s, sr_index := ix\<rparr>)" using assms(4) by (simp add: is_local_def)
  from read_written [OF assms(3,5) wr loc]
  have "read_manifest_entry io st1 ?name = Inr (Some (entry_of ?name meta stats))" by blast
  then have "is_file_unchanged io st1 other ?name = Inr True"
    by (simp add: is_file_unchanged_def assms(7,9-11) entry_of_def)
  then show ?thesis by (simp add: backup_def assms(8,12,13))
qed

theorem same_name_not_stored_witness:
  "\<exists>stats st1. backup demo_env demo_io demo_schedule demo_empty (demo_source ''a/f'' [item_a]) demo_opts = Some (Inr stats, st1)
     \<and> backup demo_env demo_io demo_schedule st1 (demo_source ''b/f'' [Chunk_Data 0 2 chunk_b]) demo_opts
         = Some (Inr (default_stats\<lparr>bs_source_size := 3\<rparr>), st1)"
proof -
  obtain stats st1 where b: "backup demo_env demo_io demo_schedule demo_empty (demo_source ''a/f'' [item_a]) demo_opts
      = Some (Inr stats, st1)" using demo_backup by blast
  let ?src = "demo_source ''a/f'' [item_a]" and ?other = "demo_source ''b/f'' [Chunk_Data 0 2 chunk_b]"
  have skip: "bo_force demo_opts \<or> is_file_unchanged demo_io demo_empty ?src (manifest_name (sf_path ?src)) = Inr False"
    by (simp add: is_file_unchanged_def read_manifest_entry_def is_local_def demo_empty_def manifest_files_def)
  have st: "is_local demo_empty" "so_read demo_io (manifest_name (sf_path ?src))" "\<not> bo_force demo_opts"
    by (simp_all add: demo_empty_def is_local_def demo_io_def demo_opts_def default_backup_opts_def)
  have src: "sf_after ?src = Some demo_meta" "fm_modified demo_meta = Some 7"
    "manifest_name (sf_path ?other) = manifest_name (sf_path ?src)" "sf_check ?other = Some demo_meta"
    "sf_skip ?other = Some demo_meta" "fm_len demo_meta = 3"
    by (simp_all add: demo_source_def demo_meta_def)
  from same_name_not_stored [OF b skip demo_manifest_codec st(1,2) src(1-4) refl src(2,5) st(3), of demo_schedule] b src(6)
  show ?thesis by auto
qed

text \<open>
  A time of more than \<^verbatim>\<open>i64::MAX\<close> seconds in a manifest makes a restore panic after the file has been
  written; the conversion with \<^verbatim>\<open>unwrap_or(i64::MAX)\<close> is not reached.
\<close>

lemma restore_mtime_panics:
  "2 ^ 63 \<le> t \<Longrightarrow> t < 2 ^ 64 \<Longrightarrow> panics (fst (restore_mtime io p (show_nat t) out))"
  by (simp add: restore_mtime_def parse_uint_show)

end
