(* ===== verification/History.thy ===== *)
theory History
  imports Store_Backup
begin

text \<open>
  The life of a store on disk: backups that complete, fail or are killed, and deletions, in any
  order, each by a process that opens the store anew. What a completed backup has stored is restored
  byte for byte after any such history, as long as the store has at most ten packs when it is opened;
  \<open>reopen_reuses_pack_id\<close> of \<open>Local_Store\<close> shows what happens beyond.
\<close>

section \<open>Ids of at most ten packs\<close>

lemma digit_char_less: "i < 10 \<Longrightarrow> j < 10 \<Longrightarrow> digit_char i < digit_char j \<longleftrightarrow> i < j"
proof -
  have "n < 10 \<Longrightarrow> of_char (digit_char n) = (48 + n :: nat)" for n
    using less_Suc_eq by (auto simp: digit_char_def numeral_eq_Suc less_Suc_eq)
  then show "i < 10 \<Longrightarrow> j < 10 \<Longrightarrow> ?thesis" by (simp add: less_char_def)
qed

lemma short_pack_name: "unat i < 10 \<Longrightarrow> pack_name i = digit_char (unat i) # ''.pack''"
  by (simp add: pack_name_def show_nat.simps)

lemma pack_name_less:
  "unat i < 10 \<Longrightarrow> unat j < 10 \<Longrightarrow> pack_name i < pack_name j \<Longrightarrow> i < j"
  by (simp add: short_pack_name digit_char_less word_less_nat_alt)

definition pack_id_of :: "string \<Rightarrow> u32 option" where
  "pack_id_of name = Option.bind (strip_suffix ''.pack'' name) parse_u32"

text \<open>Loading packs in the order of their names leaves an id above them all.\<close>

lemma load_packs_ids:
  assumes "load_packs L files packs n = Inr (packs', n')"
    and "sorted (map fst files)" and "distinct (map fst files)"
    and "\<forall>name \<in> fst ` set files. \<forall>i. pack_id_of name = Some i \<longrightarrow> name = pack_name i \<and> unat i < 10 \<and> n \<le> i"
    and "\<forall>i \<in> fst ` set packs. i < n" and "distinct (map fst packs)" and "unat n \<le> 10"
  shows "(\<forall>i \<in> fst ` set packs'. i < n') \<and> distinct (map fst packs') \<and> unat n' \<le> 10"
  using assms
proof (induction L files packs n rule: load_packs.induct)
  case (2 L name data files packs n)
  show ?case
  proof (cases "pack_id_of name")
    case None
    with 2 show ?thesis by (simp add: pack_id_of_def)
  next
    case (Some i)
    have i: "name = pack_name i" "unat i < 10" "n \<le> i" using Some "2.prems"(4) by simp_all
    from Some "2.prems"(1) obtain ies ck sb where rd: "read_pack L data = Inr (ies, ck, sb)"
      and l: "load_packs L files (AList.update i \<lparr>pm_entries = ies, pm_superblock = sb\<rparr> packs) (i + 1) = Inr (packs', n')"
      by (auto simp: pack_id_of_def split: sum.splits failure.splits)
    have next_id: "unat (i + 1) = Suc (unat i)" using i(2) room_next [of i 0] by simp
    then have up: "j < i + 1 \<longleftrightarrow> unat j \<le> unat i" "i + 1 \<le> j \<longleftrightarrow> unat i < unat j" for j
      by (auto simp: word_less_nat_alt word_le_nat_alt)
    have "\<forall>name' \<in> fst ` set files. \<forall>j. pack_id_of name' = Some j
        \<longrightarrow> name' = pack_name j \<and> unat j < 10 \<and> i + 1 \<le> j"
    proof (intro ballI allI impI)
      fix name' j assume a: "name' \<in> fst ` set files" "pack_id_of name' = Some j"
      then have j: "name' = pack_name j" "unat j < 10" using "2.prems"(4) by auto
      have "name \<le> name'" "name \<noteq> name'" using a(1) "2.prems"(2,3) by auto
      then have "name < name'" by (metis order_le_less)
      then have "i < j" using pack_name_less [OF i(2) j(2)] i(1) j(1) by simp
      with j show "name' = pack_name j \<and> unat j < 10 \<and> i + 1 \<le> j" by (simp add: up word_less_nat_alt)
    qed
    moreover have "\<forall>j \<in> fst ` set (AList.update i \<lparr>pm_entries = ies, pm_superblock = sb\<rparr> packs). j < i + 1"
    proof -
      have "j < n \<Longrightarrow> j < i + 1" for j using i(3) unfolding up by (simp add: word_less_nat_alt word_le_nat_alt)
      moreover have "i < i + 1" unfolding up ..
      ultimately show ?thesis using "2.prems"(5) unfolding dom_update by blast
    qed
    moreover have "distinct (map fst (AList.update i \<lparr>pm_entries = ies, pm_superblock = sb\<rparr> packs))"
      using "2.prems"(6) by (rule distinct_update)
    moreover have "Option.bind (strip_suffix ''.pack'' name) parse_u32 = Some i" "sorted (map fst files)"
      "distinct (map fst files)" "unat (i + 1) \<le> 10"
      using Some "2.prems"(2,3) next_id i(2) by (simp_all add: pack_id_of_def)
    ultimately show ?thesis using "2.IH"(2) [OF _ rd refl refl l] by blast
  qed
qed simp

definition few_packs :: "dir \<Rightarrow> bool" where
  "few_packs dir \<longleftrightarrow> (\<forall>i. pack_name i \<in> fst ` set dir \<longrightarrow> unat i < 10)"

lemma open_ids:
  assumes o: "local_open L (Some dir) = Inr lo" and c: "dir_complete lo" and few: "few_packs dir"
  shows "local_fresh lo \<and> unat (ls_next_pack_id lo) \<le> 10 \<and> local_sizes lo"
proof -
  let ?files = "sort_key fst (filter (\<lambda>(name, _). has_pack_extension name) dir)"
  from o obtain packs n where l: "load_packs L ?files [] 0 = Inr (packs, n)"
    and lo: "lo = \<lparr>ls_pending_chunks = [], ls_pending_size = 0, ls_packs = packs,
      ls_pack_target_size = 16 * 1024 * 1024, ls_next_pack_id = n, ls_indexed = False, ls_dir = dir\<rparr>"
    by (auto simp: local_open_def res_simps)
  have "distinct (map fst (filter (\<lambda>(name, _). has_pack_extension name) dir))"
    by (rule distinct_map_filter) (use c lo in \<open>simp add: dir_complete_def\<close>)
  then have d: "distinct (map fst ?files)" by (simp add: distinct_map del: set_filter)
  have "\<forall>name \<in> fst ` set ?files. \<forall>i. pack_id_of name = Some i \<longrightarrow> name = pack_name i \<and> unat i < 10 \<and> 0 \<le> i"
  proof (intro ballI allI impI)
    fix name i assume a: "name \<in> fst ` set ?files" "pack_id_of name = Some i"
    then have n: "name \<in> fst ` set dir" "has_pack_extension name" by auto
    then have "name = pack_name i"
      using c a(2) by (fastforce simp: dir_complete_def lo pack_id_of_def)
    with n few show "name = pack_name i \<and> unat i < 10 \<and> 0 \<le> i" by (simp add: few_packs_def)
  qed
  from load_packs_ids [OF l _ d this] have "(\<forall>i \<in> fst ` set packs. i < n) \<and> distinct (map fst packs) \<and> unat n \<le> 10"
    by simp
  then show ?thesis by (simp add: lo local_fresh_def local_sizes_def pending_bytes_def)
qed

lemma reopened_serves:
  assumes dir: "dir_holds L V H dir" and L: "libs_ok L" "packs_fit L" and few: "few_packs dir" and n: "n + 10 < 2 ^ 32"
  shows "\<exists>st. store_open_local L keyed path (Some dir) manifests = Inr st \<and> is_local st \<and> sr_manifests st = manifests
    \<and> local_durable L V H n (sr_store st) \<and> ls_dir (sr_store st) = dir
    \<and> dom (sr_index st) = fst ` kinds (sr_store st) \<and> local_settled (sr_store st)"
proof -
  from reopened [OF dir, of keyed path manifests] obtain lo st where
    lo: "local_open L (Some dir) = Inr lo" "local_inv L V lo" "dir_complete lo" "ls_dir lo = dir"
      "ls_pending_chunks lo = []" "H \<subseteq> kinds lo" "\<forall>h \<in> fst ` kinds lo. genuine L V h"
    and st: "store_open_local L keyed path (Some dir) manifests = Inr st" "is_local st"
      "sr_manifests st = manifests" "sr_store st = local_set_index lo"
      "dom (sr_index st) = fst ` kinds (sr_store st)" by blast
  let ?lo = "local_set_index lo"
  have same: "kinds ?lo = kinds lo" "ls_indexed ?lo" "ls_dir ?lo = dir" "packs_kinds (ls_packs ?lo) = kinds lo"
    "local_settled ?lo"
    using lo(4,5) by (simp_all add: local_set_index_def kinds_def local_settled_def)
  have "local_inv L V ?lo" using lo(2) by (simp add: local_set_index_def kinds_def local_inv_def)
  moreover have "dir_complete ?lo" using lo(3) dir_complete_cong [of ?lo lo] by (simp add: local_set_index_def)
  moreover have "local_fresh ?lo \<and> unat (ls_next_pack_id ?lo) \<le> 10 \<and> local_sizes ?lo"
    using open_ids [OF lo(1,3) few] by (simp add: local_set_index_def local_fresh_def local_sizes_def pending_bytes_def)
  ultimately have "local_durable L V H n ?lo"
    using n lo(6,7) L same by (simp add: local_durable_def local_serving_def local_ready_def)
  with st same show ?thesis by auto
qed

section \<open>Histories\<close>

text \<open>A store on disk: the files of \<^verbatim>\<open>packs\<close> and those of \<^verbatim>\<open>manifests\<close>.\<close>

record disk =
  dk_packs :: dir
  dk_manifests :: "dir option"

definition disk_of :: "local_store store \<Rightarrow> disk" where
  "disk_of st = \<lparr>dk_packs = ls_dir (sr_store st), dk_manifests = sr_manifests st\<rparr>"

text \<open>
  What is assumed of a file that is backed up: its chunks are not too long or too many, their hashes
  determine them, and its time is one of a signed clock.
\<close>

definition file_fits :: "libs \<Rightarrow> (hash \<Rightarrow> bytes) \<Rightarrow> source_file \<Rightarrow> backup_opts \<Rightarrow> bool" where
  "file_fits L V source opts \<longleftrightarrow> items_ok L V (sf_items source (chunk_config_of opts))
     \<and> length (sf_items source (chunk_config_of opts)) \<le> 250000
     \<and> (\<forall>m t. sf_after source = Some m \<longrightarrow> fm_modified m = Some t \<longrightarrow> t < 2 ^ 63)"

definition file_bytes :: "source_file \<Rightarrow> backup_opts \<Rightarrow> bytes" where
  "file_bytes source opts = concat (map item_data (sf_items source (chunk_config_of opts)))"

text \<open>What a call that did not do its work leaves of a file: all, unless the manifests have changed.\<close>

definition untouched :: "disk \<Rightarrow> local_store store \<Rightarrow> (string \<Rightarrow> bytes option) \<Rightarrow> string \<Rightarrow> bytes option" where
  "untouched dk st F name = (if sr_manifests st = dk_manifests dk then F name else None)"

text \<open>
  \<open>history L V keyed ser de dk F\<close>: the disk can be \<open>dk\<close> after processes that each opened the store,
  and \<open>F\<close> tells which files they have backed up. \<open>ser\<close> and \<open>de\<close> are the codec of the manifests. A
  backup that returns an error, or is cut off, while it writes its manifest may have destroyed the
  one before it; one that fails or is killed before that has not touched it.
\<close>

inductive history ::
    "libs \<Rightarrow> (hash \<Rightarrow> bytes) \<Rightarrow> (bytes \<Rightarrow> bytes \<Rightarrow> bytes) \<Rightarrow> (manifest_entry \<Rightarrow> bytes option)
      \<Rightarrow> (bytes \<Rightarrow> manifest_entry option) \<Rightarrow> disk \<Rightarrow> (string \<Rightarrow> bytes option) \<Rightarrow> bool"
  for L V keyed ser de where
  created: "history L V keyed ser de \<lparr>dk_packs = [], dk_manifests = None\<rparr> (\<lambda>_. None)"
| returned: "history L V keyed ser de dk F \<Longrightarrow> few_packs (dk_packs dk)
    \<Longrightarrow> store_open_local L keyed path (Some (dk_packs dk)) (dk_manifests dk) = Inr st
    \<Longrightarrow> en_ops env = local_ops L pio \<Longrightarrow> en_libs env = L \<Longrightarrow> so_ser io = ser \<Longrightarrow> so_de io = de
    \<Longrightarrow> file_fits L V source opts \<Longrightarrow> name = manifest_name (sf_path source)
    \<Longrightarrow> bo_force opts \<or> is_file_unchanged io st source name = Inr False
    \<Longrightarrow> backup env io schedule st source opts = Some (r, st')
    \<Longrightarrow> history L V keyed ser de (disk_of st')
          (F(name := if is_ok r then Some (file_bytes source opts) else untouched dk st' F name))"
| killed: "history L V keyed ser de dk F \<Longrightarrow> few_packs (dk_packs dk)
    \<Longrightarrow> store_open_local L keyed path (Some (dk_packs dk)) (dk_manifests dk) = Inr st
    \<Longrightarrow> en_libs env = L \<Longrightarrow> file_fits L V source opts
    \<Longrightarrow> (any_io_step L env)\<^sup>*\<^sup>* (system_init len (sf_items source (chunk_config_of opts))
          (map_option stage_new (similarity_of opts)) (sr_index st) (sr_store st)) sy
    \<Longrightarrow> history L V keyed ser de (dk\<lparr>dk_packs := ls_dir (w_store (sy_writer sy))\<rparr>) F"
| deleted: "history L V keyed ser de dk F
    \<Longrightarrow> store_open_local L keyed path (Some (dk_packs dk)) (dk_manifests dk) = Inr st
    \<Longrightarrow> delete_file io st name = (r, st')
    \<Longrightarrow> history L V keyed ser de (disk_of st') (F(name := untouched dk st' F name))"

text \<open>What the disk holds for a file that counts as backed up.\<close>

definition restorable ::
    "(hash \<Rightarrow> bytes) \<Rightarrow> (bytes \<Rightarrow> manifest_entry option) \<Rightarrow> (hash \<times> hash option) set \<Rightarrow> dir option
      \<Rightarrow> string \<Rightarrow> bytes \<Rightarrow> bool" where
  "restorable V de H manifests name data \<longleftrightarrow> (\<exists>files bs entry hs. manifests = Some files
     \<and> map_of files (manifest_file name) = Some bs \<and> de bs = Some entry
     \<and> me_path entry = name \<and> CHR ''/'' \<notin> set name \<and> me_chunk_hashes entry = map to_hex hs
     \<and> set hs \<subseteq> fst ` H \<and> concat (map V hs) = data
     \<and> (case parse_uint (2 ^ 64) (me_modified entry) of None \<Rightarrow> True | Some secs \<Rightarrow> secs < 2 ^ 63))"

definition disk_ok ::
    "libs \<Rightarrow> (hash \<Rightarrow> bytes) \<Rightarrow> (bytes \<Rightarrow> manifest_entry option) \<Rightarrow> disk \<Rightarrow> (string \<Rightarrow> bytes option) \<Rightarrow> bool" where
  "disk_ok L V de dk F \<longleftrightarrow> (\<exists>H. dir_holds L V H (dk_packs dk)
     \<and> (\<forall>name data. F name = Some data \<longrightarrow> restorable V de H (dk_manifests dk) name data))"

lemma restorable_mono: "restorable V de H ms name data \<Longrightarrow> H \<subseteq> K \<Longrightarrow> restorable V de K ms name data"
  unfolding restorable_def by blast

lemma manifest_file_inj [simp]: "manifest_file a = manifest_file b \<longleftrightarrow> a = b"
  by (simp add: manifest_file_def)

text \<open>Writing one manifest leaves the others alone.\<close>

lemma write_manifest_cases:
  assumes "write_manifest_entry io st name entry = (r, st')" and "is_local st"
  shows "sr_store st' = sr_store st
    \<and> (sr_manifests st' = sr_manifests st \<or> sr_manifests st' = Some (manifest_files st)
       \<or> (\<exists>bs. sr_manifests st' = Some (AList.update (manifest_file name) bs (manifest_files st))))
    \<and> (r = Inr () \<longrightarrow> (\<exists>bs. so_ser io entry = Some bs
         \<and> sr_manifests st' = Some (AList.update (manifest_file name) bs (manifest_files st))))"
  using assms
  by (cases "so_ser io entry"; cases "so_write io")
    (auto simp: write_manifest_entry_def Let_def split: if_splits)

lemma write_manifest_others:
  assumes "write_manifest_entry io st name entry = (r, st')" and "is_local st"
    and "restorable V de H (sr_manifests st) other data" and "other \<noteq> name"
  shows "restorable V de H (sr_manifests st') other data"
proof -
  obtain files where f: "sr_manifests st = Some files" "manifest_files st = files"
    using assms(3) by (auto simp: restorable_def manifest_files_def)
  from write_manifest_cases [OF assms(1,2)] consider "sr_manifests st' = Some files"
    | bs where "sr_manifests st' = Some (AList.update (manifest_file name) bs files)"
    using f by auto
  then show ?thesis
    by cases (use assms(3,4) f in \<open>auto simp: restorable_def update_conv'\<close>)
qed

text \<open>A backup, whatever it returns, keeps what the packs hold and the other manifests.\<close>

lemma backup_file_reaches:
  assumes "backup_file env schedule pl s ix source = Some (r, s', ix')"
  shows "\<exists>len sy. (step (env\<lparr>en_level := pc_compression_level (bp_config pl)\<rparr>))\<^sup>*\<^sup>*
       (system_init len (sf_items source (pc_chunk_config (bp_config pl))) (bp_similarity pl) ix s) sy
     \<and> s' = w_store (sy_writer sy)"
proof -
  from assms consider "s' = s"
    | len sy where "run_schedule (env\<lparr>en_level := pc_compression_level (bp_config pl)\<rparr>) schedule
         (system_init len (sf_items source (pc_chunk_config (bp_config pl))) (bp_similarity pl) ix s) = Some sy"
      "s' = w_store (sy_writer sy)"
    by (auto simp: backup_file_def bind_eq_Some_conv split: option.splits if_splits)
  then show ?thesis
  proof cases
    case 1
    show ?thesis
      by (intro exI [of _ 0] exI [of _ "system_init 0 (sf_items source (pc_chunk_config (bp_config pl)))
        (bp_similarity pl) ix s"]) (simp add: 1 system_init_def)
  next
    case 2 then show ?thesis using run_schedule_steps by blast
  qed
qed

lemma backup_cases:
  assumes run: "backup env io schedule st source opts = Some (r, st')"
    and unskipped: "bo_force opts \<or> is_file_unchanged io st source (manifest_name (sf_path source)) = Inr False"
  obtains (invalid) "st' = st"
    | (ran) result s ix st1 where
      "backup_file env schedule (pipeline_new (default_pipeline_config
         \<lparr>pc_chunk_config := chunk_config_of opts, pc_similarity_config := similarity_of opts\<rparr>))
         (sr_store st) (sr_index st) source = Some (result, s, ix)"
      "st1 = st\<lparr>sr_store := s, sr_index := ix\<rparr>"
      "st' = st1 \<or> (\<exists>entry q. write_manifest_entry io st1 (manifest_name (sf_path source)) entry = (q, st'))"
proof -
  have go: "(if bo_force opts then Inr False
         else is_file_unchanged io st source (manifest_name (sf_path source))) = Inr False"
    using unskipped by auto
  show thesis
  proof (cases "validate (chunk_config_of opts)")
    case False
    with run go show thesis by (intro invalid) (simp add: backup_def)
  next
    case True
    with run go obtain result s ix where b: "backup_file env schedule (pipeline_new (default_pipeline_config
         \<lparr>pc_chunk_config := chunk_config_of opts, pc_similarity_config := similarity_of opts\<rparr>))
         (sr_store st) (sr_index st) source = Some (result, s, ix)"
      and r: "bind_state (result, st\<lparr>sr_store := s, sr_index := ix\<rparr>) (\<lambda>stats st.
          bind_state (or_err (Io ''metadata'') (sf_after source), st) (\<lambda>meta st.
          bind_state (write_manifest_entry io st (manifest_name (sf_path source))
            (entry_of (manifest_name (sf_path source)) meta stats)) (\<lambda>_ st. (Inr stats, st)))) = (r, st')"
      by (auto simp: backup_def Let_def)
    from r have "st' = st\<lparr>sr_store := s, sr_index := ix\<rparr>
        \<or> (\<exists>entry q. write_manifest_entry io (st\<lparr>sr_store := s, sr_index := ix\<rparr>) (manifest_name (sf_path source)) entry
              = (q, st'))"
      by (cases "result"; cases "sf_after source")
        (auto simp: bind_state_def split: prod.splits sum.splits)
    then show thesis by (rule ran [OF b refl])
  qed
qed

lemma durable_le: "local_durable L V H m st \<Longrightarrow> n \<le> m \<Longrightarrow> local_durable L V H n st"
  by (auto simp: local_durable_def local_serving_def local_ready_def)

lemma backup_keeps:
  assumes env: "en_ops env = local_ops L pio" "en_libs env = L" and Z: "zstd_ok (lib_zstd L)" "zstd_bounded (lib_zstd L)"
    and st: "is_local st" "dom (sr_index st) = fst ` kinds (sr_store st)"
      "local_durable L V H 250001 (sr_store st)"
    and fits: "file_fits L V source opts"
    and unskipped: "bo_force opts \<or> is_file_unchanged io st source (manifest_name (sf_path source)) = Inr False"
    and run: "backup env io schedule st source opts = Some (r, st')"
  shows "dir_holds L V H (ls_dir (sr_store st'))
    \<and> (\<forall>other data. restorable V de K (sr_manifests st) other data \<longrightarrow> other \<noteq> manifest_name (sf_path source)
         \<longrightarrow> restorable V de K (sr_manifests st') other data)"
  using run unskipped
proof (cases rule: backup_cases)
  case invalid
  then show ?thesis using durable_dir [OF st(3)] by simp
next
  case (ran result s ix st1)
  let ?items = "sf_items source (chunk_config_of opts)" and ?name = "manifest_name (sf_path source)"
  have items: "items_ok L V ?items" "length ?items \<le> 250000" using fits by (simp_all add: file_fits_def)
  from backup_file_reaches [OF ran(1)] obtain len sy where
    sy: "(step (env\<lparr>en_level := 3\<rparr>))\<^sup>*\<^sup>*
       (system_init len ?items (map_option stage_new (similarity_of opts)) (sr_index st) (sr_store st)) sy"
      "s = w_store (sy_writer sy)"
    by (auto simp: pipeline_new_def default_pipeline_config_def)
  have "(any_io_step L (env\<lparr>en_level := 3\<rparr>))\<^sup>*\<^sup>*
       (system_init len ?items (map_option stage_new (similarity_of opts)) (sr_index st) (sr_store st)) sy"
    using sy(1) by (rule rtranclp_mono [THEN predicate2D, rotated]) (use env in \<open>auto intro: step_any_io\<close>)
  from interrupted_dir [OF _ Z durable_le [OF st(3)] st(2) items(1) similarity_roomy [OF items(2)] this] env(2) items(2)
  have dir: "dir_holds L V H (ls_dir s)" by (simp add: sy(2))
  have loc: "is_local st1" using st(1) by (simp add: ran(2) is_local_def)
  from ran(3) show ?thesis
  proof
    assume "st' = st1" then show ?thesis using dir ran(2) by simp
  next
    assume "\<exists>entry q. write_manifest_entry io st1 ?name entry = (q, st')"
    then obtain entry q where w: "write_manifest_entry io st1 ?name entry = (q, st')" by blast
    have "sr_store st' = s" using write_manifest_cases [OF w loc] by (simp add: ran(2))
    moreover have "sr_manifests st1 = sr_manifests st" by (simp add: ran(2))
    ultimately show ?thesis using dir write_manifest_others [OF w loc] by simp
  qed
qed

lemma delete_cases:
  assumes "delete_file io st name = (r, st')" and "is_local st"
  shows "sr_store st' = sr_store st \<and> (sr_manifests st' = sr_manifests st
    \<or> sr_manifests st' = Some (AList.delete (manifest_file name) (manifest_files st)))"
  using assms
  by (auto simp: delete_file_def delete_manifest_entry_def bind_state_def Let_def split: if_splits sum.splits)

lemma delete_others:
  assumes "delete_file io st name = (r, st')" and "is_local st"
    and "restorable V de H (sr_manifests st) other data" and "other \<noteq> name"
  shows "restorable V de H (sr_manifests st') other data"
  using delete_cases [OF assms(1,2)] assms(3,4)
  by (auto simp: restorable_def manifest_files_def delete_conv')

section \<open>The disk stays good\<close>

lemma disk_ok_created: "disk_ok L V de \<lparr>dk_packs = [], dk_manifests = None\<rparr> (\<lambda>_. None)"
  unfolding disk_ok_def dir_holds_def
  by (intro exI [of _ "{}"] conjI exI [of _ "empty_store []"])
    (simp_all add: empty_store_def local_inv_def local_fresh_def dir_complete_def kinds_def kinds_ok_def)

lemma restorable_entry:
  assumes "de bs = Some (entry_of name meta stats)" and "CHR ''/'' \<notin> set name"
    and "set (bs_chunk_hashes stats) \<subseteq> fst ` K" and "\<And>t. fm_modified meta = Some t \<Longrightarrow> t < 2 ^ 63"
  shows "restorable V de K (Some (AList.update (manifest_file name) bs files)) name (concat (map V (bs_chunk_hashes stats)))"
proof -
  have "case parse_uint (2 ^ 64) (me_modified (entry_of name meta stats)) of None \<Rightarrow> True | Some secs \<Rightarrow> secs < 2 ^ 63"
    using assms(4) show_secs_ok
    by (cases "fm_modified meta") (fastforce simp: entry_of_def parse_uint_def)+
  then show ?thesis
    unfolding restorable_def using assms(1-3)
    by (intro exI [of _ "AList.update (manifest_file name) bs files"] exI [of _ bs]
        exI [of _ "entry_of name meta stats"] exI [of _ "bs_chunk_hashes stats"])
      (simp add: update_conv' entry_of_def)
qed

lemma restorable_written:
  assumes w: "write_manifest_entry io st name (entry_of name meta stats) = (Inr (), st')" and "is_local st"
    and codec: "\<forall>e bs. so_ser io e = Some bs \<longrightarrow> so_de io bs = Some e"
    and "CHR ''/'' \<notin> set name" and "set (bs_chunk_hashes stats) \<subseteq> fst ` K"
    and "\<And>t. fm_modified meta = Some t \<Longrightarrow> t < 2 ^ 63"
  shows "restorable V (so_de io) K (sr_manifests st') name (concat (map V (bs_chunk_hashes stats)))"
proof -
  from write_manifest_cases [OF w assms(2)] obtain bs where "so_ser io (entry_of name meta stats) = Some bs"
    "sr_manifests st' = Some (AList.update (manifest_file name) bs (manifest_files st))" by auto
  then show ?thesis using restorable_entry [OF _ assms(4-6)] codec by simp
qed

lemma disk_ok_returned:
  assumes L: "libs_ok L" "packs_fit L" and Z: "zstd_ok (lib_zstd L)" "zstd_bounded (lib_zstd L)"
    and codec: "\<forall>e bs. so_ser io e = Some bs \<longrightarrow> so_de io bs = Some e"
    and ok: "disk_ok L V (so_de io) dk F" and few: "few_packs (dk_packs dk)"
    and o: "store_open_local L keyed path (Some (dk_packs dk)) (dk_manifests dk) = Inr st"
    and env: "en_ops env = local_ops L pio" "en_libs env = L"
    and fits: "file_fits L V source opts" and name: "name = manifest_name (sf_path source)"
    and unskipped: "bo_force opts \<or> is_file_unchanged io st source name = Inr False"
    and run: "backup env io schedule st source opts = Some (r, st')"
  shows "disk_ok L V (so_de io) (disk_of st')
    (F(name := if is_ok r then Some (file_bytes source opts) else untouched dk st' F name))"
proof -
  let ?items = "sf_items source (chunk_config_of opts)" and ?de = "so_de io"
  from ok obtain H where H: "dir_holds L V H (dk_packs dk)"
    "\<forall>name data. F name = Some data \<longrightarrow> restorable V ?de H (dk_manifests dk) name data"
    unfolding disk_ok_def by blast
  from reopened_serves [OF H(1) L few, of 250001 keyed path "dk_manifests dk"] o
  have st: "is_local st" "sr_manifests st = dk_manifests dk" "local_durable L V H 250001 (sr_store st)"
    "dom (sr_index st) = fst ` kinds (sr_store st)" by auto
  note keep = backup_keeps [OF env Z st(1,4,3) fits unskipped [unfolded name] run, of ?de]
  show ?thesis
  proof (cases r)
    case (Inl e)
    then show ?thesis using keep [of H] H(2) unfolding disk_ok_def
      by (intro exI [of _ H]) (auto simp: disk_of_def name st(2) untouched_def split: if_splits)
  next
    case (Inr stats)
    have items: "items_ok L V ?items" "length ?items \<le> 250000" using fits by (simp_all add: file_fits_def)
    have "local_durable L V H (length ?items + 1 + 0) (sr_store st)" by (rule durable_le [OF st(3)]) (use items(2) in simp)
    from backup_leaves_store [OF env Z st(4) this refl items unskipped [unfolded name] run [unfolded Inr] name]
    obtain s ix meta where s: "local_settled s" "local_durable L V H 0 s"
      "set (bs_chunk_hashes stats) \<subseteq> fst ` kinds s"
      "concat (map V (bs_chunk_hashes stats)) = concat (map item_data ?items)" "sf_after source = Some meta"
      and w: "write_manifest_entry io (st\<lparr>sr_store := s, sr_index := ix\<rparr>) name (entry_of name meta stats) = (Inr (), st')" .
    have kinds: "packs_kinds (ls_packs s) = kinds s" using s(1) by (simp add: local_settled_def kinds_def)
    have loc: "is_local (st\<lparr>sr_store := s, sr_index := ix\<rparr>)" using st(1) by (simp add: is_local_def)
    have st': "sr_store st' = s" using write_manifest_cases [OF w loc] by simp
    have "dir_holds L V (kinds s) (ls_dir s)"
      using dir_holds_packs [of L V s] s(2) by (simp add: kinds local_durable_def local_serving_def local_ready_def)
    moreover have "restorable V ?de (kinds s) (sr_manifests st') name (file_bytes source opts)"
      unfolding file_bytes_def s(4) [symmetric]
      by (rule restorable_written [OF w loc codec])
        (use fits s(3,5) in \<open>simp_all add: file_fits_def name manifest_name_plain\<close>)
    moreover have "\<forall>name data. F name = Some data \<longrightarrow> restorable V ?de (kinds s) (dk_manifests dk) name data"
      using H(2) s(2) restorable_mono by (fastforce simp: local_durable_def kinds)
    ultimately show ?thesis
      using keep [of "kinds s"] unfolding disk_ok_def
      by (intro exI [of _ "kinds s"]) (auto simp: disk_of_def name st(2) st' Inr split: if_splits)
  qed
qed

lemma disk_ok_killed:
  assumes L: "libs_ok L" "packs_fit L" and Z: "zstd_ok (lib_zstd L)" "zstd_bounded (lib_zstd L)"
    and ok: "disk_ok L V de dk F" and few: "few_packs (dk_packs dk)"
    and o: "store_open_local L keyed path (Some (dk_packs dk)) (dk_manifests dk) = Inr st"
    and env: "en_libs env = L" and fits: "file_fits L V source opts"
    and run: "(any_io_step L env)\<^sup>*\<^sup>* (system_init len (sf_items source (chunk_config_of opts))
          (map_option stage_new (similarity_of opts)) (sr_index st) (sr_store st)) sy"
  shows "disk_ok L V de (dk\<lparr>dk_packs := ls_dir (w_store (sy_writer sy))\<rparr>) F"
proof -
  from ok obtain H where H: "dir_holds L V H (dk_packs dk)"
    "\<forall>name data. F name = Some data \<longrightarrow> restorable V de H (dk_manifests dk) name data"
    unfolding disk_ok_def by blast
  let ?items = "sf_items source (chunk_config_of opts)"
  have items: "items_ok L V ?items" "length ?items \<le> 250000" using fits by (simp_all add: file_fits_def)
  from reopened_serves [OF H(1) L few, of "length ?items + 1" keyed path "dk_manifests dk"] o items(2)
  have st: "local_durable L V H (length ?items + 1) (sr_store st)" "dom (sr_index st) = fst ` kinds (sr_store st)"
    by auto
  from interrupted_dir [OF env Z st items(1) similarity_roomy [OF items(2)] run]
  show ?thesis using H(2) unfolding disk_ok_def by auto
qed

lemma disk_ok_deleted:
  assumes ok: "disk_ok L V de dk F"
    and o: "store_open_local L keyed path (Some (dk_packs dk)) (dk_manifests dk) = Inr st"
    and del: "delete_file io st name = (r, st')"
  shows "disk_ok L V de (disk_of st') (F(name := untouched dk st' F name))"
proof -
  from ok obtain H where H: "dir_holds L V H (dk_packs dk)"
    "\<forall>name data. F name = Some data \<longrightarrow> restorable V de H (dk_manifests dk) name data"
    unfolding disk_ok_def by blast
  from reopened [OF H(1), of keyed path "dk_manifests dk"] o
  have st: "is_local st" "sr_manifests st = dk_manifests dk" "ls_dir (sr_store st) = dk_packs dk"
    by (auto simp: local_set_index_def)
  with H delete_cases [OF del st(1)] delete_others [OF del st(1)] show ?thesis
    unfolding disk_ok_def by (intro exI [of _ H]) (auto simp: disk_of_def untouched_def split: if_splits)
qed

lemma history_disk_ok:
  assumes "libs_ok L" "packs_fit L" "zstd_ok (lib_zstd L)" "zstd_bounded (lib_zstd L)"
    and codec: "\<forall>e bs. ser e = Some bs \<longrightarrow> de bs = Some e"
    and "history L V keyed ser de dk F"
  shows "disk_ok L V de dk F"
  using assms(6)
proof (induction rule: history.induct)
  case created then show ?case by (rule disk_ok_created)
next
  case (returned dk F path st env pio io source opts name schedule r st')
  then have c: "\<forall>e bs. so_ser io e = Some bs \<longrightarrow> so_de io bs = Some e" using codec by simp
  show ?case
    using disk_ok_returned [OF assms(1-4) c _ returned.hyps(2-5) returned.hyps(8-11)] returned by blast
next
  case (killed dk F path st env source opts len sy)
  then show ?case using disk_ok_killed [OF assms(1-4) killed.IH killed.hyps(2-6)] by blast
next
  case (deleted dk F path st io name r st')
  then show ?case using disk_ok_deleted [OF deleted.IH deleted.hyps(2,3)] by blast
qed

lemma disk_ok_restores:
  assumes "libs_ok L" and "disk_ok L V (so_de io) dk F" and "F name = Some data"
    and "so_read io name" and "so_out_mkdir io" and "so_out_write io (path_join dest name) = Written"
  shows "\<exists>st out'. store_open_local L keyed path (Some (dk_packs dk)) (dk_manifests dk) = Inr st
    \<and> restore (local_ops L pio) io dest (Some name) (st, out) = (Inr (), st, out')
    \<and> map_of (rs_files out') (path_join dest name) = Some data"
proof -
  from assms(2,3) obtain H where H: "dir_holds L V H (dk_packs dk)"
    "restorable V (so_de io) H (dk_manifests dk) name data" unfolding disk_ok_def by blast
  then obtain files bs entry hs where m: "dk_manifests dk = Some files"
    "map_of files (manifest_file name) = Some bs" "so_de io bs = Some entry"
    "me_path entry = name" "CHR ''/'' \<notin> set name" "me_chunk_hashes entry = map to_hex hs"
    "set hs \<subseteq> fst ` H" "concat (map V hs) = data"
    "case parse_uint (2 ^ 64) (me_modified entry) of None \<Rightarrow> True | Some secs \<Rightarrow> secs < 2 ^ 63"
    unfolding restorable_def by blast
  from reopened_holds [OF H(1), of keyed path "dk_manifests dk"] obtain st where
    st: "store_open_local L keyed path (Some (dk_packs dk)) (dk_manifests dk) = Inr st" "is_local st"
      "sr_manifests st = dk_manifests dk"
      "\<forall>(h, k) \<in> H. local_get L (sr_index st) (sr_store st) h = Inr (V h)" by blast
  have "read_manifest_entry io st name = Inr (Some entry)"
    using m(1-3) st(2,3) assms(4) by (simp add: read_manifest_entry_def manifest_files_def)
  moreover have "read_chunks (local_ops L pio) st (me_chunk_hashes entry) [] = (Inr data, st)"
  proof -
    have "wf_hash h" if "h \<in> set hs" for h
      using that m(7) H(1) genuine_wf [OF assms(1)] by (fastforce simp: dir_holds_def)
    moreover have "cs_get (local_ops L pio) (sr_index st) (sr_store st) h = (Inr (V h), sr_store st)"
      if "h \<in> set hs" for h
      using that m(7) st(4) by (fastforce simp: local_ops_def)
    ultimately show ?thesis using read_chunks_ok [of hs "local_ops L pio" st V "[]"] m(6,8) by simp
  qed
  ultimately obtain out' where
    "restore (local_ops L pio) io dest (Some name) (st, out) = (Inr (), st, out')"
    "rs_files out' = AList.update (path_join dest name) data (rs_files out)"
    using restore_one [OF _ restore_path_named [OF m(4,5)] _ assms(5,6) m(9)] by blast
  with st(1) show ?thesis by (auto simp: update_conv')
qed

section \<open>Properties\<close>

text \<open>
  C1. What was backed up can be restored, whatever happened since: let processes open the store one
  after the other to back up files, successfully or not, to be killed in the middle of it, at any
  interleaving of the threads of the pipeline and at any point of the writing of a pack, or to delete
  files, with at most ten packs each time. A store opened afterwards restores every file that counts
  as backed up, with exactly the bytes of its last successful backup; a file stops counting only when a
  call has changed its manifest without success, or has deleted it.
\<close>

theorem history_restores:
  assumes "libs_ok L" and "packs_fit L" and "zstd_ok (lib_zstd L)" and "zstd_bounded (lib_zstd L)"
    and "\<forall>e bs. ser e = Some bs \<longrightarrow> so_de io bs = Some e"
    and "history L V keyed ser (so_de io) dk F" and "F name = Some data"
    and "so_read io name" and "so_out_mkdir io" and "so_out_write io (path_join dest name) = Written"
  shows "\<exists>st out'. store_open_local L keyed path (Some (dk_packs dk)) (dk_manifests dk) = Inr st
    \<and> restore (local_ops L pio) io dest (Some name) (st, out) = (Inr (), st, out')
    \<and> map_of (rs_files out') (path_join dest name) = Some data"
  using disk_ok_restores [OF assms(1) history_disk_ok [OF assms(1-6)] assms(7-10)] .

text \<open>The store of the demonstration, as it is opened on an empty disk.\<close>

lemma demo_opens:
  "store_open_local demo_libs demo_keyed ''d'' (Some []) None = Inr demo_empty"
proof -
  have o: "local_open demo_libs (Some []) = Inr ((empty_store [])\<lparr>ls_indexed := False\<rparr>)"
    by (simp add: local_open_def empty_store_def)
  obtain index where "populate_index demo_keyed ((empty_store [])\<lparr>ls_indexed := False\<rparr>) (hi_new 1000000) = Inr index"
    "dom (index_lookup demo_keyed index) = {}"
    using populate_ok [of demo_keyed "(empty_store [])\<lparr>ls_indexed := False\<rparr>"]
    by (auto simp: index_entries_def empty_store_def)
  with o show ?thesis
    by (simp add: store_open_local_def demo_empty_def local_set_index_def) (simp add: empty_store_def)
qed

lemma demo_fits: "file_fits demo_libs demo_value (demo_source ''a/f'' [item_a]) demo_opts"
  using demo_items by (simp add: file_fits_def demo_source_def demo_meta_def)

lemma demo_few: "few_packs []"
  by (simp add: few_packs_def)

text \<open>A backup is killed, then one of the same file succeeds.\<close>

lemma demo_history:
  "\<exists>st1. history demo_libs demo_value demo_keyed (so_ser demo_io) (so_de demo_io) (disk_of st1) [''f'' \<mapsto> chunk_a]
     \<and> sr_manifests st1 = Some [(''f.manifest'', [1])]"
proof -
  let ?src = "demo_source ''a/f'' [item_a]" and ?dk = "\<lparr>dk_packs = [], dk_manifests = None\<rparr>"
  let ?history = "history demo_libs demo_value demo_keyed (so_ser demo_io) (so_de demo_io)"
  define sy where "sy = prepare_chunk demo_env (system_init 3 [item_a] (map_option stage_new (similarity_of demo_opts))
      (sr_index demo_empty) (sr_store demo_empty)) 0 3 chunk_a []"
  have items: "sf_items ?src (chunk_config_of demo_opts) = [item_a]" by (simp add: demo_source_def)
  have env: "en_ops demo_env = local_ops demo_libs io_fine" "en_libs demo_env = demo_libs"
    by (simp_all add: demo_env_def)
  have "step demo_env (system_init 3 [item_a] (map_option stage_new (similarity_of demo_opts))
      (sr_index demo_empty) (sr_store demo_empty)) sy"
    unfolding sy_def by (rule step.prepare) (simp_all add: system_init_def)
  from step_any_io [OF env(1) this] have run: "(any_io_step demo_libs demo_env)\<^sup>*\<^sup>*
      (system_init 3 (sf_items ?src (chunk_config_of demo_opts)) (map_option stage_new (similarity_of demo_opts))
      (sr_index demo_empty) (sr_store demo_empty)) sy"
    unfolding items by blast
  have dir: "ls_dir (w_store (sy_writer sy)) = []"
    by (simp add: sy_def prepare_chunk_def Let_def system_init_def demo_empty_def empty_store_def split: prod.split)
  have o: "store_open_local demo_libs demo_keyed ''d'' (Some (dk_packs ?dk)) (dk_manifests ?dk) = Inr demo_empty"
    by (simp add: demo_opens)
  have few: "few_packs (dk_packs ?dk)" by (simp add: demo_few)
  from history.killed [OF history.created few o env(2) demo_fits run] have killed: "?history ?dk (\<lambda>_. None)"
    by (simp add: dir)
  obtain stats st1 where b: "backup demo_env demo_io demo_schedule demo_empty ?src demo_opts = Some (Inr stats, st1)"
    and ms: "sr_manifests st1 = Some [(''f.manifest'', [1])]"
    using demo_backup by blast
  have skip: "bo_force demo_opts \<or> is_file_unchanged demo_io demo_empty ?src ''f'' = Inr False"
    by (simp add: is_file_unchanged_def read_manifest_entry_def is_local_def demo_empty_def manifest_files_def)
  have name: "''f'' = manifest_name (sf_path ?src)" by (simp add: demo_source_def)
  have data: "file_bytes ?src demo_opts = chunk_a" by (simp add: file_bytes_def items)
  from history.returned [OF killed few o env refl refl demo_fits name skip b]
  have h: "?history (disk_of st1) [''f'' \<mapsto> chunk_a]" by (simp add: data)
  with ms show ?thesis by blast
qed

lemma demo_zstd: "zstd_ok (lib_zstd demo_libs)" "zstd_bounded (lib_zstd demo_libs)"
  using toy_zstd_ok toy_zstd_bounded by (simp_all add: demo_libs_def toy_libs_def)

theorem history_restores_witness:
  "\<exists>dk st out'. history demo_libs demo_value demo_keyed (so_ser demo_io) (so_de demo_io) dk [''f'' \<mapsto> chunk_a]
     \<and> store_open_local demo_libs demo_keyed ''d'' (Some (dk_packs dk)) (dk_manifests dk) = Inr st
     \<and> restore (local_ops demo_libs io_fine) demo_io ''out'' (Some ''f'') (st, \<lparr>rs_files = [], rs_mtimes = []\<rparr>)
         = (Inr (), st, out')
     \<and> map_of (rs_files out') ''out/f'' = Some chunk_a"
proof -
  obtain st1 where h: "history demo_libs demo_value demo_keyed (so_ser demo_io) (so_de demo_io) (disk_of st1) [''f'' \<mapsto> chunk_a]"
    using demo_history by blast
  have io: "so_read demo_io ''f''" "so_out_mkdir demo_io" "so_out_write demo_io (path_join ''out'' ''f'') = Written"
    by (simp_all add: demo_io_def)
  from history_restores [OF demo_libs_ok demo_packs_fit demo_zstd demo_manifest_codec [unfolded manifest_codec_ok_def] h _ io,
      where data = chunk_a and path = "''d''" and pio = io_fine and out = "\<lparr>rs_files = [], rs_mtimes = []\<rparr>"]
  show ?thesis using h by auto
qed

text \<open>
  C3. A backup that dies takes nothing with it: at every state that a backup into a local store can reach,
  while each of its flushes may fail at any point or be cut off there, the directory can be opened
  again, and every chunk that was in a pack when the backup began is read back.
\<close>

theorem backup_crash_safe:
  assumes "en_libs env = L" and "zstd_ok (lib_zstd L)" and "zstd_bounded (lib_zstd L)"
    and "local_serving L V (length items + 1) st" and "dir_complete st" and "dom ix = fst ` kinds st"
    and "items_ok L V items" and "length items \<le> 250000"
    and "(any_io_step L env)\<^sup>*\<^sup>* (system_init len items (map_option stage_new (similarity_of opts)) ix st) sy"
    and "(h, k) \<in> packs_kinds (ls_packs st)"
  shows "\<exists>st2. store_open_local L keyed path (Some (ls_dir (w_store (sy_writer sy)))) manifests = Inr st2
    \<and> local_get L (sr_index st2) (sr_store st2) h = Inr (V h)"
proof -
  have "local_durable L V {(h, k)} (length items + 1) st" using assms(4,5,10) by (simp add: local_durable_def)
  from interrupted_dir [OF assms(1-3) this assms(6,7) similarity_roomy [OF assms(8)] assms(9)]
  have "dir_holds L V {(h, k)} (ls_dir (w_store (sy_writer sy)))" .
  from reopened_holds [OF this] show ?thesis by fastforce
qed

text \<open>A store with one chunk on disk, and a backup of another chunk whose pack is cut after four bytes.\<close>

theorem backup_crash_safe_witness:
  "\<exists>st sy r st2. (hash_a, None) \<in> packs_kinds (ls_packs st)
     \<and> (step (demo_env\<lparr>en_ops := local_ops demo_libs (io_fine\<lparr>io_write := Some 4\<rparr>)\<rparr>))\<^sup>*\<^sup>*
         (system_init 2 [Chunk_Data 0 2 chunk_b] (map_option stage_new (similarity_of demo_opts))
           [hash_a \<mapsto> \<lparr>pl_pack_id = 0, pl_offset = 0, pl_length = 0, pl_orig_length = 3\<rparr>] st) sy
     \<and> sy_result sy = Some r
     \<and> store_open_local demo_libs demo_keyed ''d'' (Some (ls_dir (w_store (sy_writer sy)))) None = Inr st2
     \<and> local_get demo_libs (sr_index st2) (sr_store st2) hash_a = Inr chunk_a"
proof -
  let ?items = "[Chunk_Data 0 2 chunk_b]" and ?torn = "io_fine\<lparr>io_write := Some 4\<rparr>"
  let ?env = "demo_env\<lparr>en_ops := local_ops demo_libs ?torn\<rparr>"
  let ?ix = "[hash_a \<mapsto> \<lparr>pl_pack_id = 0, pl_offset = 0, pl_length = 0, pl_orig_length = 3\<rparr>]"
  obtain st where fl: "local_flush demo_libs io_fine demo_put = (Inr (), st)" using demo_flush_ok by blast
  have kinds: "kinds demo_put = {(hash_a, None)}"
    by (simp add: kinds_def demo_put_pending pending_kinds_def base_of_def)
  have "local_durable demo_libs demo_value {} (Suc 4) demo_put"
    using demo_put_serving by (simp add: local_durable_def dir_complete_def demo_put_pending)
  from durable_flush [OF this fl] have st: "local_serving demo_libs demo_value 4 st" "dir_complete st"
    "kinds st = {(hash_a, None)}" "local_settled st"
    by (auto simp: local_durable_def kinds)
  then have packs: "(hash_a, None) \<in> packs_kinds (ls_packs st)" by (simp add: local_settled_def kinds_def)
  have serving: "local_serving demo_libs demo_value (length ?items + 1) st"
    using st(1) by (simp add: local_serving_def local_ready_def)
  have b: "Hash (lib_blake3 demo_libs chunk_b) = hash_b" "demo_value hash_b = chunk_b" "length chunk_b = 2"
    by (simp_all add: demo_libs_def hash_b_def demo_value_def chunk_b_def chunk_a_def)
  have items: "items_ok demo_libs demo_value ?items" "length ?items \<le> 250000"
    using demo_genuine(2) by (simp_all add: items_ok_def chunk_ok_def b)
  have env: "en_libs ?env = demo_libs" "en_ops ?env = local_ops demo_libs ?torn" by (simp_all add: demo_env_def)
  have dom: "dom ?ix = fst ` kinds st" by (simp add: st(3))
  let ?init = "system_init 2 ?items (map_option stage_new (similarity_of demo_opts)) ?ix st"
  have "\<exists>ts sy r. run_schedule ?env ts ?init = Some sy \<and> sy_result sy = Some r"
    by (rule finishing_schedule [OF shut_init])
  then obtain ts sy r where ts: "run_schedule ?env ts ?init = Some sy" "sy_result sy = Some r" by blast
  have run: "(step ?env)\<^sup>*\<^sup>* ?init sy" by (rule run_schedule_steps [OF ts(1)])
  then have any: "(any_io_step demo_libs ?env)\<^sup>*\<^sup>* ?init sy"
    by (rule rtranclp_mono [THEN predicate2D, rotated]) (use env(2) in \<open>auto intro: step_any_io\<close>)
  from backup_crash_safe [OF env(1) demo_zstd serving st(2) dom items any packs, of demo_keyed "''d''" None]
  obtain st2 where st2: "store_open_local demo_libs demo_keyed ''d'' (Some (ls_dir (w_store (sy_writer sy)))) None = Inr st2"
    "local_get demo_libs (sr_index st2) (sr_store st2) hash_a = Inr (demo_value hash_a)" by blast
  have "demo_value hash_a = chunk_a" by (simp add: demo_value_def)
  with st2 packs run ts(2) show ?thesis by auto
qed

end
