(* ===== verification/Store_Open.thy ===== *)
theory Store_Open
  imports Store_Api
begin

text \<open>
  \<^verbatim>\<open>Store::open\<close> for every configuration, and the \<^verbatim>\<open>dyn ContentStore\<close> it puts into the store: the
  state of a store behind the trait object is a sum, and \<open>dyn_ops\<close> is the table that calls the
  implementation of the summand at hand. The services of \<^verbatim>\<open>opendal\<close>, the disk and the runtime are
  the record \<open>host\<close>.
\<close>

section \<open>The trait object\<close>

type_synonym any_store = "local_store + cloud_store"

definition on_left :: "'r \<times> 'a \<Rightarrow> 'r \<times> ('a + 'b)" where
  "on_left r = (fst r, Inl (snd r))"

definition on_right :: "'r \<times> 'b \<Rightarrow> 'r \<times> ('a + 'b)" where
  "on_right r = (fst r, Inr (snd r))"

definition dyn_ops :: "'a content_store \<Rightarrow> 'b content_store \<Rightarrow> ('a + 'b) content_store" where
  "dyn_ops A B =
     \<lparr>cs_put = (\<lambda>ix s h d. case s of Inl a \<Rightarrow> on_left (cs_put A ix a h d) | Inr b \<Rightarrow> on_right (cs_put B ix b h d)),
      cs_put_delta = (\<lambda>ix s h base d l. case s of Inl a \<Rightarrow> on_left (cs_put_delta A ix a h base d l)
        | Inr b \<Rightarrow> on_right (cs_put_delta B ix b h base d l)),
      cs_get = (\<lambda>ix s h. case s of Inl a \<Rightarrow> on_left (cs_get A ix a h) | Inr b \<Rightarrow> on_right (cs_get B ix b h)),
      cs_contains = (\<lambda>ix s h. case s of Inl a \<Rightarrow> cs_contains A ix a h | Inr b \<Rightarrow> cs_contains B ix b h),
      cs_put_signature = (\<lambda>s h sg. case s of Inl a \<Rightarrow> on_left (cs_put_signature A a h sg)
        | Inr b \<Rightarrow> on_right (cs_put_signature B b h sg)),
      cs_flush = (\<lambda>s. case s of Inl a \<Rightarrow> on_left (cs_flush A a) | Inr b \<Rightarrow> on_right (cs_flush B b))\<rparr>"

text \<open>If both implementations keep the contract of the trait, so does the trait object.\<close>

lemma on_left_eq [simp]: "on_left r = (x, s) \<longleftrightarrow> (\<exists>a. s = Inl a \<and> r = (x, a))"
  by (cases r) (auto simp: on_left_def)

lemma on_right_eq [simp]: "on_right r = (x, s) \<longleftrightarrow> (\<exists>b. s = Inr b \<and> r = (x, b))"
  by (cases r) (auto simp: on_right_def)

interpretation dyn_contract: content_store_contract "dyn_ops (local_ops L pio) (cloud_ops L cio)" L V
    "case_sum kinds ckinds" "\<lambda>n. case_sum (local_serving L V n) (cloud_serving L cio V n)"
    "case_sum local_settled cloud_settled"
  for L pio cio V
proof (unfold_locales, goal_cases)
  case (1 n s) then show ?case
    using local_contract.held_ok [of L V n] cloud_contract.held_ok [of L cio V n] by (cases s) simp_all
next
  case (2 n s) then show ?case
    using local_contract.ready_mono [of L V n] cloud_contract.ready_mono [of L cio V n] by (cases s) simp_all
next
  case (3 n s h k) then show ?case
    using local_contract.held_genuine [of L V n] cloud_contract.held_genuine [of L cio V n] by (cases s) simp_all
next
  case (4 n s ix h loc d) then show ?case
    using local_contract.put_known [of L V n] cloud_contract.put_known [of L cio V n]
    by (cases s) (simp_all add: dyn_ops_def)
next
  case (5 n s ix h loc b d l) then show ?case
    using local_contract.put_delta_known [of L V n] cloud_contract.put_delta_known [of L cio V n]
    by (cases s) (simp_all add: dyn_ops_def)
next
  case (6 n s ix h loc s') then show ?case
    by (cases s; clarsimp simp: dyn_ops_def)
      (rule local_contract.put_new cloud_contract.put_new; simp)+
next
  case (7 n s ix h b d l loc s') then show ?case
    by (cases s; clarsimp simp: dyn_ops_def)
      (rule local_contract.put_delta_new cloud_contract.put_delta_new; simp)+
next
  case (8 n s h sg r s') then show ?case
    by (cases s; clarsimp simp: dyn_ops_def) (rule local_contract.sign_ok cloud_contract.sign_ok; simp)+
next
  case (9 n s h ix got s') then show ?case
    by (cases s; clarsimp simp: dyn_ops_def) (rule local_contract.get_full cloud_contract.get_full; simp)+
next
  case (10 n s h k ix got s') then show ?case
    by (cases s; clarsimp simp: dyn_ops_def) (rule local_contract.get_settled cloud_contract.get_settled; simp)+
next
  case (11 n s s') then show ?case
    by (cases s; clarsimp simp: dyn_ops_def) (rule local_contract.flush_ok cloud_contract.flush_ok; simp)+
qed

section \<open>The configuration\<close>

text \<open>
  What \<^verbatim>\<open>Debug\<close> shows of a configuration: the name of the variant and its fields, as they are given
  to \<^verbatim>\<open>debug_struct\<close>.
\<close>

datatype debug_value = Debug_Text string | Debug_Option "string option"

definition config_debug :: "store_config \<Rightarrow> string \<times> (string \<times> debug_value) list" where
  "config_debug config =
     (case config of
        Local path \<Rightarrow> (''Local'', [(''path'', Debug_Text path)])
      | S3 name region endpoint access_key_id secret_access_key cache_dir \<Rightarrow>
          (''S3'', [(''bucket'', Debug_Text name), (''region'', Debug_Option region),
             (''endpoint'', Debug_Option endpoint), (''access_key_id'', Debug_Text ''<redacted>''),
             (''secret_access_key'', Debug_Text ''<redacted>''), (''cache_dir'', Debug_Option cache_dir)])
      | GCS name prefix cache_dir \<Rightarrow>
          (''GCS'', [(''bucket'', Debug_Text name), (''prefix'', Debug_Option prefix),
             (''cache_dir'', Debug_Option cache_dir)]))"

definition manifest_path :: "'s store \<Rightarrow> string \<Rightarrow> string" where
  "manifest_path st name =
     (case sr_config st of
        Local path \<Rightarrow> path_join (path_join path ''manifests'') (manifest_file name)
      | _ \<Rightarrow> ''manifests/'' @ manifest_file name)"

text \<open>The builders of the services, with the settings that have been given to them.\<close>

record s3_builder =
  sb_bucket :: string
  sb_region :: "string option"
  sb_endpoint :: "string option"
  sb_access_key_id :: "string option"
  sb_secret_access_key :: "string option"

record gcs_builder =
  gb_bucket :: string
  gb_root :: "string option"

datatype service = S3_Service s3_builder | Gcs_Service gcs_builder

definition s3_default :: s3_builder where
  "s3_default = \<lparr>sb_bucket = [], sb_region = None, sb_endpoint = None, sb_access_key_id = None,
     sb_secret_access_key = None\<rparr>"

definition gcs_default :: gcs_builder where
  "gcs_default = \<lparr>gb_bucket = [], gb_root = None\<rparr>"

definition s3_service ::
    "string \<Rightarrow> string option \<Rightarrow> string option \<Rightarrow> string option \<Rightarrow> string option \<Rightarrow> service" where
  "s3_service name region endpoint access_key_id secret_access_key =
     (let b = s3_default\<lparr>sb_bucket := name\<rparr>;
          b = (case region of Some r \<Rightarrow> b\<lparr>sb_region := Some r\<rparr> | None \<Rightarrow> b);
          b = (case endpoint of Some e \<Rightarrow> b\<lparr>sb_endpoint := Some e\<rparr> | None \<Rightarrow> b);
          b = (case access_key_id of Some k \<Rightarrow> b\<lparr>sb_access_key_id := Some k\<rparr> | None \<Rightarrow> b);
          b = (case secret_access_key of Some s \<Rightarrow> b\<lparr>sb_secret_access_key := Some s\<rparr> | None \<Rightarrow> b)
      in S3_Service b)"

definition gcs_service :: "string \<Rightarrow> string option \<Rightarrow> service" where
  "gcs_service name prefix =
     (let b = gcs_default\<lparr>gb_bucket := name\<rparr>;
          b = (case prefix of Some p \<Rightarrow> b\<lparr>gb_root := Some p\<rparr> | None \<Rightarrow> b)
      in Gcs_Service b)"

section \<open>Opening\<close>

text \<open>
  What opening finds. \<open>ho_packs\<close> and \<open>ho_manifests\<close> are the directories of a local store (\<open>None\<close>: the
  packs directory cannot be made or read; there are no manifests yet), \<open>ho_cache\<close> the files of a cache
  directory. \<open>ho_operator\<close> tells whether \<^verbatim>\<open>Operator::new\<close> accepts the settings, \<open>ho_runtime\<close> whether a
  Tokio runtime can be made, and \<open>ho_blocking\<close>, of a service, whether \<^verbatim>\<open>blocking::Operator::new\<close>
  succeeds on a thread that has entered a runtime (\<open>True\<close>) or has not (\<open>False\<close>). \<open>ho_objects\<close> and
  \<open>ho_manifest_objects\<close> are the objects of the bucket.
\<close>

record host =
  ho_packs :: "string \<Rightarrow> dir option"
  ho_manifests :: "string \<Rightarrow> dir option"
  ho_cache :: "string \<Rightarrow> dir"
  ho_operator :: "service \<Rightarrow> bool"
  ho_runtime :: bool
  ho_blocking :: "service \<Rightarrow> bool \<Rightarrow> bool"
  ho_objects :: "service \<Rightarrow> dir"
  ho_manifest_objects :: "service \<Rightarrow> dir"
  ho_io :: cloud_io

text \<open>\<^verbatim>\<open>CloudStore::open\<close>, which makes a runtime of its own and enters it.\<close>

definition cloud_store_open ::
    "libs \<Rightarrow> (bytes \<Rightarrow> bytes \<Rightarrow> bytes) \<Rightarrow> host \<Rightarrow> service \<Rightarrow> hash_index \<Rightarrow> string option
      \<Rightarrow> (cloud_store \<times> hash_index) result" where
  "cloud_store_open L keyed host svc index cache_dir =
     (if \<not> ho_runtime host then Inl (Err (Config ''failed to create tokio runtime for CloudStore''))
      else if \<not> ho_blocking host svc True then Inl (Err (Cloud ''failed to create blocking OpenDAL operator''))
      else cloud_open L keyed (ho_io host) (ho_objects host svc)
             (map_option (\<lambda>dir. ho_cache host (path_join dir ''packs'')) cache_dir) index)"

text \<open>
  The lines that follow the builder, the same for both services. \<open>entered\<close>: the thread that calls
  \<^verbatim>\<open>Store::open\<close> has entered a Tokio runtime.
\<close>

definition open_service ::
    "libs \<Rightarrow> (bytes \<Rightarrow> bytes \<Rightarrow> bytes) \<Rightarrow> host \<Rightarrow> bool \<Rightarrow> string \<Rightarrow> store_config \<Rightarrow> service \<Rightarrow> string option
      \<Rightarrow> any_store store result" where
  "open_service L keyed host entered kind config svc cache_dir =
     (if \<not> ho_operator host svc then Inl (Err (Cloud (''failed to create '' @ kind @ '' operator'')))
      else if \<not> ho_blocking host svc entered
      then Inl (Err (Cloud (''failed to create blocking '' @ kind @ '' operator'')))
      else bind_res (cloud_store_open L keyed host svc (hi_new 1000000) cache_dir) (\<lambda>(cloud, index).
      Inr \<lparr>sr_store = Inr cloud, sr_index = index_lookup keyed index, sr_config = config,
           sr_manifest_op = True, sr_manifests = Some (ho_manifest_objects host svc)\<rparr>))"

text \<open>A local store behind the trait object.\<close>

definition boxed :: "local_store store \<Rightarrow> any_store store" where
  "boxed st = \<lparr>sr_store = Inl (sr_store st), sr_index = sr_index st, sr_config = sr_config st,
     sr_manifest_op = sr_manifest_op st, sr_manifests = sr_manifests st\<rparr>"

definition store_open ::
    "libs \<Rightarrow> (bytes \<Rightarrow> bytes \<Rightarrow> bytes) \<Rightarrow> host \<Rightarrow> bool \<Rightarrow> store_config \<Rightarrow> any_store store result" where
  "store_open L keyed host entered config =
     (case config of
        Local path \<Rightarrow>
          bind_res (store_open_local L keyed path (ho_packs host path) (ho_manifests host path)) (\<lambda>st.
          Inr (boxed st))
      | S3 name region endpoint access_key_id secret_access_key cache_dir \<Rightarrow>
          open_service L keyed host entered ''S3'' config
            (s3_service name region endpoint access_key_id secret_access_key) cache_dir
      | GCS name prefix cache_dir \<Rightarrow>
          open_service L keyed host entered ''GCS'' config (gcs_service name prefix) cache_dir)"

section \<open>A boxed local store acts as the store in the box\<close>

lemma boxed_simps [simp]:
  "sr_store (boxed st) = Inl (sr_store st)" "sr_index (boxed st) = sr_index st"
  "sr_manifests (boxed st) = sr_manifests st" "is_local (boxed st) = is_local st"
  "manifest_files (boxed st) = manifest_files st" "sr_manifest_op (boxed st) = sr_manifest_op st"
  by (simp_all add: boxed_def is_local_def manifest_files_def)

lemma boxed_store: "(boxed st)\<lparr>sr_store := Inl s\<rparr> = boxed (st\<lparr>sr_store := s\<rparr>)"
  by (simp add: boxed_def)

lemma boxed_manifests:
  "read_manifest_entry io (boxed st) name = read_manifest_entry io st name"
  "list_manifest_names io (boxed st) = list_manifest_names io st"
  "chosen_names io (boxed st) file = chosen_names io st file"
proof -
  show l: "list_manifest_names io (boxed st) = list_manifest_names io st"
    by (simp add: list_manifest_names_def manifest_names_def)
  show "chosen_names io (boxed st) file = chosen_names io st file" by (simp only: chosen_names_def l)
qed (simp add: read_manifest_entry_def)

lemma boxed_list_entries: "list_entries io (boxed st) names = list_entries io st names"
  by (induction names) (simp_all add: boxed_manifests)

definition box_result :: "'r \<times> local_store store \<times> 'o \<Rightarrow> 'r \<times> any_store store \<times> 'o" where
  "box_result r = (case r of (x, st, out) \<Rightarrow> (x, boxed st, out))"

lemma boxed_get:
  "store_get (dyn_ops A B) (boxed st) h = (case store_get A st h of (got, st') \<Rightarrow> (got, boxed st'))"
  by (simp add: store_get_def dyn_ops_def on_left_def boxed_store split: prod.split)

lemma boxed_read_chunks:
  "read_chunks (dyn_ops A B) (boxed st) hashes acc
     = (case read_chunks A st hashes acc of (r, st') \<Rightarrow> (r, boxed st'))"
proof (induction hashes arbitrary: st acc)
  case (Cons x xs)
  then show ?case
    by (cases "from_hex x"; simp add: boxed_get bind_state_def split: prod.split sum.split)
qed simp

lemma boxed_restore_entry:
  "restore_entry (dyn_ops A B) io dest name entry (boxed st, out)
     = box_result (restore_entry A io dest name entry (st, out))"
  by (simp add: restore_entry_def bind_state_def on_out_def boxed_read_chunks box_result_def split: prod.split sum.split)

lemma boxed_restore_files:
  "restore_files (dyn_ops A B) io dest names (boxed st, out)
     = box_result (restore_files A io dest names (st, out))"
proof (induction names arbitrary: st out)
  case (Cons name names)
  then show ?case
    by (cases "read_manifest_entry io st name")
      (auto simp: boxed_manifests boxed_restore_entry bind_state_def box_result_def split: option.split prod.split sum.split)
qed (simp add: box_result_def)

lemma boxed_restore:
  "restore (dyn_ops A B) io dest file (boxed st, out) = box_result (restore A io dest file (st, out))"
  by (cases "chosen_names io st file")
    (simp_all add: restore_def boxed_manifests boxed_restore_files, simp_all add: box_result_def)

lemma store_open_Local:
  "store_open_local L keyed path (ho_packs host path) (ho_manifests host path) = Inr st
    \<Longrightarrow> store_open L keyed host entered (Local path) = Inr (boxed st)"
  by (simp add: store_open_def)

end
