(* ===== verification/Float_Stats.thy ===== *)
theory Float_Stats
  imports Backup_Runs "HOL-Library.Log_Nat"
begin

text \<open>
  The ratios of the statistics: \<^verbatim>\<open>dedup_ratio\<close>, \<^verbatim>\<open>space_savings_pct\<close> and \<^verbatim>\<open>near_dup_pct\<close> of
  \<^verbatim>\<open>packt-lib/src/pipeline/mod.rs\<close>, in the arithmetic of \<^verbatim>\<open>f64\<close>. All operands are finite and all
  results zero or in the normal range (quotients of 64-bit numbers, their difference to one, and
  products with 100), where an operation of \<^verbatim>\<open>f64\<close> is the exact one, rounded to 53 bits with ties
  to even.
\<close>

section \<open>Rounding\<close>

definition pow2 :: "int \<Rightarrow> rat" where
  "pow2 k = 2 powi k"

text \<open>The exponent of a positive number.\<close>

definition exponent :: "rat \<Rightarrow> int" where
  "exponent x = (case quotient_of x of (a, b) \<Rightarrow>
     let e = bitlen a - bitlen b in if pow2 e \<le> x then e else e - 1)"

definition round_half_even :: "rat \<Rightarrow> int" where
  "round_half_even x =
     (let n = \<lfloor>x\<rfloor>; r = x - of_int n
      in if r < 1 / 2 then n else if 1 / 2 < r then n + 1 else if even n then n else n + 1)"

definition round_pos :: "rat \<Rightarrow> rat" where
  "round_pos x = (let u = pow2 (exponent x - 52) in of_int (round_half_even (x / u)) * u)"

definition f64_round :: "rat \<Rightarrow> rat" where
  "f64_round x = (if x = 0 then 0 else if 0 < x then round_pos x else - round_pos (- x))"

lemma pow2_pos [simp]: "0 < pow2 k"
  by (simp add: pow2_def)

lemma pow2_nonzero [simp]: "pow2 k \<noteq> 0"
  by (simp add: pow2_def)

lemma pow2_add: "pow2 (a + b) = pow2 a * pow2 b"
  by (simp add: pow2_def power_int_add)

lemma pow2_mono: "a \<le> b \<Longrightarrow> pow2 a \<le> pow2 b"
  by (simp add: pow2_def power_int_increasing)

lemma pow2_less_D: "pow2 a < pow2 b \<Longrightarrow> a < b"
  using pow2_mono [of b a] by (metis not_le)

lemma pow2_nat: "pow2 (int n) = 2 ^ n"
  by (simp add: pow2_def)

lemma bitlen_rat:
  assumes "0 < a"
  shows "pow2 (bitlen a - 1) \<le> of_int a" and "of_int a < pow2 (bitlen a)"
proof -
  have b: "2 ^ nat (bitlen a - 1) \<le> a" "a < 2 ^ nat (bitlen a)" using bitlen_bounds [OF assms] by auto
  have n: "0 \<le> bitlen a - 1" "0 \<le> bitlen a" using bitlen_eq_zero_iff [of a] bitlen_nonneg [of a] assms by linarith+
  have p: "pow2 (bitlen a - 1) = of_int (2 ^ nat (bitlen a - 1))" "pow2 (bitlen a) = of_int (2 ^ nat (bitlen a))"
    using pow2_nat [of "nat (bitlen a - 1)"] pow2_nat [of "nat (bitlen a)"] n by simp_all
  show "pow2 (bitlen a - 1) \<le> of_int a" unfolding p by (rule of_int_le_iff [THEN iffD2]) (rule b)
  show "of_int a < pow2 (bitlen a)" unfolding p by (rule of_int_less_iff [THEN iffD2]) (rule b)
qed

lemma exponent_spec:
  assumes "0 < x"
  shows "pow2 (exponent x) \<le> x \<and> x < pow2 (exponent x + 1)"
proof -
  obtain a b where q: "quotient_of x = (a, b)" by force
  have b: "0 < b" using quotient_of_denom_pos [OF q] .
  have x: "x = of_int a / of_int b" using quotient_of_div [OF q] .
  then have a: "0 < a" using assms b by (simp add: zero_less_divide_iff)
  let ?e = "bitlen a - bitlen b"
  have "x < pow2 (bitlen a) / pow2 (bitlen b - 1)"
    unfolding x by (rule frac_less) (use bitlen_rat [OF a] bitlen_rat [OF b] a in simp_all)
  also have "\<dots> = pow2 (?e + 1)"
    using pow2_add [of "?e + 1" "bitlen b - 1"] by (simp add: eq_divide_eq)
  finally have hi: "x < pow2 (?e + 1)" .
  have "pow2 (?e - 1) = pow2 (bitlen a - 1) / pow2 (bitlen b)"
    using pow2_add [of "?e - 1" "bitlen b"] by (simp add: eq_divide_eq)
  also have "\<dots> \<le> x"
    unfolding x by (rule frac_le) (use bitlen_rat [OF a] bitlen_rat [OF b] b a in simp_all)
  finally have lo: "pow2 (?e - 1) \<le> x" .
  show ?thesis using hi lo by (simp add: exponent_def q Let_def)
qed

lemma round_half_even_of_int [simp]: "round_half_even (of_int n) = n"
  by (simp add: round_half_even_def)

lemma round_half_even_bounds: "\<lfloor>x\<rfloor> \<le> round_half_even x \<and> round_half_even x \<le> \<lfloor>x\<rfloor> + 1"
  by (simp add: round_half_even_def Let_def)

lemma round_half_even_mono:
  assumes "x \<le> y"
  shows "round_half_even x \<le> round_half_even y"
proof (cases "\<lfloor>x\<rfloor> = \<lfloor>y\<rfloor>")
  case True
  with assms show ?thesis by (simp add: round_half_even_def Let_def)
next
  case False
  then have "\<lfloor>x\<rfloor> + 1 \<le> \<lfloor>y\<rfloor>" using floor_mono [OF assms] by simp
  with round_half_even_bounds [of x] round_half_even_bounds [of y] show ?thesis by simp
qed

lemma round_pos_bounds:
  assumes "0 < x"
  shows "pow2 (exponent x) \<le> round_pos x \<and> round_pos x \<le> pow2 (exponent x + 1)"
proof -
  let ?u = "pow2 (exponent x - 52)"
  have u: "pow2 (exponent x) = of_int (2 ^ 52) * ?u" "pow2 (exponent x + 1) = of_int (2 ^ 53) * ?u"
    using pow2_add [of 52 "exponent x - 52"] pow2_add [of 53 "exponent x - 52"] pow2_nat [of 52] pow2_nat [of 53]
    by (simp_all add: add.commute)
  have "of_int (2 ^ 52) \<le> x / ?u" "x / ?u \<le> of_int (2 ^ 53)"
    using exponent_spec [OF assms] unfolding u by (simp_all add: pos_le_divide_eq pos_divide_le_eq)
  from this [THEN round_half_even_mono] have r: "2 ^ 52 \<le> round_half_even (x / ?u)" "round_half_even (x / ?u) \<le> 2 ^ 53"
    by (simp_all only: round_half_even_of_int)
  show ?thesis
    unfolding u round_pos_def Let_def
    by (intro conjI mult_right_mono) (use r in \<open>simp_all only: of_int_le_iff less_imp_le pow2_pos\<close>)
qed

lemma round_pos_mono:
  assumes "0 < x" and "x \<le> y"
  shows "round_pos x \<le> round_pos y"
proof -
  have y: "0 < y" using assms by simp
  have "pow2 (exponent x) < pow2 (exponent y + 1)"
    using exponent_spec [OF assms(1)] exponent_spec [OF y] assms(2) by simp
  then have "exponent x \<le> exponent y" by (auto dest: pow2_less_D)
  then consider "exponent x = exponent y" | "exponent x + 1 \<le> exponent y" by linarith
  then show ?thesis
  proof cases
    case 1
    then have "round_half_even (x / pow2 (exponent x - 52)) \<le> round_half_even (y / pow2 (exponent y - 52))"
      using assms(2) by (intro round_half_even_mono) (simp add: divide_right_mono less_imp_le)
    with 1 show ?thesis by (simp add: round_pos_def Let_def less_imp_le)
  next
    case 2
    from pow2_mono [OF this] round_pos_bounds [OF assms(1)] round_pos_bounds [OF y] show ?thesis by linarith
  qed
qed

lemma round_pos_pos: "0 < x \<Longrightarrow> 0 < round_pos x"
  using round_pos_bounds [of x] pow2_pos [of "exponent x"] by linarith

lemma f64_round_mono: "x \<le> y \<Longrightarrow> f64_round x \<le> f64_round y"
  using round_pos_mono [of x y] round_pos_mono [of "- y" "- x"] round_pos_pos [of y] round_pos_pos [of "- x"]
  by (auto simp: f64_round_def)

lemma f64_round_nat:
  assumes "n < 2 ^ 53"
  shows "f64_round (of_nat n) = of_nat n"
proof (cases "n = 0")
  case True then show ?thesis by (simp add: f64_round_def)
next
  case False
  then have x: "0 < (of_nat n :: rat)" by simp
  let ?e = "exponent (of_nat n)"
  have e: "pow2 ?e \<le> of_nat n" "of_nat n < pow2 (?e + 1)" using exponent_spec [OF x] by auto
  have "0 \<le> ?e"
  proof -
    have "pow2 0 \<le> of_nat n" using False by (simp add: pow2_def)
    then have "pow2 0 < pow2 (?e + 1)" using e(2) by linarith
    then show ?thesis by (auto dest: pow2_less_D)
  qed
  have "(of_nat n :: rat) < of_nat (2 ^ 53)" unfolding of_nat_less_iff by (rule assms)
  then have "pow2 ?e < pow2 53" using e(1) pow2_nat [of 53] by simp
  then have "?e \<le> 52" by (auto dest: pow2_less_D)
  then obtain k where k: "?e = 52 - int k" by (metis diff_diff_eq2 diff_add_cancel zle_iff_zadd add.commute)
  have "pow2 (- int k) * of_int (int (n * 2 ^ k)) = of_nat n"
    using pow2_nat [of k] by (simp add: pow2_def power_int_minus field_simps)
  then have q: "of_nat n / pow2 (?e - 52) = of_int (int (n * 2 ^ k))"
    by (simp add: k field_simps)
  have "round_pos (of_nat n) = of_int (int (n * 2 ^ k)) * pow2 (?e - 52)"
    unfolding round_pos_def Let_def q round_half_even_of_int ..
  also have "\<dots> = of_nat n" unfolding q [symmetric] by simp
  finally show ?thesis using x by (simp add: f64_round_def)
qed

section \<open>The ratios\<close>

text \<open>\<^verbatim>\<open>x as f64\<close> and the operations.\<close>

definition f64_of :: "u64 \<Rightarrow> rat" where
  "f64_of n = f64_round (of_nat (unat n))"

definition dedup_ratio :: "backup_stats \<Rightarrow> f64" where
  "dedup_ratio s =
     (if bs_stored_size s = 0 then Fin 1
      else Fin (f64_round (f64_of (bs_source_size s) / f64_of (bs_stored_size s))))"

definition space_savings_pct :: "backup_stats \<Rightarrow> f64" where
  "space_savings_pct s =
     (if bs_source_size s = 0 then Fin 0
      else (let q = f64_round (f64_of (bs_stored_size s) / f64_of (bs_source_size s));
                d = f64_round (1 - q)
            in Fin (f64_round (d * 100))))"

definition near_dup_pct :: "backup_stats \<Rightarrow> f64" where
  "near_dup_pct s =
     (if bs_total_chunks s = 0 then Fin 0
      else (let q = f64_round (f64_of (bs_near_duplicate_chunks s) / f64_of (bs_total_chunks s))
            in Fin (f64_round (q * 100))))"

lemma f64_of_mono: "a \<le> b \<Longrightarrow> f64_of a \<le> f64_of b"
  unfolding f64_of_def word_le_nat_alt by (rule f64_round_mono) (simp only: of_nat_le_iff)

lemma f64_round_small [simp]: "f64_round 0 = 0" "f64_round 1 = 1" "f64_round 100 = 100"
  using f64_round_nat [of 0] f64_round_nat [of 1] f64_round_nat [of 100] by simp_all

lemma f64_round_nonneg: "0 \<le> x \<Longrightarrow> 0 \<le> f64_round x"
  using f64_round_mono [of 0 x] by simp

lemma f64_of_nonneg [simp]: "0 \<le> f64_of n"
  unfolding f64_of_def by (rule f64_round_nonneg) (rule of_nat_0_le_iff)

lemma f64_of_pos: "n \<noteq> 0 \<Longrightarrow> 1 \<le> f64_of n"
  using f64_of_mono [of 1 n] by (simp add: f64_of_def word_le_nat_alt unat_gt_0 Suc_le_eq)

lemma quotient_bounds:
  assumes "a \<le> b" and "b \<noteq> 0"
  shows "0 \<le> f64_round (f64_of a / f64_of b) \<and> f64_round (f64_of a / f64_of b) \<le> 1"
proof -
  have b: "0 < f64_of b" using f64_of_pos [OF assms(2)] by linarith
  have "0 \<le> f64_of a / f64_of b" "f64_of a / f64_of b \<le> 1" using f64_of_mono [OF assms(1)] b by simp_all
  with f64_round_mono [of "f64_of a / f64_of b" 1] show ?thesis by (simp add: f64_round_nonneg)
qed

lemma percent_bounds: "0 \<le> q \<Longrightarrow> q \<le> 1 \<Longrightarrow> 0 \<le> f64_round (q * 100) \<and> f64_round (q * 100) \<le> 100"
  using f64_round_mono [of 0 "q * 100"] f64_round_mono [of "q * 100" 100] by simp

text \<open>The arithmetic of the ratios, for any statistics.\<close>

lemma ratios_bounded:
  "(bs_stored_size s \<le> bs_source_size s \<longrightarrow> f64_le (Fin 1) (dedup_ratio s) \<and> f64_le (Fin 0) (space_savings_pct s))
   \<and> f64_le (space_savings_pct s) (Fin 100)
   \<and> (bs_near_duplicate_chunks s \<le> bs_total_chunks s
        \<longrightarrow> f64_le (Fin 0) (near_dup_pct s) \<and> f64_le (near_dup_pct s) (Fin 100))"
proof (intro conjI impI)
  show "f64_le (Fin 1) (dedup_ratio s)" if le: "bs_stored_size s \<le> bs_source_size s"
  proof (cases "bs_stored_size s = 0")
    case False
    have "1 \<le> f64_of (bs_source_size s) / f64_of (bs_stored_size s)"
      using f64_of_mono [OF le] f64_of_pos [OF False] by simp
    from f64_round_mono [OF this] False show ?thesis by (simp add: dedup_ratio_def)
  qed (simp add: dedup_ratio_def)
  let ?q = "f64_round (f64_of (bs_stored_size s) / f64_of (bs_source_size s))"
  show "f64_le (Fin 0) (space_savings_pct s)" if le: "bs_stored_size s \<le> bs_source_size s"
  proof (cases "bs_source_size s = 0")
    case False
    have "0 \<le> f64_round (1 - ?q)" using quotient_bounds [OF le False] by (simp add: f64_round_nonneg)
    then show ?thesis using False by (simp add: space_savings_pct_def Let_def f64_round_nonneg)
  qed (simp add: space_savings_pct_def)
  show "f64_le (space_savings_pct s) (Fin 100)"
  proof (cases "bs_source_size s = 0")
    case False
    have "0 \<le> f64_of (bs_stored_size s) / f64_of (bs_source_size s)"
      by simp
    then have "f64_round (1 - ?q) \<le> 1" using f64_round_mono [of "1 - ?q" 1] f64_round_nonneg by simp
    then show ?thesis using f64_round_mono [of "f64_round (1 - ?q) * 100" 100] False
      by (simp add: space_savings_pct_def Let_def)
  qed (simp add: space_savings_pct_def)
  assume le: "bs_near_duplicate_chunks s \<le> bs_total_chunks s"
  show "f64_le (Fin 0) (near_dup_pct s)" "f64_le (near_dup_pct s) (Fin 100)"
    using quotient_bounds [OF le] percent_bounds by (simp_all add: near_dup_pct_def Let_def)
qed

section \<open>What a backup counts\<close>

fun item_size :: "stream_item \<Rightarrow> nat" where
  "item_size (Chunk_Data offset len data) = len"
| "item_size (Stream_Error m) = 0"

text \<open>
  The stored size is at most the length of the chunks that were read, as a chunk adds its length once
  or not at all, and at most one near duplicate is counted for each.
\<close>

definition sizes_inv :: "stream_item list \<Rightarrow> 's system \<Rightarrow> bool" where
  "sizes_inv items0 sy \<longleftrightarrow>
     (\<exists>past. items0 = past @ sy_items sy
        \<and> unat (bs_stored_size (sy_stats sy)) \<le> sum_list (map item_size past)
        \<and> unat (bs_near_duplicate_chunks (sy_stats sy)) \<le> length past)"

lemma unat_add_le: "unat (a + b :: u64) \<le> unat a + unat b"
  by (simp add: unat_word_ariths)

lemma chunk_len_le: "unat (ucast (of_nat n :: u32) :: u64) \<le> n"
  by (simp add: unsigned_ucast_eq unsigned_of_nat take_bit_nat_less_eq_self)

lemma classify_sizes:
  assumes "classify env sy h d n = (m, stage, stats)"
  shows "unat (bs_stored_size stats) \<le> unat (bs_stored_size (sy_stats sy)) + unat n
    \<and> unat (bs_near_duplicate_chunks stats) \<le> unat (bs_near_duplicate_chunks (sy_stats sy)) + 1"
proof -
  have "unat (near + 1 :: u64) \<le> unat near + 1" for near using unat_add_le [of near 1] by simp
  then show ?thesis
    using assms unat_add_le
    by (auto simp: classify_def Let_def split: if_splits option.splits prod.splits similarity_outcome.splits)
qed

lemma sizes_prepare:
  assumes "sizes_inv items0 sy" and "sy_items sy = Chunk_Data offset len d # items"
  shows "sizes_inv items0 (prepare_chunk env sy offset len d items)"
proof -
  let ?h = "Hash (lib_blake3 (en_libs env) d)" and ?n = "ucast (of_nat len :: u32)"
  obtain m stage stats where cl: "classify env sy ?h d ?n = (m, stage, stats)" by (metis prod_cases3)
  obtain past where p: "items0 = past @ sy_items sy"
    "unat (bs_stored_size (sy_stats sy)) \<le> sum_list (map item_size past)"
    "unat (bs_near_duplicate_chunks (sy_stats sy)) \<le> length past"
    using assms(1) by (auto simp: sizes_inv_def)
  have "sy_items (prepare_chunk env sy offset len d items) = items"
    "sy_stats (prepare_chunk env sy offset len d items) = stats"
    using cl by (simp_all add: prepare_chunk_def Let_def)
  with p assms(2) classify_sizes [OF cl] chunk_len_le [of len] show ?thesis
    unfolding sizes_inv_def by (intro exI [of _ "past @ [Chunk_Data offset len d]"]) auto
qed

lemma sizes_step:
  assumes "step env sy sy'" and "sizes_inv items0 sy"
  shows "sizes_inv items0 sy'"
  using assms(1)
proof cases
  case (prepare offset len d items)
  with assms(2) show ?thesis by (auto intro: sizes_prepare)
qed (use assms(2) in \<open>auto simp: sizes_inv_def after_message_def after_flush_def split: prod.split sum.split\<close>)

lemma sizes_reached:
  assumes "(step env)\<^sup>*\<^sup>* (system_init fs items stage ix s) sy"
  shows "sizes_inv items sy"
  using assms
proof (induction rule: rtranclp_induct)
  case base
  show ?case by (simp add: sizes_inv_def system_init_def default_stats_def)
qed (rule sizes_step)

section \<open>Properties\<close>

text \<open>
  C19. The ratios of every backup that succeeds stay in their range, rounding included: whatever the store,
  the similarity stage and the interleaving of the threads, when the size of the file is what was
  read of it, the ratio of deduplication is at least one, and the saving and the share of near
  duplicates are percentages.
\<close>

theorem stats_bounds:
  assumes "(step env)\<^sup>*\<^sup>* (system_init fs items stage ix s) sy" and "sy_result sy = Some (Inr stats)"
    and "unat fs = sum_list (map item_size items)" and "length items < 2 ^ 64"
  shows "f64_le (Fin 1) (dedup_ratio stats)
    \<and> f64_le (Fin 0) (space_savings_pct stats) \<and> f64_le (space_savings_pct stats) (Fin 100)
    \<and> f64_le (Fin 0) (near_dup_pct stats) \<and> f64_le (near_dup_pct stats) (Fin 100)"
proof -
  have "counts_inv env fs items sy"
    using assms(1) by (induction rule: rtranclp_induct) (auto intro: counts_inv_step counts_inv_init)
  with assms(2) have stats: "stats = final_stats sy" "sy_items sy = []"
    "bs_source_size (sy_stats sy) = fs" "sy_total_chunks sy = of_nat (length items)"
    by (auto simp: counts_inv_def)
  then have "bs_stored_size stats \<le> bs_source_size stats"
    using sizes_reached [OF assms(1)] assms(3)
    by (auto simp: sizes_inv_def final_stats_def Let_def word_le_nat_alt)
  moreover have "bs_near_duplicate_chunks stats \<le> bs_total_chunks stats"
    using sizes_reached [OF assms(1)] assms(4) stats
    by (auto simp: sizes_inv_def final_stats_def Let_def word_le_nat_alt unat_of_nat_u64)
  ultimately show ?thesis using ratios_bounded [of stats] by blast
qed

text \<open>A file that is the same chunk twice, seen the second time before the first copy is indexed.\<close>

theorem stats_bounds_witness:
  "\<exists>sy stats. (step demo_env)\<^sup>*\<^sup>* (demo_start [item_a, item_a]) sy \<and> sy_result sy = Some (Inr stats)
     \<and> bs_stored_size stats = 6 \<and> f64_le (Fin 1) (dedup_ratio stats) \<and> f64_le (Fin 0) (space_savings_pct stats)"
proof -
  obtain sy stats where r: "(step demo_env)\<^sup>*\<^sup>* (demo_start [item_a, item_a]) sy"
    "sy_result sy = Some (Inr stats)" "bs_stored_size stats = 6"
    using demo_lazy run_schedule_steps by metis
  have "unat (3 * of_nat (length [item_a, item_a]) :: u64) = sum_list (map item_size [item_a, item_a])" by simp
  from stats_bounds [OF r(1) [unfolded demo_start_def] r(2) this] r show ?thesis by auto
qed

end
