(* ===== verification/Cli.thy ===== *)
theory Cli
  imports Store_Open Float_Stats History
begin

text \<open>
  The command line: \<^verbatim>\<open>packt-cli/src\<close>. Every command opens its store by URI, calls the interface of
  the library and prints. What is printed is a list of messages with their arguments; how numbers
  are formatted is left out. Errors carry the context that \<^verbatim>\<open>anyhow\<close> puts in front of them, which is
  all that \<^verbatim>\<open>main\<close> prints. Opening is a parameter, so the definitions hold for any kind of store;
  \<open>store_open\<close> is the one of the program.
\<close>

section \<open>Results and output\<close>

datatype cli_failure = Context string packt_error | Bail string | Crashed string

type_synonym 'a cli = "cli_failure + 'a"

definition with_context :: "string \<Rightarrow> 'a result \<Rightarrow> 'a cli" where
  "with_context m r =
     (case r of
        Inr x \<Rightarrow> Inr x
      | Inl (Err e) \<Rightarrow> Inl (Context m e)
      | Inl (Panic p) \<Rightarrow> Inl (Crashed p))"

definition bind_cli :: "'a cli \<Rightarrow> ('a \<Rightarrow> 'b cli) \<Rightarrow> 'b cli" where
  "bind_cli r k = (case r of Inl e \<Rightarrow> Inl e | Inr x \<Rightarrow> k x)"

lemma bind_cli_simps [simp]: "bind_cli (Inl e) k = Inl e" "bind_cli (Inr x) k = k x"
  by (simp_all add: bind_cli_def)

lemma bind_cli_eq_Inr: "bind_cli r k = Inr y \<longleftrightarrow> (\<exists>x. r = Inr x \<and> k x = Inr y)"
  by (cases r) simp_all

lemma with_context_eq_Inr [simp]: "with_context m r = Inr x \<longleftrightarrow> r = Inr x"
  by (simp add: with_context_def split: sum.split failure.split)

datatype message =
    Unchanged_Skipped string
  | Backup_Line string f64 u64 u64 u64
  | Near_Dup_Line u64
  | Delta_Line u64 u64 u64
  | Info_Lines string nat u64 f64 usize
  | List_Head string nat
  | No_Files_Found
  | List_File string "string option" u64 nat
  | Verify_Head nat nat
  | All_Checks_Passed
  | Verify_Error string
  | Verify_Failed nat
  | No_Files_To_Migrate
  | Migrating string
  | Migrated_Chunks u64
  | Migration_Complete nat u64 string string
  | Not_Implemented string
  | Error_Line string

text \<open>What a command leaves: its result, what it printed, the store it wrote to and the files it wrote.\<close>

record 's outcome =
  oc_result :: "unit cli"
  oc_messages :: "message list"
  oc_store :: "'s store option"
  oc_out :: restored

definition no_out :: restored where
  "no_out = \<lparr>rs_files = [], rs_mtimes = []\<rparr>"

definition outcome :: "unit cli \<Rightarrow> message list \<Rightarrow> 's outcome" where
  "outcome r ms = \<lparr>oc_result = r, oc_messages = ms, oc_store = None, oc_out = no_out\<rparr>"

section \<open>Opening a store\<close>

definition open_uri ::
    "(store_config \<Rightarrow> 's store result) \<Rightarrow> string \<Rightarrow> string \<Rightarrow> string \<Rightarrow> 's store cli" where
  "open_uri opener parse_context open_context uri =
     bind_cli (with_context parse_context (config_from_uri uri)) (\<lambda>config.
     with_context open_context (opener config))"

abbreviation open_store :: "(store_config \<Rightarrow> 's store result) \<Rightarrow> string \<Rightarrow> 's store cli" where
  "open_store opener uri \<equiv> open_uri opener ''Failed to parse store URI'' ''Failed to open store'' uri"

section \<open>Commands\<close>

definition run_info :: "(store_config \<Rightarrow> 's store result) \<Rightarrow> store_io \<Rightarrow> string \<Rightarrow> 's outcome" where
  "run_info opener io uri =
     (case bind_cli (open_store opener uri) (\<lambda>st. with_context ''Failed to get store info'' (info io st)) of
        Inl e \<Rightarrow> outcome (Inl e) []
      | Inr i \<Rightarrow> outcome (Inr ())
          [Info_Lines uri (si_file_count i) (si_total_source_bytes i)
             (Fin (f64_round (f64_of (si_total_source_bytes i) / 1048576))) (si_total_chunks i)])"

definition list_line :: "file_info \<Rightarrow> message" where
  "list_line f = List_File (fi_name f)
     (if fi_modified f = [] \<or> fi_modified f = ''0'' then None else Some (fi_modified f))
     (fi_size f) (fi_chunk_count f)"

definition run_list :: "(store_config \<Rightarrow> 's store result) \<Rightarrow> store_io \<Rightarrow> string \<Rightarrow> 's outcome" where
  "run_list opener io uri =
     (case bind_cli (open_store opener uri) (\<lambda>st. with_context ''Failed to list files'' (list_files io st)) of
        Inl e \<Rightarrow> outcome (Inl e) []
      | Inr files \<Rightarrow>
          if files = [] then outcome (Inr ()) [List_Head uri (length files), No_Files_Found]
          else outcome (Inr ()) (List_Head uri (length files) # map list_line files))"

definition run_verify ::
    "'s content_store \<Rightarrow> libs \<Rightarrow> (store_config \<Rightarrow> 's store result) \<Rightarrow> store_io \<Rightarrow> string \<Rightarrow> 's outcome" where
  "run_verify S L opener io uri =
     (case bind_cli (open_store opener uri) (\<lambda>st.
             with_context ''Verification failed'' (fst (verify S L io None st))) of
        Inl e \<Rightarrow> outcome (Inl e) []
      | Inr report \<Rightarrow>
          (let head = Verify_Head (vr_files_checked report) (vr_chunks_checked report)
           in if vr_ok report then outcome (Inr ()) [head, All_Checks_Passed]
              else outcome (Inl (Bail (''Verification found '' @ show_nat (length (vr_errors report)) @ '' errors'')))
                (head # map Verify_Error (vr_errors report) @ [Verify_Failed (length (vr_errors report))])))"

definition run_restore ::
    "'s content_store \<Rightarrow> (store_config \<Rightarrow> 's store result) \<Rightarrow> store_io \<Rightarrow> string \<Rightarrow> string \<Rightarrow> string option
      \<Rightarrow> restored \<Rightarrow> 's outcome" where
  "run_restore S opener io uri dest file out =
     (case open_store opener uri of
        Inl e \<Rightarrow> (outcome (Inl e) [])\<lparr>oc_out := out\<rparr>
      | Inr st \<Rightarrow>
          (case restore S io dest file (st, out) of (r, st, out) \<Rightarrow>
             (outcome (with_context ''Failed to restore'' r) [])\<lparr>oc_out := out\<rparr>))"

text \<open>\<open>exists\<close>: whether the source is there. \<open>None\<close> when the schedule is not one of a whole run.\<close>

definition backup_lines :: "string \<Rightarrow> backup_stats \<Rightarrow> message list" where
  "backup_lines path stats =
     Backup_Line path (dedup_ratio stats) (bs_total_chunks stats) (bs_near_duplicate_chunks stats)
       (bs_delta_savings stats)
     # (if bs_near_duplicate_chunks stats > 0 then [Near_Dup_Line (bs_near_duplicate_chunks stats)] else [])
     @ (if bs_delta_compressed_chunks stats > 0
        then [Delta_Line (bs_delta_compressed_chunks stats) (bs_delta_fallbacks stats) (bs_delta_savings stats)]
        else [])"

definition run_backup ::
    "'s env \<Rightarrow> (store_config \<Rightarrow> 's store result) \<Rightarrow> store_io \<Rightarrow> thread list \<Rightarrow> bool \<Rightarrow> source_file \<Rightarrow> string
      \<Rightarrow> usize \<Rightarrow> f64 \<Rightarrow> bool \<Rightarrow> 's outcome option" where
  "run_backup env opener io schedule exists source uri chunk_size threshold force =
     (if \<not> exists then Some (outcome (Inl (Bail (''Source not found: '' @ sf_path source))) [])
      else (case open_store opener uri of
        Inl e \<Rightarrow> Some (outcome (Inl e) [])
      | Inr st \<Rightarrow>
          map_option (\<lambda>(r, st). (case with_context ''Failed to backup file'' r of
              Inl e \<Rightarrow> outcome (Inl e) []
            | Inr stats \<Rightarrow>
                if bs_total_chunks stats = 0 then outcome (Inr ()) [Unchanged_Skipped (sf_path source)]
                else outcome (Inr ()) (backup_lines (sf_path source) stats))\<lparr>oc_store := Some st\<rparr>)
            (backup env io schedule st source
               \<lparr>bo_chunk_size = chunk_size, bo_similarity_threshold = threshold, bo_force = force\<rparr>)))"

section \<open>Migration\<close>

text \<open>
  \<open>mi_tmp\<close> is the temporary directory (\<open>None\<close> when it cannot be made), \<open>mi_cdc\<close> the chunker of
  \<^verbatim>\<open>fastcdc\<close> on the bytes of a file, \<open>mi_now\<close> and \<open>mi_mode\<close> the time and the permissions of a new file,
  and \<open>mi_remove\<close> whether a file can be removed. The two stores are taken to be in different places.
\<close>

record migrate_host =
  mi_tmp :: "string option"
  mi_cdc :: "chunk_config \<Rightarrow> bytes \<Rightarrow> stream_item list"
  mi_now :: "u64 option"
  mi_mode :: u32
  mi_remove :: "string \<Rightarrow> bool"

record 's migration =
  mg_src :: "'s store"
  mg_dst :: "'s store"
  mg_out :: restored
  mg_total_files :: nat
  mg_total_bytes :: u64
  mg_messages :: "message list"

text \<open>The restored file as the source of a backup.\<close>

definition restored_meta :: "migrate_host \<Rightarrow> restored \<Rightarrow> string \<Rightarrow> bytes \<Rightarrow> file_meta" where
  "restored_meta mi out path data =
     \<lparr>fm_len = of_nat (length data),
      fm_modified = (case map_of (rs_mtimes out) path of
          Some t \<Rightarrow> if 0 \<le> t then Some (of_int t) else None
        | None \<Rightarrow> mi_now mi),
      fm_mode = mi_mode mi\<rparr>"

definition restored_source :: "migrate_host \<Rightarrow> restored \<Rightarrow> string \<Rightarrow> bytes \<Rightarrow> source_file" where
  "restored_source mi out path data =
     (let meta = restored_meta mi out path data
      in \<lparr>sf_path = path, sf_check = Some meta, sf_skip = Some meta, sf_stat = Some (fm_len meta), sf_open = True,
          sf_items = (\<lambda>config. mi_cdc mi config data), sf_after = Some meta\<rparr>)"

definition migrate_opts :: backup_opts where
  "migrate_opts = default_backup_opts\<lparr>bo_force := True\<rparr>"

definition remove_file :: "migrate_host \<Rightarrow> string \<Rightarrow> restored \<Rightarrow> restored" where
  "remove_file mi path out =
     (if mi_remove mi path
      then out\<lparr>rs_files := AList.delete path (rs_files out), rs_mtimes := AList.delete path (rs_mtimes out)\<rparr>
      else out)"

definition migrated :: "migrate_host \<Rightarrow> string \<Rightarrow> backup_stats \<Rightarrow> 's migration \<Rightarrow> 's migration" where
  "migrated mi path stats m =
     m\<lparr>mg_total_files := mg_total_files m + 1, mg_total_bytes := mg_total_bytes m + bs_source_size stats,
       mg_out := remove_file mi path (mg_out m),
       mg_messages := mg_messages m @ [Migrated_Chunks (bs_total_chunks stats)]\<rparr>"

fun migrate_files ::
    "'s content_store \<Rightarrow> 's env \<Rightarrow> store_io \<Rightarrow> migrate_host \<Rightarrow> string \<Rightarrow> (string \<Rightarrow> thread list) \<Rightarrow> string list
      \<Rightarrow> 's migration \<Rightarrow> (unit cli \<times> 's migration) option" where
  "migrate_files S env io mi tmp schedules [] m = Some (Inr (), m)"
| "migrate_files S env io mi tmp schedules (name # names) m =
     (case restore S io tmp (Some name) (mg_src m, mg_out m) of (r, src, out) \<Rightarrow>
        (let m = m\<lparr>mg_src := src, mg_out := out, mg_messages := mg_messages m @ [Migrating name]\<rparr>;
             path = path_join tmp name
         in case with_context (''Failed to restore '' @ name) r of
              Inl e \<Rightarrow> Some (Inl e, m)
            | Inr _ \<Rightarrow>
                (case map_of (rs_files out) path of
                   None \<Rightarrow> Some (Inl (Bail (''Restored file not found: '' @ path)), m)
                 | Some data \<Rightarrow>
                     Option.bind (backup env io (schedules name) (mg_dst m) (restored_source mi out path data) migrate_opts)
                       (\<lambda>(r, dst). let m = m\<lparr>mg_dst := dst\<rparr>
                         in case with_context (''Failed to backup '' @ name) r of
                              Inl e \<Rightarrow> Some (Inl e, m)
                            | Inr stats \<Rightarrow>
                                migrate_files S env io mi tmp schedules names (migrated mi path stats m)))))"

definition run_migrate ::
    "'s content_store \<Rightarrow> 's env \<Rightarrow> (store_config \<Rightarrow> 's store result) \<Rightarrow> store_io \<Rightarrow> migrate_host
      \<Rightarrow> (string \<Rightarrow> thread list) \<Rightarrow> string \<Rightarrow> string \<Rightarrow> 's outcome option" where
  "run_migrate S env opener io mi schedules source destination =
     (case bind_cli (with_context ''Failed to parse source URI'' (config_from_uri source)) (\<lambda>src_config.
           bind_cli (with_context ''Failed to parse destination URI'' (config_from_uri destination)) (\<lambda>dst_config.
           bind_cli (with_context ''Failed to open source store'' (opener src_config)) (\<lambda>src.
           bind_cli (with_context ''Failed to open destination store'' (opener dst_config)) (\<lambda>dst.
           bind_cli (with_context ''Failed to list source files'' (list_files io src)) (\<lambda>files.
           Inr (src, dst, files)))))) of
        Inl e \<Rightarrow> Some (outcome (Inl e) [])
      | Inr (src, dst, files) \<Rightarrow>
          if files = [] then Some (outcome (Inr ()) [No_Files_To_Migrate])
          else (case mi_tmp mi of
            None \<Rightarrow> Some (outcome (Inl (Context ''Failed to create temp directory'' (Io ''temp dir''))) [])
          | Some tmp \<Rightarrow>
              map_option (\<lambda>(r, m).
                (outcome r (mg_messages m @ (case r of Inl _ \<Rightarrow> []
                   | Inr _ \<Rightarrow> [Migration_Complete (mg_total_files m) (mg_total_bytes m) source destination])))
                  \<lparr>oc_store := Some (mg_dst m)\<rparr>)
                (migrate_files S env io mi tmp schedules (map fi_name files)
                   \<lparr>mg_src = src, mg_dst = dst, mg_out = no_out, mg_total_files = 0, mg_total_bytes = 0,
                    mg_messages = []\<rparr>)))"

section \<open>The program\<close>

datatype command =
    Cmd_Backup source_file string usize f64 bool
  | Cmd_List string
  | Cmd_Restore string string "string option"
  | Cmd_Info string
  | Cmd_Verify string
  | Cmd_Migrate string string
  | Cmd_Benchmark string

text \<open>
  \<open>run_command\<close> is the \<^verbatim>\<open>match\<close> of \<^verbatim>\<open>main\<close>, after the arguments have been parsed; \<open>exists\<close> and the
  schedules are those of the command, \<open>out\<close> what is at the destination of a restore.
\<close>

definition run_command ::
    "'s content_store \<Rightarrow> 's env \<Rightarrow> (store_config \<Rightarrow> 's store result) \<Rightarrow> store_io \<Rightarrow> migrate_host
      \<Rightarrow> bool \<Rightarrow> (string \<Rightarrow> thread list) \<Rightarrow> restored \<Rightarrow> command \<Rightarrow> 's outcome option" where
  "run_command S env opener io mi exists schedules out command =
     (case command of
        Cmd_Backup source destination chunk_size threshold force \<Rightarrow>
          run_backup env opener io (schedules (sf_path source)) exists source destination chunk_size threshold force
      | Cmd_List store \<Rightarrow> Some (run_list opener io store)
      | Cmd_Restore source destination file \<Rightarrow> Some (run_restore S opener io source destination file out)
      | Cmd_Info store \<Rightarrow> Some (run_info opener io store)
      | Cmd_Verify store \<Rightarrow> Some (run_verify S (en_libs env) opener io store)
      | Cmd_Migrate source destination \<Rightarrow> run_migrate S env opener io mi schedules source destination
      | Cmd_Benchmark corpus \<Rightarrow> Some (outcome (Inr ()) [Not_Implemented corpus]))"

text \<open>The exit code and everything printed; a panic ends the process with code 101.\<close>

fun failure_text :: "cli_failure \<Rightarrow> string" where
  "failure_text (Context m e) = m"
| "failure_text (Bail m) = m"
| "failure_text (Crashed m) = m"

definition main_exit :: "'s outcome \<Rightarrow> nat \<times> message list" where
  "main_exit oc =
     (case oc_result oc of
        Inr _ \<Rightarrow> (0, oc_messages oc)
      | Inl (Crashed m) \<Rightarrow> (101, oc_messages oc)
      | Inl e \<Rightarrow> (1, oc_messages oc @ [Error_Line (failure_text e)]))"

end
