(* ===== verification/Migrate.thy ===== *)
theory Migrate
  imports Cli
begin

text \<open>
  What the commands guarantee. A migration between local stores moves every file: what the
  destination then restores under a name is what the source restores under it. A cloud store cannot
  be used from the command line.
\<close>

section \<open>Backups into a boxed local store\<close>

text \<open>The contract of a local store in good order, kept by the trait object on it.\<close>

interpretation boxed_contract: content_store_contract "dyn_ops (local_ops L pio) (cloud_ops L cio)" L V
    "case_sum kinds (\<lambda>_. {})" "\<lambda>n. case_sum (local_durable L V H (n + m)) (\<lambda>_. False)"
    "case_sum local_settled (\<lambda>_. False)"
  for L pio cio V H m
proof (unfold_locales, goal_cases)
  case (1 n s) then show ?case by (cases s) (auto intro: crash_contract.held_ok)
next
  case (2 n s) then show ?case by (cases s) (auto intro: durable_le)
next
  case (3 n s h k) then show ?case by (cases s) (auto intro: crash_contract.held_genuine)
next
  case (4 n s ix h loc d) then show ?case
    using crash_contract.put_known [of L V H n m _ ix h loc pio d] by (cases s) (simp_all add: dyn_ops_def)
next
  case (5 n s ix h loc b d l) then show ?case
    using crash_contract.put_delta_known [of L V H n m _ ix h loc pio b d l] by (cases s) (simp_all add: dyn_ops_def)
next
  case (6 n s ix h loc s') then show ?case
    by (cases s; clarsimp simp: dyn_ops_def)
      (rule crash_contract.put_new [of L V H n m, simplified]; simp)
next
  case (7 n s ix h b d l loc s') then show ?case
    by (cases s; clarsimp simp: dyn_ops_def)
      (rule crash_contract.put_delta_new [of L V H n m, simplified]; simp)
next
  case (8 n s h sg r s') then show ?case
    by (cases s; clarsimp simp: dyn_ops_def) (rule crash_contract.sign_ok; simp)
next
  case (9 n s h ix got s') then show ?case
    by (cases s; clarsimp simp: dyn_ops_def) (rule crash_contract.get_full; simp)
next
  case (10 n s h k ix got s') then show ?case
    by (cases s; clarsimp simp: dyn_ops_def) (rule crash_contract.get_settled; simp)
next
  case (11 n s s') then show ?case
    by (cases s; clarsimp simp: dyn_ops_def) (rule crash_contract.flush_ok [of L V H n m, simplified]; simp)
qed

text \<open>
  \<open>dst_inv L V de n D st\<close>: the destination is a local store in good order with nothing pending and ids
  for \<open>n\<close> more packs, and can restore the files of \<open>D\<close>.
\<close>

definition dst_inv ::
    "libs \<Rightarrow> (hash \<Rightarrow> bytes) \<Rightarrow> (bytes \<Rightarrow> manifest_entry option) \<Rightarrow> nat \<Rightarrow> (string \<Rightarrow> bytes option)
      \<Rightarrow> any_store store \<Rightarrow> bool" where
  "dst_inv L V de n D st \<longleftrightarrow> is_local st
     \<and> (\<exists>lo. sr_store st = Inl lo \<and> local_durable L V {} n lo \<and> local_settled lo
          \<and> dom (sr_index st) = fst ` kinds lo
          \<and> (\<forall>name data. D name = Some data \<longrightarrow> restorable V de (kinds lo) (sr_manifests st) name data))"

lemma write_manifest_config:
  "write_manifest_entry io st name entry = (r, st') \<Longrightarrow> sr_config st' = sr_config st \<and> sr_index st' = sr_index st"
  by (cases "so_ser io entry"; cases "so_write io")
    (auto simp: write_manifest_entry_def Let_def split: if_splits)

lemma dst_backup:
  assumes env: "en_ops env = dyn_ops (local_ops L pio) (cloud_ops L cio)" "en_libs env = L"
    and Z: "zstd_ok (lib_zstd L)" "zstd_bounded (lib_zstd L)"
    and codec: "\<forall>e bs. so_ser io e = Some bs \<longrightarrow> so_de io bs = Some e"
    and fits: "file_fits L V source opts" and force: "bo_force opts"
    and inv: "dst_inv L V (so_de io) (length (sf_items source (chunk_config_of opts)) + 1 + m) D st"
    and run: "backup env io schedule st source opts = Some (Inr stats, st')"
    and name: "name = manifest_name (sf_path source)"
  shows "dst_inv L V (so_de io) m (D(name \<mapsto> file_bytes source opts)) st'"
proof -
  let ?items = "sf_items source (chunk_config_of opts)"
  from inv obtain lo where lo: "is_local st" "sr_store st = Inl lo" "local_settled lo"
    "local_durable L V {} (length ?items + 1 + m) lo" "dom (sr_index st) = fst ` kinds lo"
    "\<forall>name data. D name = Some data \<longrightarrow> restorable V (so_de io) (kinds lo) (sr_manifests st) name data"
    unfolding dst_inv_def by blast
  let ?H = "kinds lo"
  have rdy: "case_sum (local_durable L V ?H (length ?items + 1 + m)) (\<lambda>_. False) (sr_store st)"
    using lo(2-4) by (simp add: local_durable_def local_settled_def kinds_def)
  have dom: "dom (sr_index st) = fst ` case_sum kinds (\<lambda>_. {}) (sr_store st)" by (simp add: lo(2,5))
  let ?pl = "pipeline_new (default_pipeline_config
       \<lparr>pc_chunk_config := chunk_config_of opts, pc_similarity_config := similarity_of opts\<rparr>)"
  from backup_stored [OF run disjI1 [OF force]] obtain s ix meta where
    b: "backup_file env schedule ?pl (sr_store st) (sr_index st) source = Some (Inr stats, s, ix)"
    and meta: "sf_after source = Some meta"
    and w: "write_manifest_entry io (st\<lparr>sr_store := s, sr_index := ix\<rparr>) name (entry_of name meta stats) = (Inr (), st')"
    unfolding name .
  have pl: "?items = sf_items source (pc_chunk_config (bp_config ?pl))"
    "bp_similarity ?pl = map_option stage_new (similarity_of opts)"
    by (simp_all add: pipeline_new_def)
  have items: "items_ok L V ?items" "length ?items \<le> 250000" using fits by (simp_all add: file_fits_def)
  have "case bp_similarity ?pl of None \<Rightarrow> True
    | Some sm \<Rightarrow> stage_ok sm \<and> stage_roomy (length ?items) sm \<and> stage_live sm = {}"
    unfolding pl(2) by (rule similarity_roomy [OF items(2)])
  note ok = boxed_contract.backup_file_correct [OF env Z pl(1) items(1) rdy dom this b]
  then obtain lo' where lo': "s = Inl lo'" "local_settled lo'" "local_durable L V ?H m lo'"
    "dom ix = fst ` kinds lo'" "set (bs_chunk_hashes stats) \<subseteq> fst ` kinds lo'"
    "concat (map V (bs_chunk_hashes stats)) = concat (map item_data ?items)"
    by (cases s) auto
  have sub: "?H \<subseteq> kinds lo'" using lo'(3) by (auto simp: local_durable_def kinds_def)
  have loc: "is_local (st\<lparr>sr_store := s, sr_index := ix\<rparr>)" using lo(1) by (simp add: is_local_def)
  have st': "sr_store st' = Inl lo'" using write_manifest_cases [OF w loc] by (simp add: lo'(1))
  have "restorable V (so_de io) (kinds lo') (sr_manifests st') name (file_bytes source opts)"
    unfolding file_bytes_def lo'(6) [symmetric]
    by (rule restorable_written [OF w loc codec])
      (use fits meta lo'(5) in \<open>simp_all add: file_fits_def name manifest_name_plain\<close>)
  moreover have "restorable V (so_de io) (kinds lo') (sr_manifests st') other data"
    if "D other = Some data" "other \<noteq> name" for other data
    using write_manifest_others [OF w loc _ that(2)] restorable_mono [OF _ sub] lo(6) that(1) by simp
  moreover have "is_local st' \<and> dom (sr_index st') = dom ix"
    using write_manifest_config [OF w] lo(1) by (simp add: is_local_def)
  moreover have "local_durable L V {} m lo'" using lo'(3) by (simp add: local_durable_def)
  ultimately show ?thesis using lo'(2,4) st' by (simp add: dst_inv_def)
qed

section \<open>Restoring from a local source\<close>

lemma read_chunks_local: "read_chunks (local_ops L pio) st hs acc = (r, st') \<Longrightarrow> st' = st"
  by (induction hs arbitrary: acc) (auto simp: bind_state_def split: sum.splits)

text \<open>What a restore of one file writes does not depend on the files that are there.\<close>

lemma local_restore_out:
  assumes m: "read_manifest_entry io st name = Inr (Some entry)" "me_path entry = name" "CHR ''/'' \<notin> set name"
    and r: "restore (local_ops L pio) io dest (Some name) (st, out) = (Inr (), st', out')"
  shows "st' = st \<and> (\<exists>data. map_of (rs_files out') (path_join dest name) = Some data
    \<and> (\<forall>out2. \<exists>out3. restore (local_ops L pio) io dest (Some name) (st, out2) = (Inr (), st, out3)
         \<and> map_of (rs_files out3) (path_join dest name) = Some data))
    \<and> (\<forall>p t. map_of (rs_mtimes out') p = Some t \<longrightarrow> map_of (rs_mtimes out) p = Some t \<or> 0 \<le> t \<and> t < 2 ^ 63)"
proof -
  let ?p = "path_join dest name"
  have path: "restore_path dest name entry = Inr ?p" by (rule restore_path_named [OF m(2,3)])
  obtain got st1 where rc: "read_chunks (local_ops L pio) st (me_chunk_hashes entry) [] = (got, st1)" by force
  have st1: "st1 = st" using read_chunks_local [OF rc] .
  from r m(1) path rc obtain data where data: "got = Inr data" "so_out_mkdir io" "so_out_write io ?p = Written"
    "case parse_uint (2 ^ 64) (me_modified entry) of None \<Rightarrow> True | Some secs \<Rightarrow> secs < 2 ^ 63"
    by (auto simp: restore_def chosen_names_def restore_entry_def on_out_def write_out_def restore_mtime_def
        bind_state_def split: if_splits sum.splits prod.splits write_outcome.splits option.splits)
  note one = restore_one [OF m(1) path rc [unfolded st1 data(1)] data(2-4)]
  from one [of out] r have "st' = st" "rs_files out' = AList.update ?p data (rs_files out)" by auto
  moreover have "\<exists>out3. restore (local_ops L pio) io dest (Some name) (st, out2) = (Inr (), st, out3)
      \<and> map_of (rs_files out3) ?p = Some data" for out2
    using one [of out2] by (auto simp: update_conv')
  moreover have "map_of (rs_mtimes out) p = Some t \<or> 0 \<le> t \<and> t < 2 ^ 63" if "map_of (rs_mtimes out') p = Some t" for p t
    using r m(1) path rc data that
    by (auto simp: restore_def chosen_names_def restore_entry_def on_out_def write_out_def restore_mtime_def update_conv'
        split: if_splits option.splits)
  ultimately show ?thesis by (auto simp: update_conv')
qed

section \<open>The loop\<close>

text \<open>The temporary files carry times that a clock of signed seconds has.\<close>

definition times_ok :: "restored \<Rightarrow> bool" where
  "times_ok out \<longleftrightarrow> (\<forall>p t. map_of (rs_mtimes out) p = Some t \<longrightarrow> 0 \<le> t \<and> t < 2 ^ 63)"

lemma restored_time:
  assumes "times_ok out" and "\<forall>t. mi_now mi = Some t \<longrightarrow> t < 2 ^ 63"
    and "fm_modified (restored_meta mi out path data) = Some t"
  shows "t < 2 ^ 63"
proof (cases "map_of (rs_mtimes out) path")
  case None
  with assms(2,3) show ?thesis by (simp add: restored_meta_def)
next
  case (Some k)
  with assms(1) have k: "0 \<le> k" "k < 2 ^ 63" by (auto simp: times_ok_def)
  with Some assms(3) have t: "t = of_int k" by (simp add: restored_meta_def)
  have "uint (of_int k :: u64) = k mod 2 ^ 64" by (simp add: uint_word_of_int)
  also have "\<dots> = k" using k by (intro mod_pos_pos_trivial) simp_all
  finally show ?thesis using k(2) unfolding t word_less_def by simp
qed

text \<open>The bytes that a source restores for one of its files.\<close>

definition source_restores ::
    "libs \<Rightarrow> pack_io \<Rightarrow> store_io \<Rightarrow> string \<Rightarrow> local_store store \<Rightarrow> string \<Rightarrow> bytes \<Rightarrow> bool" where
  "source_restores L pio io tmp src name data \<longleftrightarrow>
     (\<exists>out. restore (local_ops L pio) io tmp (Some name) (src, no_out) = (Inr (), src, out)
        \<and> map_of (rs_files out) (path_join tmp name) = Some data)"

text \<open>What is assumed of a file of the source: it is stored under its own name, and its bytes are cut well.\<close>

definition source_ok ::
    "libs \<Rightarrow> (hash \<Rightarrow> bytes) \<Rightarrow> pack_io \<Rightarrow> store_io \<Rightarrow> migrate_host \<Rightarrow> string \<Rightarrow> local_store store \<Rightarrow> string \<Rightarrow> bool" where
  "source_ok L V pio io mi tmp src name \<longleftrightarrow>
     (\<exists>entry. read_manifest_entry io src name = Inr (Some entry) \<and> me_path entry = name)
   \<and> CHR ''/'' \<notin> set name \<and> manifest_name (path_join tmp name) = name
   \<and> (\<forall>data. source_restores L pio io tmp src name data \<longrightarrow>
        (let items = mi_cdc mi (chunk_config_of migrate_opts) data
         in items_ok L V items \<and> length items \<le> 250000 \<and> concat (map item_data items) = data))"

lemma dst_inv_le: "dst_inv L V de m D st \<Longrightarrow> n \<le> m \<Longrightarrow> dst_inv L V de n D st"
  unfolding dst_inv_def by (metis durable_le)

lemma migrate_one:
  assumes env: "en_ops env = dyn_ops (local_ops L pio) (cloud_ops L cio)" "en_libs env = L"
    and Z: "zstd_ok (lib_zstd L)" "zstd_bounded (lib_zstd L)"
    and codec: "\<forall>e bs. so_ser io e = Some bs \<longrightarrow> so_de io bs = Some e"
    and now: "\<forall>t. mi_now mi = Some t \<longrightarrow> t < 2 ^ 63" and ok: "source_ok L V pio io mi tmp src name"
    and times: "times_ok out"
    and r: "restore (dyn_ops (local_ops L pio) (cloud_ops L cio)) io tmp (Some name) (boxed src, out) = (Inr (), src', out')"
    and data: "map_of (rs_files out') (path_join tmp name) = Some data"
    and inv: "dst_inv L V (so_de io) (250001 + m) D dst"
    and b: "backup env io schedule dst (restored_source mi out' (path_join tmp name) data) migrate_opts = Some (Inr stats, dst')"
  shows "src' = boxed src \<and> times_ok out' \<and> source_restores L pio io tmp src name data
    \<and> dst_inv L V (so_de io) m (D(name \<mapsto> data)) dst'"
proof -
  let ?p = "path_join tmp name"
  obtain entry where m: "read_manifest_entry io src name = Inr (Some entry)" "me_path entry = name" "CHR ''/'' \<notin> set name"
    using ok by (auto simp: source_ok_def)
  from r obtain st where r': "restore (local_ops L pio) io tmp (Some name) (src, out) = (Inr (), st, out')" "src' = boxed st"
    by (cases "restore (local_ops L pio) io tmp (Some name) (src, out)") (auto simp: boxed_restore box_result_def)
  note lo = local_restore_out [OF m r'(1)]
  have src: "source_restores L pio io tmp src name data"
    using lo data unfolding source_restores_def by (metis option.inject)
  have t: "times_ok out'" using lo times by (auto simp: times_ok_def)
  let ?source = "restored_source mi out' ?p data" and ?items = "mi_cdc mi (chunk_config_of migrate_opts) data"
  have items: "items_ok L V ?items" "length ?items \<le> 250000" "concat (map item_data ?items) = data"
    using ok src by (simp_all add: source_ok_def Let_def)
  have fits: "file_fits L V ?source migrate_opts"
    using items(1,2) restored_time [OF t now, of ?p data] by (simp add: file_fits_def restored_source_def Let_def)
  have n: "length (sf_items ?source (chunk_config_of migrate_opts)) + 1 + m \<le> 250001 + m"
    using items(2) by (simp add: restored_source_def Let_def)
  have name: "name = manifest_name (sf_path ?source)" using ok by (simp add: source_ok_def restored_source_def Let_def)
  have "file_bytes ?source migrate_opts = data" by (simp add: file_bytes_def restored_source_def Let_def items(3))
  with dst_backup [OF env Z codec fits _ dst_inv_le [OF inv n] b name] have "dst_inv L V (so_de io) m (D(name \<mapsto> data)) dst'"
    by (simp add: migrate_opts_def)
  with lo r'(2) t src show ?thesis by simp
qed

lemma with_context_Inr [simp]: "with_context m (Inr x) = Inr x"
  by simp

lemma with_context_cases: "(\<exists>e. with_context m r = Inl e) \<or> (\<exists>x. r = Inr x \<and> with_context m r = Inr x)"
  by (auto simp: with_context_def split: sum.split failure.split)

lemma migrate_files_Cons:
  assumes "migrate_files S env io mi tmp schedules (name # names) m = Some (Inr (), m')"
    and r: "restore S io tmp (Some name) (mg_src m, mg_out m) = (r, src', out')"
  obtains data stats dst' where "r = Inr ()" "map_of (rs_files out') (path_join tmp name) = Some data"
    "backup env io (schedules name) (mg_dst m) (restored_source mi out' (path_join tmp name) data) migrate_opts
       = Some (Inr stats, dst')"
    "migrate_files S env io mi tmp schedules names (migrated mi (path_join tmp name) stats
       (m\<lparr>mg_src := src', mg_out := out', mg_messages := mg_messages m @ [Migrating name], mg_dst := dst'\<rparr>))
       = Some (Inr (), m')"
proof -
  note run = assms(1) [unfolded migrate_files.simps(2) r prod.case Let_def]
  from with_context_cases [of "''Failed to restore '' @ name" r] run have ok: "r = Inr ()" by auto
  obtain data where data: "map_of (rs_files out') (path_join tmp name) = Some data"
    using run by (cases "map_of (rs_files out') (path_join tmp name)") (auto simp: ok)
  note run2 = run [unfolded ok with_context_Inr sum.case data option.case]
  obtain q dst' where b: "backup env io (schedules name) (mg_dst m) (restored_source mi out' (path_join tmp name) data) migrate_opts
       = Some (q, dst')"
    using run2 by (auto simp: bind_eq_Some_conv)
  with with_context_cases [of "''Failed to backup '' @ name" q] run2 obtain stats where "q = Inr stats"
    "migrate_files S env io mi tmp schedules names (migrated mi (path_join tmp name) stats
       (m\<lparr>mg_src := src', mg_out := out', mg_messages := mg_messages m @ [Migrating name], mg_dst := dst'\<rparr>))
       = Some (Inr (), m')"
    by auto
  with that [OF ok data] b show thesis by simp
qed

lemma migrate_files_ok:
  assumes env: "en_ops env = dyn_ops (local_ops L pio) (cloud_ops L cio)" "en_libs env = L"
    and Z: "zstd_ok (lib_zstd L)" "zstd_bounded (lib_zstd L)"
    and codec: "\<forall>e bs. so_ser io e = Some bs \<longrightarrow> so_de io bs = Some e"
    and now: "\<forall>t. mi_now mi = Some t \<longrightarrow> t < 2 ^ 63"
  shows "migrate_files (en_ops env) env io mi tmp schedules names m = Some (Inr (), m')
    \<Longrightarrow> \<forall>name \<in> set names. source_ok L V pio io mi tmp src name
    \<Longrightarrow> mg_src m = boxed src \<Longrightarrow> times_ok (mg_out m) \<Longrightarrow> dst_inv L V (so_de io) (250001 * length names) D (mg_dst m)
    \<Longrightarrow> \<exists>D'. dst_inv L V (so_de io) 0 (D ++ D') (mg_dst m') \<and> dom D' = set names
      \<and> (\<forall>name data. D' name = Some data \<longrightarrow> source_restores L pio io tmp src name data)"
proof (induction names arbitrary: m D)
  case Nil
  then show ?case by (intro exI [of _ Map.empty]) auto
next
  case (Cons name names)
  let ?p = "path_join tmp name"
  obtain r src' out' where r: "restore (en_ops env) io tmp (Some name) (mg_src m, mg_out m) = (r, src', out')"
    by (metis prod_cases3)
  let ?m = "m\<lparr>mg_src := src', mg_out := out', mg_messages := mg_messages m @ [Migrating name]\<rparr>"
  from Cons.prems(1) r obtain data stats dst' where
    ok: "r = Inr ()" "map_of (rs_files out') ?p = Some data"
      "backup env io (schedules name) (mg_dst m) (restored_source mi out' ?p data) migrate_opts = Some (Inr stats, dst')"
    and rest: "migrate_files (en_ops env) env io mi tmp schedules names (migrated mi ?p stats (?m\<lparr>mg_dst := dst'\<rparr>)) = Some (Inr (), m')"
    by (rule migrate_files_Cons)
  have inv: "dst_inv L V (so_de io) (250001 + 250001 * length names) D (mg_dst m)" using Cons.prems(5) by simp
  have r': "restore (dyn_ops (local_ops L pio) (cloud_ops L cio)) io tmp (Some name) (boxed src, mg_out m) = (Inr (), src', out')"
    using r ok(1) env(1) Cons.prems(3) by simp
  have "source_ok L V pio io mi tmp src name" using Cons.prems(2) by simp
  note one = migrate_one [OF env Z codec now this Cons.prems(4) r' ok(2) inv ok(3)]
  let ?m2 = "migrated mi ?p stats (?m\<lparr>mg_dst := dst'\<rparr>)"
  have "times_ok (mg_out ?m2)" "mg_src ?m2 = boxed src" "mg_dst ?m2 = dst'"
    using one by (auto simp: migrated_def remove_file_def times_ok_def delete_conv' split: if_splits)
  moreover have "\<forall>name \<in> set names. source_ok L V pio io mi tmp src name" using Cons.prems(2) by simp
  moreover have "dst_inv L V (so_de io) (250001 * length names) (D(name \<mapsto> data)) (mg_dst ?m2)"
    using one \<open>mg_dst ?m2 = dst'\<close> by simp
  ultimately have "\<exists>D'. dst_inv L V (so_de io) 0 ((D(name \<mapsto> data)) ++ D') (mg_dst m') \<and> dom D' = set names
      \<and> (\<forall>name data. D' name = Some data \<longrightarrow> source_restores L pio io tmp src name data)"
    by (intro Cons.IH [OF rest])
  then obtain D' where D': "dst_inv L V (so_de io) 0 ((D(name \<mapsto> data)) ++ D') (mg_dst m')" "dom D' = set names"
      "\<forall>name data. D' name = Some data \<longrightarrow> source_restores L pio io tmp src name data" by blast
  let ?D = "[name \<mapsto> data] ++ D'"
  have "D(name \<mapsto> data) ++ D' = D ++ ?D" by (simp add: map_add_assoc [symmetric])
  then have "dst_inv L V (so_de io) 0 (D ++ ?D) (mg_dst m')" using D'(1) by simp
  moreover have "dom ?D = set (name # names)" using D'(2) by simp
  moreover have "source_restores L pio io tmp src n d" if "?D n = Some d" for n d
  proof -
    have "D' n = Some d \<or> n = name \<and> d = data" using that by (auto simp: map_add_Some_iff split: if_splits)
    with D'(3) one show ?thesis by blast
  qed
  ultimately show ?case by blast
qed

section \<open>From one store to the other\<close>

lemma boxed_list_files: "list_files io (boxed st) = list_files io st"
  by (simp add: list_files_def boxed_manifests boxed_list_entries)

text \<open>What is at a path once a command has left its store there.\<close>

definition host_after :: "host \<Rightarrow> string \<Rightarrow> any_store store \<Rightarrow> host" where
  "host_after host path st =
     (case sr_store st of
        Inl lo \<Rightarrow> host\<lparr>ho_packs := (ho_packs host)(path := Some (ls_dir lo)),
                      ho_manifests := (ho_manifests host)(path := sr_manifests st)\<rparr>
      | Inr _ \<Rightarrow> host)"

lemma dst_inv_opened:
  assumes L: "libs_ok L" "packs_fit L" and disk: "disk_ok L V de dk F" "few_packs (dk_packs dk)" and n: "n + 10 < 2 ^ 32"
    and host: "ho_packs host path = Some (dk_packs dk)" "ho_manifests host path = dk_manifests dk"
  shows "\<exists>st. store_open L keyed host entered (Local path) = Inr st \<and> dst_inv L V de n F st"
proof -
  from disk(1) obtain H where H: "dir_holds L V H (dk_packs dk)"
    "\<forall>name data. F name = Some data \<longrightarrow> restorable V de H (dk_manifests dk) name data"
    unfolding disk_ok_def by blast
  from reopened_serves [OF H(1) L disk(2) n, of keyed path "dk_manifests dk"] obtain st where
    st: "store_open_local L keyed path (Some (dk_packs dk)) (dk_manifests dk) = Inr st" "is_local st"
      "sr_manifests st = dk_manifests dk" "local_durable L V H n (sr_store st)"
      "dom (sr_index st) = fst ` kinds (sr_store st)" "local_settled (sr_store st)" by blast
  have "H \<subseteq> kinds (sr_store st)" using st(4) by (auto simp: local_durable_def kinds_def)
  then have "\<forall>name data. F name = Some data \<longrightarrow> restorable V de (kinds (sr_store st)) (dk_manifests dk) name data"
    using H(2) restorable_mono by blast
  moreover have "local_durable L V {} n (sr_store st)" using st(4) by (simp add: local_durable_def)
  ultimately have "dst_inv L V de n F (boxed st)" using st by (simp add: dst_inv_def)
  moreover have "store_open L keyed host entered (Local path) = Inr (boxed st)"
    by (rule store_open_Local) (simp add: host st(1))
  ultimately show ?thesis by blast
qed

lemma dst_inv_restores:
  assumes L: "libs_ok L" and inv: "dst_inv L V (so_de io) n F st" and F: "F name = Some data"
    and io: "so_read io name" "so_out_mkdir io" "so_out_write io (path_join dest name) = Written"
  shows "\<exists>st2 out'. store_open L keyed (host_after host path st) entered (Local path) = Inr st2
    \<and> restore (dyn_ops (local_ops L pio) B) io dest (Some name) (st2, out) = (Inr (), st2, out')
    \<and> map_of (rs_files out') (path_join dest name) = Some data"
proof -
  from inv obtain lo where lo: "sr_store st = Inl lo" "local_durable L V {} n lo" "local_settled lo"
    "\<forall>name data. F name = Some data \<longrightarrow> restorable V (so_de io) (kinds lo) (sr_manifests st) name data"
    unfolding dst_inv_def by blast
  have "packs_kinds (ls_packs lo) = kinds lo" using lo(3) by (simp add: local_settled_def kinds_def)
  then have "dir_holds L V (kinds lo) (ls_dir lo)"
    using dir_holds_packs [of L V lo] lo(2) by (simp add: local_durable_def local_serving_def local_ready_def)
  then have disk: "disk_ok L V (so_de io) \<lparr>dk_packs = ls_dir lo, dk_manifests = sr_manifests st\<rparr> F"
    using lo(4) unfolding disk_ok_def by auto
  from disk_ok_restores [OF L disk F io, of keyed path pio out] obtain st1 out' where
    st1: "store_open_local L keyed path (Some (ls_dir lo)) (sr_manifests st) = Inr st1"
      "restore (local_ops L pio) io dest (Some name) (st1, out) = (Inr (), st1, out')"
      "map_of (rs_files out') (path_join dest name) = Some data" by auto
  have "store_open L keyed (host_after host path st) entered (Local path) = Inr (boxed st1)"
    by (rule store_open_Local) (simp add: host_after_def lo(1) st1(1))
  with st1(2,3) show ?thesis by (auto simp: boxed_restore box_result_def)
qed

section \<open>Properties\<close>

text \<open>
  C4. A migration that ends with success has moved everything: let the source and the destination be local
  stores in different places, the destination one that restores the files of \<open>F\<close>. If the command
  returns without an error, then a store opened at the destination afterwards restores under the name
  of every file of the source the bytes that the source restores for it, and under every other name
  what it restored before.
\<close>

theorem migrate_preserves:
  assumes "en_ops env = dyn_ops (local_ops L pio) (cloud_ops L cio)" and "en_libs env = L"
    and "libs_ok L" and "packs_fit L" and "zstd_ok (lib_zstd L)" and "zstd_bounded (lib_zstd L)"
    and "\<forall>e bs. so_ser io e = Some bs \<longrightarrow> so_de io bs = Some e"
    and "\<forall>t. mi_now mi = Some t \<longrightarrow> t < 2 ^ 63" and "mi_tmp mi = Some tmp"
    and "config_from_uri source = Inr (Local src_path)" and "config_from_uri destination = Inr (Local dst_path)"
    and "store_open_local L keyed src_path (ho_packs host src_path) (ho_manifests host src_path) = Inr src"
    and "list_files io src = Inr files" and "files \<noteq> []" and "length files \<le> 17000"
    and "\<forall>f \<in> set files. source_ok L V pio io mi tmp src (fi_name f)"
    and "ho_packs host dst_path = Some (dk_packs dk)" and "ho_manifests host dst_path = dk_manifests dk"
    and "disk_ok L V (so_de io) dk F" and "few_packs (dk_packs dk)"
    and "run_migrate (en_ops env) env (store_open L keyed host False) io mi schedules source destination = Some oc"
    and "oc_result oc = Inr ()"
  shows "\<exists>st D. oc_store oc = Some st \<and> dom D = fi_name ` set files
    \<and> (\<forall>name data. D name = Some data \<longrightarrow> source_restores L pio io tmp src name data)
    \<and> (\<forall>name data dest out. (F ++ D) name = Some data \<longrightarrow> so_read io name \<longrightarrow> so_out_mkdir io
         \<longrightarrow> so_out_write io (path_join dest name) = Written
         \<longrightarrow> (\<exists>st2 out'. store_open L keyed (host_after host dst_path st) False (Local dst_path) = Inr st2
               \<and> restore (en_ops env) io dest (Some name) (st2, out) = (Inr (), st2, out')
               \<and> map_of (rs_files out') (path_join dest name) = Some data))"
proof -
  let ?n = "250001 * length (map fi_name files)"
  have n: "?n + 10 < 2 ^ 32" using assms(15) by simp
  from dst_inv_opened [OF assms(3,4,19,20) n assms(17,18), of keyed False] obtain dst where
    dst: "store_open L keyed host False (Local dst_path) = Inr dst" "dst_inv L V (so_de io) ?n F dst" by blast
  have src: "store_open L keyed host False (Local src_path) = Inr (boxed src)"
    by (rule store_open_Local) (rule assms(12))
  let ?m = "\<lparr>mg_src = boxed src, mg_dst = dst, mg_out = no_out, mg_total_files = 0, mg_total_bytes = 0, mg_messages = []\<rparr>"
  from assms(21,22) obtain m' where
    run: "migrate_files (en_ops env) env io mi tmp schedules (map fi_name files) ?m = Some (Inr (), m')"
    and oc: "oc_store oc = Some (mg_dst m')"
    by (auto simp: run_migrate_def assms(9-11,13,14) src dst(1) boxed_list_files outcome_def split: if_splits)
  have names: "\<forall>name \<in> set (map fi_name files). source_ok L V pio io mi tmp src name" using assms(16) by simp
  have "times_ok (mg_out ?m)" by (simp add: times_ok_def no_out_def)
  from migrate_files_ok [OF assms(1,2,5-8) run names _ this, where D = F] dst(2) obtain D where
    D: "dst_inv L V (so_de io) 0 (F ++ D) (mg_dst m')" "dom D = set (map fi_name files)"
      "\<forall>name data. D name = Some data \<longrightarrow> source_restores L pio io tmp src name data" by auto
  show ?thesis
    using oc D(2,3) dst_inv_restores [OF assms(3) D(1)] unfolding assms(1)
    by (intro exI [of _ "mg_dst m'"] exI [of _ D]) simp
qed

text \<open>A source with one file, and an empty destination.\<close>

definition demo_dyn_env :: "any_store env" where
  "demo_dyn_env = \<lparr>en_ops = dyn_ops (local_ops demo_libs io_fine) (cloud_ops demo_libs demo_cloud_io),
     en_libs = demo_libs, en_level = 3, en_xxh3 = (\<lambda>_. 0), en_ser_sig = (\<lambda>_. None)\<rparr>"

definition demo_migrate_host :: migrate_host where
  "demo_migrate_host = \<lparr>mi_tmp = Some ''a'', mi_cdc = (\<lambda>_ data. if data = chunk_a then [item_a] else []),
     mi_now = None, mi_mode = 420, mi_remove = (\<lambda>_. True)\<rparr>"

lemma demo_dyn_run:
  "\<exists>sy stats. run_schedule demo_dyn_env demo_schedule
      (system_init 3 [item_a] (Some stage) (\<lambda>_. None) (Inl (empty_store []))) = Some sy
     \<and> sy_result sy = Some (Inr stats) \<and> bs_chunk_hashes stats = [hash_a]"
  using demo_flush_ok
  by (auto simp: demo_run_simps demo_dyn_env_def dyn_ops_def on_left_def stage_process_def hash_a_def)

lemma demo_config: "config_from_uri ''s'' = Inr (Local ''s'')" "config_from_uri ''d'' = Inr (Local ''d'')"
  by (simp_all add: config_from_uri_def starts_with_def)

lemma demo_tmp: "path_join ''a'' ''f'' = ''a/f''" "manifest_name ''a/f'' = ''f''"
  by (simp_all add: path_join_def)

text \<open>Backing up the restored file.\<close>

lemma demo_migrate_backup:
  assumes "map_of (rs_mtimes out) ''a/f'' = Some 7"
  shows "\<exists>stats dst. backup demo_dyn_env demo_io demo_schedule (boxed demo_empty)
    (restored_source demo_migrate_host out ''a/f'' chunk_a) migrate_opts = Some (Inr stats, dst)"
proof -
  let ?source = "restored_source demo_migrate_host out ''a/f'' chunk_a"
  obtain cfg where sim: "similarity_of migrate_opts = Some cfg"
    by (simp add: similarity_of_def migrate_opts_def default_backup_opts_def f64_less_def lit_0_70_def)
  obtain sy stats where sy: "run_schedule demo_dyn_env demo_schedule
      (system_init 3 [item_a] (Some (stage_new cfg)) (\<lambda>_. None) (Inl (empty_store []))) = Some sy"
    "sy_result sy = Some (Inr stats)" "bs_chunk_hashes stats = [hash_a]"
    using demo_dyn_run by blast
  have env: "demo_dyn_env\<lparr>en_level := 3\<rparr> = demo_dyn_env" by (simp add: demo_dyn_env_def)
  have valid: "validate (chunk_config_of migrate_opts)"
    by (simp add: validate_def chunk_config_of_def migrate_opts_def default_backup_opts_def)
  have meta: "restored_meta demo_migrate_host out ''a/f'' chunk_a = demo_meta"
    using assms by (simp add: restored_meta_def demo_meta_def demo_migrate_host_def chunk_a_def)
  have source: "sf_items ?source c = [item_a]" "sf_stat ?source = Some 3" "sf_open ?source"
    "sf_after ?source = Some demo_meta" "sf_path ?source = ''a/f''" for c
    by (simp_all add: restored_source_def Let_def meta) (simp_all add: demo_migrate_host_def demo_meta_def)
  have run: "backup_file demo_dyn_env demo_schedule (pipeline_new (default_pipeline_config
       \<lparr>pc_chunk_config := chunk_config_of migrate_opts, pc_similarity_config := similarity_of migrate_opts\<rparr>))
       (Inl (empty_store [])) (\<lambda>_. None) ?source = Some (Inr stats, w_store (sy_writer sy), w_index (sy_writer sy))"
    unfolding sim using sy(2)
    by (simp add: backup_file_def source pipeline_new_def default_pipeline_config_def env sy(1) del: run_schedule.simps)
  have "entry_of ''f'' demo_meta stats = demo_entry"
    by (simp add: entry_of_def demo_meta_def demo_entry_def perm_def sy(3))
  then have "\<exists>dst. write_manifest_entry demo_io st ''f'' (entry_of ''f'' demo_meta stats) = (Inr (), dst)"
    if "is_local st" for st :: "any_store store"
    using that by (simp add: write_manifest_entry_def demo_io_def)
  moreover have "sr_index demo_empty = (\<lambda>_. None)" "sr_store demo_empty = empty_store []" "is_local demo_empty"
    by (simp_all add: demo_empty_def is_local_def)
  moreover have "is_local (st\<lparr>sr_store := s, sr_index := ix\<rparr>) = is_local st" for st :: "any_store store" and s ix
    by (simp add: is_local_def)
  ultimately show ?thesis
    using valid run by (simp add: backup_def Let_def source demo_tmp(2))
      (simp add: migrate_opts_def, metis boxed_simps(4) bind_state_simps(2))
qed

definition demo_file :: file_info where
  "demo_file = \<lparr>fi_name = ''f'', fi_size = 3, fi_modified = show_secs 7, fi_chunk_count = 1\<rparr>"

text \<open>The store that the demonstration of the history leaves, opened again.\<close>

lemma demo_source_store:
  "\<exists>packs src out. store_open_local demo_libs demo_keyed ''s'' (Some packs) (Some [(''f.manifest'', [1])]) = Inr src
     \<and> list_files demo_io src = Inr [demo_file]
     \<and> read_manifest_entry demo_io src ''f'' = Inr (Some demo_entry)
     \<and> restore (local_ops demo_libs io_fine) demo_io ''a'' (Some ''f'') (src, no_out) = (Inr (), src, out)
     \<and> map_of (rs_files out) ''a/f'' = Some chunk_a \<and> map_of (rs_mtimes out) ''a/f'' = Some 7"
proof -
  obtain st1 where h: "history demo_libs demo_value demo_keyed (so_ser demo_io) (so_de demo_io) (disk_of st1) [''f'' \<mapsto> chunk_a]"
    and ms: "sr_manifests st1 = Some [(''f.manifest'', [1])]" using demo_history by blast
  note disk = history_disk_ok [OF demo_libs_ok demo_packs_fit demo_zstd demo_manifest_codec [unfolded manifest_codec_ok_def] h]
  have io: "so_read demo_io ''f''" "so_out_mkdir demo_io" "so_out_write demo_io (path_join ''a'' ''f'') = Written"
    by (simp_all add: demo_io_def)
  have F: "[''f'' \<mapsto> chunk_a] ''f'' = Some chunk_a" by simp
  have dm: "dk_manifests (disk_of st1) = Some [(''f.manifest'', [1])]" by (simp add: disk_of_def ms)
  from disk_ok_restores [OF demo_libs_ok disk F io, of demo_keyed "''s''" io_fine no_out] obtain src out where
    o: "store_open_local demo_libs demo_keyed ''s'' (Some (dk_packs (disk_of st1))) (Some [(''f.manifest'', [1])]) = Inr src"
    and r: "restore (local_ops demo_libs io_fine) demo_io ''a'' (Some ''f'') (src, no_out) = (Inr (), src, out)"
      "map_of (rs_files out) (path_join ''a'' ''f'') = Some chunk_a" unfolding dm by blast
  from o have src: "sr_manifests src = Some [(''f.manifest'', [1])]" "is_local src"
    by (auto simp: store_open_local_def is_local_def bind_res_eq_Inr)
  have entry: "read_manifest_entry demo_io src ''f'' = Inr (Some demo_entry)"
    by (simp add: read_manifest_entry_def src manifest_files_def manifest_file_def) (simp add: demo_io_def)
  have names: "list_manifest_names demo_io src = Inr [''f'']"
    by (simp add: list_manifest_names_def manifest_names_def src manifest_files_def map_filter_simps strip_suffix_def)
      (simp add: demo_io_def)
  have files: "list_files demo_io src = Inr [demo_file]"
    by (simp add: list_files_def names entry) (simp add: demo_entry_def demo_file_def)
  have "restore_path ''a'' ''f'' demo_entry = Inr (path_join ''a'' ''f'')"
    by (rule restore_path_named) (simp_all add: demo_entry_def)
  moreover have "parse_uint (2 ^ 64) (me_modified demo_entry) = Some 7"
    using show_secs_ok [of 7] by (simp add: demo_entry_def)
  ultimately have "map_of (rs_mtimes out) ''a/f'' = Some 7"
    using r(1) entry demo_tmp(1) by (auto simp: update_conv' restore_def chosen_names_def restore_entry_def on_out_def write_out_def restore_mtime_def bind_state_def demo_io_def
        split: sum.splits prod.splits)
  then show ?thesis using o r entry files demo_tmp(1) by auto
qed

definition demo_host :: "dir \<Rightarrow> host" where
  "demo_host packs = \<lparr>ho_packs = [''s'' \<mapsto> packs, ''d'' \<mapsto> []], ho_manifests = [''s'' \<mapsto> [(''f.manifest'', [1])]],
     ho_cache = (\<lambda>_. []), ho_operator = (\<lambda>_. True), ho_runtime = True, ho_blocking = (\<lambda>_ entered. entered),
     ho_objects = (\<lambda>_. []), ho_manifest_objects = (\<lambda>_. []), ho_io = demo_cloud_io\<rparr>"

text \<open>The command on it.\<close>

lemma demo_migration:
  assumes o: "store_open_local demo_libs demo_keyed ''s'' (Some packs) (Some [(''f.manifest'', [1])]) = Inr src"
    and fi: "list_files demo_io src = Inr [fi]" "fi_name fi = ''f''"
    and r: "restore (local_ops demo_libs io_fine) demo_io ''a'' (Some ''f'') (src, no_out) = (Inr (), src, out)"
    and out: "map_of (rs_files out) ''a/f'' = Some chunk_a" "map_of (rs_mtimes out) ''a/f'' = Some 7"
  shows "\<exists>oc. run_migrate (en_ops demo_dyn_env) demo_dyn_env (store_open demo_libs demo_keyed (demo_host packs) False)
      demo_io demo_migrate_host (\<lambda>_. demo_schedule) ''s'' ''d'' = Some oc \<and> oc_result oc = Inr ()"
proof -
  have src: "store_open demo_libs demo_keyed (demo_host packs) False (Local ''s'') = Inr (boxed src)"
    by (rule store_open_Local) (simp add: demo_host_def o)
  have dst: "store_open demo_libs demo_keyed (demo_host packs) False (Local ''d'') = Inr (boxed demo_empty)"
    by (rule store_open_Local) (simp add: demo_host_def demo_opens)
  have "restore (en_ops demo_dyn_env) demo_io ''a'' (Some ''f'') (boxed src, no_out) = (Inr (), boxed src, out)"
    by (simp add: demo_dyn_env_def boxed_restore r box_result_def)
  moreover obtain stats st where
    "backup demo_dyn_env demo_io demo_schedule (boxed demo_empty) (restored_source demo_migrate_host out ''a/f'' chunk_a) migrate_opts
       = Some (Inr stats, st)" using demo_migrate_backup [OF out(2)] by blast
  ultimately show ?thesis
    by (simp add: run_migrate_def demo_config src dst boxed_list_files fi demo_migrate_host_def [THEN arg_cong [where f = mi_tmp], simplified]
        demo_tmp out(1) outcome_def)
qed

lemma demo_facts:
  "en_ops demo_dyn_env = dyn_ops (local_ops demo_libs io_fine) (cloud_ops demo_libs demo_cloud_io)"
  "en_libs demo_dyn_env = demo_libs" "mi_tmp demo_migrate_host = Some ''a''"
  "\<forall>t. mi_now demo_migrate_host = Some t \<longrightarrow> t < 2 ^ 63" "fi_name demo_file = ''f''"
  "so_read demo_io ''f''" "so_out_mkdir demo_io" "so_out_write demo_io (path_join ''out'' ''f'') = Written"
  by (simp_all add: demo_dyn_env_def demo_migrate_host_def demo_file_def demo_io_def)

lemma demo_source_ok:
  assumes "read_manifest_entry demo_io src ''f'' = Inr (Some demo_entry)"
    and "restore (local_ops demo_libs io_fine) demo_io ''a'' (Some ''f'') (src, no_out) = (Inr (), src, out)"
    and "map_of (rs_files out) ''a/f'' = Some chunk_a"
  shows "source_restores demo_libs io_fine demo_io ''a'' src ''f'' data \<longleftrightarrow> data = chunk_a"
    and "\<forall>f \<in> set [demo_file]. source_ok demo_libs demo_value io_fine demo_io demo_migrate_host ''a'' src (fi_name f)"
proof -
  show r: "source_restores demo_libs io_fine demo_io ''a'' src ''f'' data \<longleftrightarrow> data = chunk_a" for data
    using assms(3) by (auto simp: source_restores_def assms(2) demo_tmp(1))
  have "items_ok demo_libs demo_value [item_a]" using demo_items by simp
  then have "source_ok demo_libs demo_value io_fine demo_io demo_migrate_host ''a'' src ''f''"
    using assms(1) by (simp add: source_ok_def r demo_tmp demo_migrate_host_def Let_def demo_entry_def)
  then show "\<forall>f \<in> set [demo_file]. source_ok demo_libs demo_value io_fine demo_io demo_migrate_host ''a'' src (fi_name f)"
    by (simp add: demo_facts(5))
qed

theorem migrate_preserves_witness:
  "\<exists>host oc st st2 out'. run_migrate (en_ops demo_dyn_env) demo_dyn_env (store_open demo_libs demo_keyed host False)
       demo_io demo_migrate_host (\<lambda>_. demo_schedule) ''s'' ''d'' = Some oc
     \<and> oc_result oc = Inr () \<and> oc_store oc = Some st
     \<and> store_open demo_libs demo_keyed (host_after host ''d'' st) False (Local ''d'') = Inr st2
     \<and> restore (en_ops demo_dyn_env) demo_io ''out'' (Some ''f'') (st2, no_out) = (Inr (), st2, out')
     \<and> map_of (rs_files out') ''out/f'' = Some chunk_a"
proof -
  obtain packs src out where
    o: "store_open_local demo_libs demo_keyed ''s'' (Some packs) (Some [(''f.manifest'', [1])]) = Inr src"
    and fi: "list_files demo_io src = Inr [demo_file]"
    and entry: "read_manifest_entry demo_io src ''f'' = Inr (Some demo_entry)"
    and r: "restore (local_ops demo_libs io_fine) demo_io ''a'' (Some ''f'') (src, no_out) = (Inr (), src, out)"
    and out: "map_of (rs_files out) ''a/f'' = Some chunk_a" "map_of (rs_mtimes out) ''a/f'' = Some 7"
    using demo_source_store by blast
  note ok = demo_source_ok [OF entry r out(1)]
  have len: "[demo_file] \<noteq> []" "length [demo_file] \<le> 17000" by simp_all
  let ?host = "demo_host packs" and ?dk = "\<lparr>dk_packs = [], dk_manifests = None\<rparr>"
  from demo_migration [OF o fi demo_facts(5) r out] obtain oc where
    run: "run_migrate (en_ops demo_dyn_env) demo_dyn_env (store_open demo_libs demo_keyed ?host False)
      demo_io demo_migrate_host (\<lambda>_. demo_schedule) ''s'' ''d'' = Some oc" "oc_result oc = Inr ()" by auto
  have o': "store_open_local demo_libs demo_keyed ''s'' (ho_packs ?host ''s'') (ho_manifests ?host ''s'') = Inr src"
    by (simp add: demo_host_def o)
  have dk: "ho_packs ?host ''d'' = Some (dk_packs ?dk)" "ho_manifests ?host ''d'' = dk_manifests ?dk" "few_packs (dk_packs ?dk)"
    by (simp_all add: demo_host_def demo_few)
  note all = migrate_preserves [OF demo_facts(1,2) demo_libs_ok demo_packs_fit demo_zstd demo_manifest_codec [unfolded manifest_codec_ok_def] demo_facts(4,3)
      demo_config o' fi _ _ ok(2) dk(1,2) disk_ok_created dk(3) run]
  from all [OF len, unfolded empty_map_add] obtain st D where D: "oc_store oc = Some st"
    "dom D = fi_name ` set [demo_file]"
    "\<forall>name data. D name = Some data \<longrightarrow> source_restores demo_libs io_fine demo_io ''a'' src name data"
    "\<forall>name data dest out. D name = Some data \<longrightarrow> so_read demo_io name \<longrightarrow> so_out_mkdir demo_io
         \<longrightarrow> so_out_write demo_io (path_join dest name) = Written
         \<longrightarrow> (\<exists>st2 out'. store_open demo_libs demo_keyed (host_after ?host ''d'' st) False (Local ''d'') = Inr st2
               \<and> restore (en_ops demo_dyn_env) demo_io dest (Some name) (st2, out) = (Inr (), st2, out')
               \<and> map_of (rs_files out') (path_join dest name) = Some data)"
    by (elim exE conjE) (rule that)
  have "''f'' \<in> dom D" unfolding D(2) by (simp add: demo_facts(5))
  then obtain data where "D ''f'' = Some data" by blast
  moreover from this D(3) have "data = chunk_a" by (simp add: ok(1) [symmetric])
  ultimately have "D ''f'' = Some chunk_a" by simp
  from D(4) [rule_format, OF this demo_facts(6-8)] obtain st2 out' where
    "store_open demo_libs demo_keyed (host_after ?host ''d'' st) False (Local ''d'') = Inr st2"
    "restore (en_ops demo_dyn_env) demo_io ''out'' (Some ''f'') (st2, no_out) = (Inr (), st2, out')"
    "map_of (rs_files out') (path_join ''out'' ''f'') = Some chunk_a" by blast
  then show ?thesis unfolding demo_names(3)
    by (intro exI [of _ ?host] exI [of _ oc] exI [of _ st] exI [of _ st2] exI [of _ out'] conjI run D(1))
qed

end
