(* ===== verification/Cli_Cloud.thy ===== *)
theory Cli_Cloud
  imports Migrate
begin

text \<open>
  The command line on cloud stores. \<^verbatim>\<open>main\<close> runs on a plain thread, and no command enters a Tokio
  runtime before it calls \<^verbatim>\<open>Store::open\<close>, so a blocking operator that needs the runtime of its thread
  is not made: the commands on such stores all fail.
\<close>

section \<open>The stores of a command\<close>

definition command_stores :: "command \<Rightarrow> string list" where
  "command_stores command =
     (case command of
        Cmd_Backup source destination chunk_size threshold force \<Rightarrow> [destination]
      | Cmd_List store \<Rightarrow> [store]
      | Cmd_Restore source destination file \<Rightarrow> [source]
      | Cmd_Info store \<Rightarrow> [store]
      | Cmd_Verify store \<Rightarrow> [store]
      | Cmd_Migrate source destination \<Rightarrow> [source, destination]
      | Cmd_Benchmark corpus \<Rightarrow> [])"

definition is_cloud_uri :: "string \<Rightarrow> bool" where
  "is_cloud_uri uri \<longleftrightarrow> starts_with uri ''s3://'' \<or> starts_with uri ''gcs://''"

lemma cloud_uri_config: "is_cloud_uri uri \<Longrightarrow> config_from_uri uri = Inr config \<Longrightarrow> config \<noteq> Local path"
  by (auto simp: is_cloud_uri_def config_from_uri_def Let_def split: if_splits prod.splits)

lemma config_from_uri_total: "\<exists>config. config_from_uri uri = Inr config"
  by (simp add: config_from_uri_def Let_def split: prod.split)

lemma open_service_fails:
  assumes "\<forall>svc. \<not> ho_blocking host svc False"
  shows "\<exists>e. open_service L keyed host False kind config svc cache_dir = Inl (Err e)"
  using assms by (simp add: open_service_def)

text \<open>Opening such a store ends with an error of the library, not with a panic.\<close>

lemma store_open_fails:
  assumes "\<forall>svc. \<not> ho_blocking host svc False" and "is_cloud_uri uri" and c: "config_from_uri uri = Inr config"
  shows "\<exists>e. store_open L keyed host False config = Inl (Err e)"
proof (cases config)
  case (Local path)
  with cloud_uri_config [OF assms(2) c, of path] show ?thesis by simp
qed (simp_all add: store_open_def open_service_fails [OF assms(1)])

lemma open_uri_fails:
  assumes "\<forall>svc. \<not> ho_blocking host svc False" and "is_cloud_uri uri"
  shows "\<exists>m e. open_uri (store_open L keyed host False) pc oc uri = Inl (Context m e)"
proof -
  obtain config where c: "config_from_uri uri = Inr config" using config_from_uri_total by blast
  from store_open_fails [OF assms c, of L keyed] show ?thesis by (auto simp: open_uri_def c with_context_def)
qed

lemma with_context_Inl: "\<exists>e'. with_context m (Inl e) = Inl e'"
  by (cases e) (simp_all add: with_context_def)

text \<open>A migration fails at the first of the two stores that does not open.\<close>

lemma migrate_fails:
  assumes "\<forall>svc. \<not> ho_blocking host svc False" and "is_cloud_uri source \<or> is_cloud_uri destination"
  shows "\<exists>e. run_migrate S env (store_open L keyed host False) io mi schedules source destination
    = Some (outcome (Inl e) [])"
proof -
  let ?opener = "store_open L keyed host False"
  obtain sc dc where c: "config_from_uri source = Inr sc" "config_from_uri destination = Inr dc"
    using config_from_uri_total by metis
  have no: "(\<exists>e. ?opener sc = Inl e) \<or> (\<exists>e. ?opener dc = Inl e)"
    using assms(2) store_open_fails [OF assms(1)] c by blast
  show ?thesis
  proof (cases "?opener sc")
    case (Inl e)
    obtain e' where "with_context ''Failed to open source store'' (Inl e :: any_store store result) = Inl e'"
      using with_context_Inl by blast
    with Inl show ?thesis by (intro exI [of _ e']) (simp add: run_migrate_def c)
  next
    case (Inr src)
    with no obtain e where "?opener dc = Inl e" by auto
    moreover obtain e' where "with_context ''Failed to open destination store'' (Inl e :: any_store store result) = Inl e'"
      using with_context_Inl by blast
    ultimately show ?thesis using Inr by (intro exI [of _ e']) (simp add: run_migrate_def c)
  qed
qed

section \<open>Properties\<close>

text \<open>
  C17. No command works on a cloud store: where making a blocking operator fails on a thread that has not
  entered a Tokio runtime, every command that is given an \<^verbatim>\<open>s3://\<close> or \<^verbatim>\<open>gcs://\<close> address ends with a
  failing exit code, has written no file and opened no store, whatever the bucket holds and whatever
  the settings are.
\<close>

theorem cloud_commands_fail:
  assumes "\<forall>svc. \<not> ho_blocking host svc False"
    and "uri \<in> set (command_stores command)" and "is_cloud_uri uri"
    and "run_command S env (store_open L keyed host False) io mi exists schedules out command = Some oc"
  shows "fst (main_exit oc) \<noteq> 0 \<and> oc_store oc = None
    \<and> oc_out oc = (case command of Cmd_Restore _ _ _ \<Rightarrow> out | _ \<Rightarrow> no_out)"
proof -
  obtain m e where u: "open_store (store_open L keyed host False) uri = Inl (Context m e)"
    using open_uri_fails [OF assms(1,3)] by blast
  show ?thesis
  proof (cases command)
    case (Cmd_Migrate source destination)
    then have "is_cloud_uri source \<or> is_cloud_uri destination" using assms(2,3) by (auto simp: command_stores_def)
    from migrate_fails [OF assms(1) this, of S env L keyed io mi schedules] obtain e where "oc = outcome (Inl e) []"
      using assms(4) by (auto simp: run_command_def Cmd_Migrate)
    then show ?thesis by (cases e) (simp_all add: main_exit_def outcome_def Cmd_Migrate)
  qed (use assms(2,4) u in \<open>auto simp: command_stores_def run_command_def run_backup_def run_list_def run_restore_def
      run_info_def run_verify_def main_exit_def outcome_def split: if_splits\<close>)
qed

text \<open>A bucket that a thread in a runtime can open.\<close>

lemma demo_bucket:
  "(\<And>p. config \<noteq> Local p) \<Longrightarrow> \<exists>st. store_open demo_libs demo_keyed (demo_host []) True config = Inr st"
proof -
  have "read_meta_index demo_cloud_io [] = None" "listed_pack_ids [] = []" "ci_list demo_cloud_io"
    by (simp_all add: read_meta_index_def object_read_def listed_pack_ids_def map_filter_simps demo_cloud_io_def)
  then have "cloud_populate demo_libs demo_cloud_io (cloud_fresh_store [] cache)
      = Inr ([], (cloud_fresh_store [] cache)\<lparr>cl_packs := [], cl_next_pack_id := 1\<rparr>)" for cache
    by (simp add: cloud_populate_def cloud_fresh_store_def)
  then have "\<exists>st. open_service demo_libs demo_keyed (demo_host []) True kind c svc cache_dir = Inr st" for kind c svc cache_dir
    by (simp add: open_service_def cloud_store_open_def demo_host_def cloud_open_def)
  moreover assume "\<And>p. config \<noteq> Local p"
  ultimately show ?thesis by (cases config) (simp_all add: store_open_def, blast)
qed

theorem cloud_commands_fail_witness:
  "\<exists>host oc st config. run_command (en_ops demo_dyn_env) demo_dyn_env (store_open demo_libs demo_keyed host False)
       demo_io demo_migrate_host True (\<lambda>_. demo_schedule) no_out (Cmd_List ''s3://b'') = Some oc
     \<and> fst (main_exit oc) \<noteq> 0 \<and> oc_store oc = None
     \<and> config_from_uri ''s3://b'' = Inr config \<and> store_open demo_libs demo_keyed host True config = Inr st"
proof -
  let ?host = "demo_host []"
  have rt: "\<forall>svc. \<not> ho_blocking ?host svc False" by (simp add: demo_host_def)
  have uri: "''s3://b'' \<in> set (command_stores (Cmd_List ''s3://b''))" "is_cloud_uri ''s3://b''"
    by (simp_all add: command_stores_def is_cloud_uri_def starts_with_def)
  obtain oc where run: "run_command (en_ops demo_dyn_env) demo_dyn_env (store_open demo_libs demo_keyed ?host False)
       demo_io demo_migrate_host True (\<lambda>_. demo_schedule) no_out (Cmd_List ''s3://b'') = Some oc"
    by (simp add: run_command_def)
  obtain config where c: "config_from_uri ''s3://b'' = Inr config" using config_from_uri_total by blast
  with demo_bucket cloud_uri_config [OF uri(2) c]
  obtain st where "store_open demo_libs demo_keyed ?host True config = Inr st" by blast
  with run c cloud_commands_fail [OF rt uri run] show ?thesis by blast
qed

end
