(* ===== verification/Local_Concurrent.thy ===== *)
theory Local_Concurrent
  imports Store_Backup
begin

text \<open>
  One local store used by several threads. The mutex of \<^verbatim>\<open>store/local.rs\<close> is held while the pending
  chunks are read or changed and while a pack is added, not while a pack is written: \<^verbatim>\<open>put\<close> and
  \<^verbatim>\<open>flush\<close> take several steps, between which other threads run. The steps of a call by one thread
  without interference are the call as \<open>Local_Store\<close> has it. \<open>Concurrent_Store\<close> shows what holds under
  every interleaving and what does not.
\<close>

section \<open>Threads\<close>

text \<open>
  What a thread is doing: nothing; a put that has missed the index and waits for the lock; a pack to be
  written, whose chunks are drained; a pack that is written and not yet added; a call that is about to
  return. A task is the call the pack is written for, a put with the length of its chunk or a flush.
\<close>

datatype task = Put_Task hash u32 | Flush_Task

datatype activity =
    Idle
  | Putting pending_entry
  | Flushing u32 "pack_entry list" task
  | Adding u32 pack_metadata task
  | Returning task

datatype returned =
    Put_Returned hash "pack_location result"
  | Signed hash "unit result"
  | Flushed "unit result"

text \<open>
  The index is shared with the callers, who enter a location once their put has returned it. \<open>sh_log\<close>
  lists what the calls have returned, \<open>sh_lost\<close> the hashes of the packs that could not be written;
  neither is read by a step.
\<close>

record shared =
  sh_store :: local_store
  sh_index :: "hash \<Rightarrow> pack_location option"
  sh_threads :: "nat \<Rightarrow> activity"
  sh_log :: "(nat \<times> returned) list"
  sh_lost :: "hash set"

definition shared_init :: "local_store \<Rightarrow> (hash \<Rightarrow> pack_location option) \<Rightarrow> shared" where
  "shared_init st ix = \<lparr>sh_store = st, sh_index = ix, sh_threads = (\<lambda>_. Idle), sh_log = [], sh_lost = {}\<rparr>"

section \<open>Steps\<close>

definition proceed :: "nat \<Rightarrow> activity \<Rightarrow> shared \<Rightarrow> shared" where
  "proceed t a sh = sh\<lparr>sh_threads := (sh_threads sh)(t := a)\<rparr>"

definition return_from :: "nat \<Rightarrow> returned \<Rightarrow> shared \<Rightarrow> shared" where
  "return_from t r sh = (proceed t Idle sh)\<lparr>sh_log := sh_log sh @ [(t, r)]\<rparr>"

fun succeeded :: "local_store \<Rightarrow> task \<Rightarrow> returned" where
  "succeeded st (Put_Task h orig_length) = Put_Returned h (Inr (placeholder st orig_length))"
| "succeeded st Flush_Task = Flushed (Inr ())"

fun failed :: "task \<Rightarrow> failure \<Rightarrow> returned" where
  "failed (Put_Task h orig_length) e = Put_Returned h (Inl e)"
| "failed Flush_Task e = Flushed (Inl e)"

text \<open>Under the lock: a pack id is taken and the pending chunks are drained.\<close>

definition drain :: "nat \<Rightarrow> task \<Rightarrow> shared \<Rightarrow> shared" where
  "drain t task sh =
     (let pack_id = ls_next_pack_id (sh_store sh);
          (chunks, st) = flush_prepare ((sh_store sh)\<lparr>ls_next_pack_id := pack_id + 1\<rparr>)
      in proceed t (Flushing pack_id chunks task) (sh\<lparr>sh_store := st\<rparr>))"

definition put_begin :: "nat \<Rightarrow> pending_entry \<Rightarrow> shared \<Rightarrow> shared" where
  "put_begin t new sh =
     (case lookup_index (sh_index sh) (sh_store sh) (pd_hash new) of
        Some loc \<Rightarrow> return_from t (Put_Returned (pd_hash new) (Inr loc)) sh
      | None \<Rightarrow> proceed t (Putting new) sh)"

definition put_locked :: "nat \<Rightarrow> pending_entry \<Rightarrow> shared \<Rightarrow> shared" where
  "put_locked t new sh =
     (case List.find (\<lambda>entry. pd_hash entry = pd_hash new) (ls_pending_chunks (sh_store sh)) of
        Some entry \<Rightarrow> return_from t
          (Put_Returned (pd_hash new) (Inr (placeholder (sh_store sh) (pd_orig_length entry)))) sh
      | None \<Rightarrow>
          (let task = Put_Task (pd_hash new) (pd_orig_length new);
               sh = sh\<lparr>sh_store := append_entry (sh_store sh) new\<rparr>
           in if ls_pending_size (sh_store sh) \<ge> ls_pack_target_size (sh_store sh)
              then drain t task sh else proceed t (Returning task) sh))"

definition flush_begin :: "nat \<Rightarrow> shared \<Rightarrow> shared" where
  "flush_begin t sh =
     (if ls_pending_chunks (sh_store sh) \<noteq> [] then drain t Flush_Task sh
      else return_from t (Flushed (Inr ())) sh)"

text \<open>
  Without the lock. Packs with different ids are different files, so the calls of the file system that
  write one are taken as a single step.
\<close>

definition write_drained :: "libs \<Rightarrow> pack_io \<Rightarrow> nat \<Rightarrow> u32 \<Rightarrow> pack_entry list \<Rightarrow> task \<Rightarrow> shared \<Rightarrow> shared" where
  "write_drained L io t pack_id chunks task sh =
     (let (written, dir) = flush_write L io chunks pack_id (ls_dir (sh_store sh));
          sh = sh\<lparr>sh_store := (sh_store sh)\<lparr>ls_dir := dir\<rparr>\<rparr>
      in case written of
           Inl e \<Rightarrow> (return_from t (failed task e) sh)\<lparr>sh_lost := sh_lost sh \<union> pe_hash ` set chunks\<rparr>
         | Inr meta \<Rightarrow> proceed t (Adding pack_id meta task) sh)"

definition add_pack :: "nat \<Rightarrow> u32 \<Rightarrow> pack_metadata \<Rightarrow> task \<Rightarrow> shared \<Rightarrow> shared" where
  "add_pack t pack_id meta task sh =
     proceed t (Returning task)
       (sh\<lparr>sh_store := (sh_store sh)\<lparr>ls_packs := AList.update pack_id meta (ls_packs (sh_store sh))\<rparr>\<rparr>)"

definition sign :: "nat \<Rightarrow> hash \<Rightarrow> bytes \<Rightarrow> shared \<Rightarrow> shared" where
  "sign t h sg sh =
     (case local_put_signature (sh_store sh) h sg of (r, st) \<Rightarrow>
        return_from t (Signed h r) (sh\<lparr>sh_store := st\<rparr>))"

text \<open>
  \<open>P\<close> restricts the entries that are put, whole chunks or deltas. \<open>call_returns\<close> is a step of its own, as
  the next pack id is an atomic that \<^verbatim>\<open>put\<close> reads again when it returns; where the lock is still held
  then, the model allows more interleavings than the code.
\<close>

inductive shared_step :: "libs \<Rightarrow> (pending_entry \<Rightarrow> bool) \<Rightarrow> shared \<Rightarrow> shared \<Rightarrow> bool" for L P where
  put_call: "sh_threads sh t = Idle \<Longrightarrow> P new \<Longrightarrow> shared_step L P sh (put_begin t new sh)"
| put_lock: "sh_threads sh t = Putting new \<Longrightarrow> shared_step L P sh (put_locked t new sh)"
| flush_call: "sh_threads sh t = Idle \<Longrightarrow> shared_step L P sh (flush_begin t sh)"
| file_written: "sh_threads sh t = Flushing i chunks task \<Longrightarrow> shared_step L P sh (write_drained L io t i chunks task sh)"
| pack_added: "sh_threads sh t = Adding i meta task \<Longrightarrow> shared_step L P sh (add_pack t i meta task sh)"
| call_returns: "sh_threads sh t = Returning task
    \<Longrightarrow> shared_step L P sh (return_from t (succeeded (sh_store sh) task) sh)"
| sign_call: "sh_threads sh t = Idle \<Longrightarrow> shared_step L P sh (sign t h sg sh)"
| index_learns: "(t, Put_Returned h (Inr loc)) \<in> set (sh_log sh)
    \<Longrightarrow> shared_step L P sh (sh\<lparr>sh_index := (sh_index sh)(h \<mapsto> loc)\<rparr>)"

section \<open>A call without interference\<close>

lemma proceed_simps [simp]:
  "sh_store (proceed t a sh) = sh_store sh" "sh_index (proceed t a sh) = sh_index sh"
  "sh_log (proceed t a sh) = sh_log sh" "sh_lost (proceed t a sh) = sh_lost sh"
  "sh_threads (proceed t a sh) = (sh_threads sh)(t := a)"
  by (simp_all add: proceed_def)

lemma return_from_simps [simp]:
  "sh_store (return_from t r sh) = sh_store sh" "sh_index (return_from t r sh) = sh_index sh"
  "sh_log (return_from t r sh) = sh_log sh @ [(t, r)]" "sh_lost (return_from t r sh) = sh_lost sh"
  "sh_threads (return_from t r sh) = (sh_threads sh)(t := Idle)"
  by (simp_all add: return_from_def)


lemma drain_simps:
  "drain t task sh = proceed t (Flushing (ls_next_pack_id (sh_store sh)) (map pack_entry_of (ls_pending_chunks (sh_store sh))) task)
     (sh\<lparr>sh_store := (sh_store sh)\<lparr>ls_next_pack_id := ls_next_pack_id (sh_store sh) + 1,
        ls_pending_chunks := [], ls_pending_size := 0\<rparr>\<rparr>)"
  by (simp add: drain_def flush_prepare_def Let_def)

lemma drain_alone:
  assumes run: "run_flush L io (sh_store sh) = (r, st')"
  shows "\<exists>sh'. (shared_step L P)\<^sup>*\<^sup>* (drain t task sh) sh' \<and> sh_store sh' = st'
    \<and> sh_log sh' = sh_log sh @ [(t, case r of Inl e \<Rightarrow> failed task e | Inr _ \<Rightarrow> succeeded st' task)]
    \<and> sh_threads sh' = (sh_threads sh)(t := Idle) \<and> sh_index sh' = sh_index sh"
  using run
proof (cases rule: run_flush_cases)
  case (failed e dir')
  let ?i = "ls_next_pack_id (sh_store sh)" and ?es = "map pack_entry_of (ls_pending_chunks (sh_store sh))"
  have "shared_step L P (drain t task sh) (write_drained L io t ?i ?es task (drain t task sh))"
    by (rule file_written) (simp add: drain_simps)
  then show ?thesis
    by (intro exI [of _ "write_drained L io t ?i ?es task (drain t task sh)"])
      (simp add: write_drained_def drain_simps failed Let_def)
next
  case (flushed m dir')
  let ?i = "ls_next_pack_id (sh_store sh)" and ?es = "map pack_entry_of (ls_pending_chunks (sh_store sh))"
  let ?w = "write_drained L io t ?i ?es task (drain t task sh)"
  let ?a = "add_pack t ?i m task ?w"
  have w: "sh_store ?w = (sh_store sh)\<lparr>ls_next_pack_id := ?i + 1, ls_pending_chunks := [], ls_pending_size := 0, ls_dir := dir'\<rparr>"
    "sh_log ?w = sh_log sh" "sh_index ?w = sh_index sh" "sh_threads ?w = (sh_threads sh)(t := Adding ?i m task)"
    by (simp_all add: write_drained_def drain_simps flushed(2) Let_def)
  have "shared_step L P (drain t task sh) ?w" by (rule file_written) (simp add: drain_simps)
  moreover have "shared_step L P ?w ?a" by (rule pack_added) (simp add: w)
  moreover have "shared_step L P ?a (return_from t (succeeded (sh_store ?a) task) ?a)"
    by (rule call_returns) (simp add: add_pack_def)
  ultimately have "(shared_step L P)\<^sup>*\<^sup>* (drain t task sh) (return_from t (succeeded (sh_store ?a) task) ?a)"
    by (meson converse_rtranclp_into_rtranclp rtranclp.rtrancl_refl)
  moreover have "sh_store ?a = st'" by (simp add: add_pack_def w flushed(3))
  moreover have "sh_log ?a = sh_log sh" "sh_index ?a = sh_index sh" "(sh_threads ?a)(t := Idle) = (sh_threads sh)(t := Idle)"
    by (simp_all add: add_pack_def w)
  ultimately show ?thesis
    by (intro exI [of _ "return_from t (succeeded (sh_store ?a) task) ?a"]) (simp add: flushed(1))
qed

text \<open>What \<open>sh'\<close> differs in from \<open>sh\<close> when thread \<open>t\<close> has run a call on its own.\<close>

definition ran_alone :: "nat \<Rightarrow> local_store \<Rightarrow> returned \<Rightarrow> shared \<Rightarrow> shared \<Rightarrow> bool" where
  "ran_alone t st r sh sh' \<longleftrightarrow> sh_store sh' = st \<and> sh_log sh' = sh_log sh @ [(t, r)]
     \<and> sh_threads sh' = sh_threads sh \<and> sh_index sh' = sh_index sh"

lemma flush_alone:
  assumes "sh_threads sh t = Idle" and "local_flush L io (sh_store sh) = (r, st')"
  shows "\<exists>sh'. (shared_step L P)\<^sup>*\<^sup>* sh sh' \<and> ran_alone t st' (Flushed r) sh sh'"
proof (cases "ls_pending_chunks (sh_store sh) = []")
  case True
  have "shared_step L P sh (flush_begin t sh)" using assms(1) by (rule flush_call)
  with True assms show ?thesis
    by (intro exI [of _ "flush_begin t sh"]) (auto simp: flush_begin_def local_flush_def ran_alone_def)
next
  case False
  then have run: "run_flush L io (sh_store sh) = (r, st')" using assms(2) by (simp add: local_flush_def)
  have step: "shared_step L P sh (drain t Flush_Task sh)"
    using flush_call [where sh = sh and t = t and L = L and P = P] assms(1) False by (simp add: flush_begin_def)
  from drain_alone [OF run, of P t Flush_Task] obtain sh' where sh': "(shared_step L P)\<^sup>*\<^sup>* (drain t Flush_Task sh) sh'"
    "sh_store sh' = st'" "sh_log sh' = sh_log sh @ [(t, Flushed r)]"
    "sh_threads sh' = (sh_threads sh)(t := Idle)" "sh_index sh' = sh_index sh"
    by (cases r) auto
  moreover have "(shared_step L P)\<^sup>*\<^sup>* sh sh'" using step sh'(1) by (rule converse_rtranclp_into_rtranclp)
  moreover have "(sh_threads sh)(t := Idle) = sh_threads sh" using assms(1) by (simp add: fun_upd_idem)
  ultimately show ?thesis unfolding ran_alone_def by auto
qed

text \<open>A put that has taken the lock.\<close>

lemma put_locked_alone:
  assumes none: "List.find (\<lambda>entry. pd_hash entry = pd_hash new) (ls_pending_chunks (sh_store b)) = None"
    and ix: "lookup_index (sh_index b) (sh_store b) (pd_hash new) = None"
    and put: "put_entry L io (sh_index b) (sh_store b) new = (r, st')"
  shows "\<exists>sh'. (shared_step L P)\<^sup>*\<^sup>* (put_locked t new b) sh' \<and> sh_store sh' = st'
    \<and> sh_log sh' = sh_log b @ [(t, Put_Returned (pd_hash new) r)]
    \<and> sh_threads sh' = (sh_threads b)(t := Idle) \<and> sh_index sh' = sh_index b"
proof -
  let ?st = "append_entry (sh_store b) new" and ?task = "Put_Task (pd_hash new) (pd_orig_length new)"
  have ap: "appends (sh_index b) (sh_store b) (pd_hash new)"
    using none ix by (auto simp: appends_def find_None_iff_all)
  show ?thesis
  proof (cases "ls_pending_size ?st \<ge> ls_pack_target_size ?st")
    case True
    obtain r2 where run: "run_flush L io ?st = (r2, st')"
      and r: "r = (case r2 of Inl e \<Rightarrow> Inl e | Inr _ \<Rightarrow> Inr (placeholder st' (pd_orig_length new)))"
      using put ap True by (auto simp: put_entry_cases Let_def split: prod.splits sum.splits)
    have "put_locked t new b = drain t ?task (b\<lparr>sh_store := ?st\<rparr>)" using none True by (simp add: put_locked_def Let_def)
    with drain_alone [of L io "b\<lparr>sh_store := ?st\<rparr>" r2 st' P t ?task] run r show ?thesis
      by (cases r2) auto
  next
    case False
    let ?r = "proceed t (Returning ?task) (b\<lparr>sh_store := ?st\<rparr>)"
    have "put_locked t new b = ?r" using none False by (simp add: put_locked_def Let_def)
    moreover have "shared_step L P ?r (return_from t (succeeded (sh_store ?r) ?task) ?r)"
      by (rule call_returns) simp
    moreover have "r = Inr (placeholder ?st (pd_orig_length new)) \<and> st' = ?st"
      using put ap False by (auto simp: put_entry_cases Let_def)
    ultimately show ?thesis by (intro exI [of _ "return_from t (succeeded (sh_store ?r) ?task) ?r"]) auto
  qed
qed

lemma put_alone:
  assumes "sh_threads sh t = Idle" and "P new" and put: "put_entry L io (sh_index sh) (sh_store sh) new = (r, st')"
  shows "\<exists>sh'. (shared_step L P)\<^sup>*\<^sup>* sh sh' \<and> ran_alone t st' (Put_Returned (pd_hash new) r) sh sh'"
proof (cases "lookup_index (sh_index sh) (sh_store sh) (pd_hash new)")
  case (Some loc)
  have "shared_step L P sh (put_begin t new sh)" by (rule put_call) (use assms in simp_all)
  with Some assms show ?thesis
    by (intro exI [of _ "put_begin t new sh"]) (auto simp: put_begin_def put_entry_def ran_alone_def)
next
  case None
  let ?b = "proceed t (Putting new) sh"
  have "shared_step L P sh (put_begin t new sh)" by (rule put_call) (use assms in simp_all)
  then have b: "shared_step L P sh ?b" using None by (simp add: put_begin_def)
  have l: "shared_step L P ?b (put_locked t new ?b)" by (rule put_lock) simp
  have run: "(shared_step L P)\<^sup>*\<^sup>* sh sh'" if "(shared_step L P)\<^sup>*\<^sup>* (put_locked t new ?b) sh'" for sh'
    using b l that by (meson converse_rtranclp_into_rtranclp)
  have idle: "(sh_threads sh)(t := Idle) = sh_threads sh" using assms(1) by (simp add: fun_upd_idem)
  show ?thesis
  proof (cases "List.find (\<lambda>entry. pd_hash entry = pd_hash new) (ls_pending_chunks (sh_store sh))")
    case (Some entry)
    with run [of "put_locked t new ?b"] None put idle show ?thesis
      by (intro exI [of _ "put_locked t new ?b"]) (auto simp: put_locked_def put_entry_def ran_alone_def)
  next
    case none: None
    from put_locked_alone [of new ?b L io r st' P t] none None put run idle show ?thesis
      unfolding ran_alone_def by auto
  qed
qed


section \<open>The invariant\<close>

text \<open>
  \<open>K\<close> is what the packs held at the beginning. The threads put whole chunks, which are those of their
  hashes; the ones that are not known already are new to \<open>K\<close>.
\<close>

definition chunk_entry :: "libs \<Rightarrow> (hash \<Rightarrow> bytes) \<Rightarrow> pending_entry \<Rightarrow> bool" where
  "chunk_entry L V e \<longleftrightarrow> e = full_entry (pd_hash e) (V (pd_hash e)) \<and> genuine L V (pd_hash e)
     \<and> length (V (pd_hash e)) \<le> 2 ^ 20"

definition new_entry :: "libs \<Rightarrow> (hash \<Rightarrow> bytes) \<Rightarrow> (hash \<times> hash option) set \<Rightarrow> pending_entry \<Rightarrow> bool" where
  "new_entry L V K e \<longleftrightarrow> pending_good L V e \<and> base_of (pd_entry_type e) = None \<and> genuine L V (pd_hash e)
     \<and> length (pd_data e) \<le> 2 ^ 20 \<and> pd_hash e \<notin> fst ` K"

definition new_pack :: "libs \<Rightarrow> (hash \<Rightarrow> bytes) \<Rightarrow> (hash \<times> hash option) set \<Rightarrow> pack_metadata \<Rightarrow> bool" where
  "new_pack L V K m \<longleftrightarrow> (\<forall>(h, k) \<in> pack_kinds m. k = None \<and> genuine L V h \<and> h \<notin> fst ` K)"

definition store_ok :: "libs \<Rightarrow> (hash \<Rightarrow> bytes) \<Rightarrow> (hash \<times> hash option) set \<Rightarrow> local_store \<Rightarrow> bool" where
  "store_ok L V K st \<longleftrightarrow> local_fresh st \<and> local_sizes st \<and> ls_indexed st
     \<and> (\<forall>e \<in> set (ls_pending_chunks st). new_entry L V K e)
     \<and> (\<forall>(i, m) \<in> set (ls_packs st). pack_good L V (ls_dir st) i m)
     \<and> kinds_ok K \<and> K \<subseteq> packs_kinds (ls_packs st)
     \<and> (\<forall>(h, k) \<in> packs_kinds (ls_packs st). genuine L V h \<and> ((h, k) \<in> K \<or> k = None \<and> h \<notin> fst ` K))"

fun pack_of :: "activity \<Rightarrow> u32 option" where
  "pack_of (Flushing i chunks task) = Some i"
| "pack_of (Adding i m task) = Some i"
| "pack_of _ = None"

fun task_of :: "activity \<Rightarrow> task option" where
  "task_of (Flushing i chunks task) = Some task"
| "task_of (Adding i m task) = Some task"
| "task_of (Returning task) = Some task"
| "task_of _ = None"

text \<open>The chunks that a thread carries.\<close>

fun carried :: "activity \<Rightarrow> hash set" where
  "carried (Flushing i chunks task) = pe_hash ` set chunks"
| "carried (Adding i m task) = fst ` pack_kinds m"
| "carried _ = {}"

definition drained_ok :: "libs \<Rightarrow> (hash \<Rightarrow> bytes) \<Rightarrow> (hash \<times> hash option) set \<Rightarrow> pack_entry list \<Rightarrow> bool" where
  "drained_ok L V K chunks \<longleftrightarrow> (\<exists>es. chunks = map pack_entry_of es \<and> es \<noteq> [] \<and> (\<forall>e \<in> set es. new_entry L V K e)
     \<and> sum_list (map (\<lambda>e. length (pd_data e)) es) < 2 ^ 25)"

fun thread_ok :: "libs \<Rightarrow> (hash \<Rightarrow> bytes) \<Rightarrow> (hash \<times> hash option) set \<Rightarrow> dir \<Rightarrow> activity \<Rightarrow> bool" where
  "thread_ok L V K dir (Putting new) = new_entry L V K new"
| "thread_ok L V K dir (Flushing i chunks task) = drained_ok L V K chunks"
| "thread_ok L V K dir (Adding i m task) \<longleftrightarrow> pack_good L V dir i m \<and> new_pack L V K m"
| "thread_ok L V K dir _ \<longleftrightarrow> True"

text \<open>Every id that a thread has taken is its own, below the next one and not that of a pack.\<close>

definition ids_ok :: "shared \<Rightarrow> bool" where
  "ids_ok sh \<longleftrightarrow>
     (\<forall>t i. pack_of (sh_threads sh t) = Some i \<longrightarrow>
        i < ls_next_pack_id (sh_store sh) \<and> i \<notin> fst ` set (ls_packs (sh_store sh))
        \<and> (\<forall>u. pack_of (sh_threads sh u) = Some i \<longrightarrow> u = t))"

definition sound :: "libs \<Rightarrow> (hash \<Rightarrow> bytes) \<Rightarrow> (hash \<times> hash option) set \<Rightarrow> shared \<Rightarrow> bool" where
  "sound L V K sh \<longleftrightarrow> store_ok L V K (sh_store sh) \<and> ids_ok sh
     \<and> (\<forall>t. thread_ok L V K (ls_dir (sh_store sh)) (sh_threads sh t)) \<and> fst ` K \<subseteq> dom (sh_index sh)"

text \<open>Where the chunks are: in the store, with a thread, or lost.\<close>

definition accounted :: "shared \<Rightarrow> hash set" where
  "accounted sh = fst ` kinds (sh_store sh) \<union> (\<Union>t. carried (sh_threads sh t)) \<union> sh_lost sh"

definition acknowledged :: "shared \<Rightarrow> hash set" where
  "acknowledged sh = {h. \<exists>t loc. (t, Put_Returned h (Inr loc)) \<in> set (sh_log sh)}"

definition promised :: "shared \<Rightarrow> hash set" where
  "promised sh = acknowledged sh \<union> dom (sh_index sh)
     \<union> {h. \<exists>t orig_length. task_of (sh_threads sh t) = Some (Put_Task h orig_length)}"

lemma store_ok_inv: "store_ok L V K st \<Longrightarrow> local_inv L V st"
proof -
  assume ok: "store_ok L V K st"
  have pend: "k = None \<and> genuine L V h \<and> h \<notin> fst ` K" if "(h, k) \<in> pending_kinds (ls_pending_chunks st)" for h k
    using ok that by (auto simp: store_ok_def pending_kinds_def new_entry_def)
  have packs: "genuine L V h \<and> ((h, k) \<in> K \<or> k = None \<and> h \<notin> fst ` K)" if "(h, k) \<in> packs_kinds (ls_packs st)" for h k
    using ok that by (auto simp: store_ok_def)
  have K: "K \<subseteq> packs_kinds (ls_packs st)" "kinds_ok K" using ok by (simp_all add: store_ok_def)
  have "kinds_ok X" if "K \<subseteq> X" "\<And>h k. (h, k) \<in> X \<Longrightarrow> (h, k) \<in> K \<or> k = None \<and> h \<notin> fst ` K" for X
    using K(2) that unfolding kinds_ok_def by (metis fst_conv image_eqI option.distinct(1) subsetD)
  from this [of "kinds st"] this [of "packs_kinds (ls_packs st)"] K(1) pend packs
  have "kinds_ok (kinds st)" "kinds_ok (packs_kinds (ls_packs st))" unfolding kinds_def by blast+
  moreover have "Hash (lib_blake3 L (V h)) = h" if "(h, k) \<in> kinds st" for h k
    using that pend packs unfolding kinds_def genuine_def by blast
  ultimately show ?thesis using ok by (auto simp: local_inv_def store_ok_def new_entry_def)
qed

lemma chunk_entry_new: "chunk_entry L V e \<Longrightarrow> pd_hash e \<notin> fst ` K \<Longrightarrow> new_entry L V K e"
proof -
  assume e: "chunk_entry L V e" "pd_hash e \<notin> fst ` K"
  define h where "h = pd_hash e"
  have "e = full_entry h (V h)" "genuine L V h" "length (V h) \<le> 2 ^ 20" using e(1) by (simp_all add: chunk_entry_def h_def)
  with e(2) show ?thesis by (simp add: new_entry_def full_entry_def pending_good_def base_of_def)
qed

lemma new_entry_signature [simp]: "new_entry L V K (e\<lparr>pd_signature := s\<rparr>) = new_entry L V K e"
  by (simp add: new_entry_def)

text \<open>Draining.\<close>

lemma drained:
  assumes ok: "store_ok L V K st" and ne: "es \<noteq> []" and es: "\<forall>e \<in> set es. new_entry L V K e"
    and sz: "sum_list (map (\<lambda>e. length (pd_data e)) es) < 2 ^ 25"
  shows "drained_ok L V K (map pack_entry_of es)"
  using assms unfolding drained_ok_def by blast

lemma pe_hash_entries: "pe_hash ` set (map pack_entry_of es) = fst ` pending_kinds es"
  by (auto simp: pending_kinds_def pack_entry_of_def image_iff)

lemma carried_update: "(\<Union>u. carried ((f(t := a)) u)) \<supseteq> carried a"
  by auto

lemma carried_others: "carried (f t) \<subseteq> X \<Longrightarrow> (\<Union>u. carried (f u)) \<subseteq> (\<Union>u. carried ((f(t := a)) u)) \<union> X"
proof
  fix h assume X: "carried (f t) \<subseteq> X" and h: "h \<in> (\<Union>u. carried (f u))"
  then obtain u where u: "h \<in> carried (f u)" by blast
  show "h \<in> (\<Union>u. carried ((f(t := a)) u)) \<union> X"
    using X u by (cases "u = t") (auto intro: UN_I [of u])
qed

end
