(* ===== verification/Concurrent_Store.thy ===== *)
theory Concurrent_Store imports Local_Concurrent
begin

section \<open>The steps keep it\<close>

lemma ids_ok_update:
  assumes ids: "ids_ok sh" and sh': "sh_threads sh' = (sh_threads sh)(t := a)"
    "ls_next_pack_id (sh_store sh') = ls_next_pack_id (sh_store sh)" "ls_packs (sh_store sh') = ls_packs (sh_store sh)"
    and a: "pack_of a = None \<or> pack_of a = pack_of (sh_threads sh t)"
  shows "ids_ok sh'"
proof -
  have "pack_of (sh_threads sh' u) = Some i \<Longrightarrow> pack_of (sh_threads sh u) = Some i" for u i
    using a by (auto simp: sh'(1) split: if_splits)
  with ids show ?thesis unfolding ids_ok_def sh'(2,3) by blast
qed

lemma proceed_sound:
  assumes "sound L V K sh" and "thread_ok L V K (ls_dir (sh_store sh)) a" and "pack_of a = None"
  shows "sound L V K (proceed t a sh)"
  using assms by (auto simp: sound_def ids_ok_def)

lemma return_from_sound [simp]: "sound L V K (return_from t r sh) = sound L V K (proceed t Idle sh)"
  by (simp add: sound_def ids_ok_def return_from_def)

lemma return_sound: "sound L V K sh \<Longrightarrow> sound L V K (return_from t r sh)"
  by (simp add: proceed_sound)

lemma pending_drained:
  assumes "\<forall>e \<in> set (ls_pending_chunks st). new_entry L V K e" and "ls_pending_chunks st \<noteq> []"
    and "pending_bytes st < 2 ^ 25"
  shows "drained_ok L V K (map pack_entry_of (ls_pending_chunks st))"
  using assms unfolding drained_ok_def pending_bytes_def by blast

lemma drain_sound:
  assumes ok: "store_ok L V K ((sh_store sh)\<lparr>ls_pending_chunks := [], ls_pending_size := 0\<rparr>)"
    and d: "drained_ok L V K (map pack_entry_of (ls_pending_chunks (sh_store sh)))"
    and ids: "ids_ok sh" and threads: "\<forall>u. thread_ok L V K (ls_dir (sh_store sh)) (sh_threads sh u)"
    and ix: "fst ` K \<subseteq> dom (sh_index sh)" and room: "ls_next_pack_id (sh_store sh) + 1 \<noteq> 0"
  shows "sound L V K (drain t task sh)"
proof -
  let ?st = "sh_store sh"
  let ?st' = "?st\<lparr>ls_next_pack_id := ls_next_pack_id ?st + 1, ls_pending_chunks := [], ls_pending_size := 0\<rparr>"
  have fresh: "\<forall>i \<in> fst ` set (ls_packs ?st). i < ls_next_pack_id ?st"
    using ok by (simp add: store_ok_def local_fresh_def)
  have up: "i < ls_next_pack_id ?st \<Longrightarrow> i < ls_next_pack_id ?st + 1" for i using less_next_word room by blast
  have "store_ok L V K ?st'"
    using ok up by (auto simp: store_ok_def local_fresh_def local_sizes_def pending_bytes_def)
  moreover have "ids_ok (drain t task sh)"
    using ids fresh up next_word_greater [OF room] by (fastforce simp: ids_ok_def drain_simps)
  moreover have "thread_ok L V K (ls_dir ?st) (((sh_threads sh)(t := Flushing (ls_next_pack_id ?st)
      (map pack_entry_of (ls_pending_chunks ?st)) task)) u)" for u
    using threads d by (simp add: fun_upd_apply)
  ultimately show ?thesis using ix by (simp add: sound_def) (simp add: drain_simps)
qed

lemma drain_accounted:
  assumes "carried (sh_threads sh t) = {}"
  shows "accounted sh \<subseteq> accounted (drain t task sh)"
proof -
  let ?a = "Flushing (ls_next_pack_id (sh_store sh)) (map pack_entry_of (ls_pending_chunks (sh_store sh))) task"
  let ?C = "\<Union>u. carried (((sh_threads sh)(t := ?a)) u)"
  have "(\<Union>u. carried (sh_threads sh u)) \<subseteq> ?C"
    using carried_others [of "sh_threads sh" t "{}" ?a] assms by simp
  moreover have "fst ` pending_kinds (ls_pending_chunks (sh_store sh)) \<subseteq> ?C"
    using carried_update [of ?a "sh_threads sh" t] unfolding carried.simps pe_hash_entries .
  moreover have acc: "accounted (drain t task sh) = fst ` packs_kinds (ls_packs (sh_store sh)) \<union> ?C \<union> sh_lost sh"
    unfolding accounted_def drain_simps by (simp add: kinds_def del: fun_upd_apply)
  ultimately show ?thesis unfolding acc unfolding accounted_def kinds_def image_Un by blast
qed

lemma written_pack:
  assumes w: "flush_write L io chunks i dir = (Inr m, dir')" and es: "chunks = map pack_entry_of es" "es \<noteq> []"
    and L: "libs_ok L" "packs_fit L" and good: "\<forall>e \<in> set es. new_entry L V K e"
    and sz: "sum_list (map (\<lambda>e. length (pd_data e)) es) < 2 ^ 25"
  shows "pack_good L V dir' i m \<and> pack_kinds m = pending_kinds es"
proof -
  from flush_write_ok [OF w] es obtain p ck where
    p: "write_pack L (map pack_entry_of es) = Inr p" "read_pack L p = Inr (pm_entries m, ck, pm_superblock m)"
      "map_of dir' (pack_name i) = Some p"
    by (auto simp: update_conv')
  have "\<forall>e \<in> set es. pending_good L V e" using good by (simp add: new_entry_def)
  from flushed_pack_good [OF L(1) packs_fit_flush [OF L(2) sz] p(1) this] p show ?thesis
    by (auto simp: pack_kinds_def pack_good_def)
qed

text \<open>Writing a pack, which succeeds or not, touches no other pack.\<close>

lemma write_sound:
  assumes s: "sound L V K sh" and L: "libs_ok L" "packs_fit L" and a: "sh_threads sh t = Flushing i chunks task"
  shows "sound L V K (write_drained L io t i chunks task sh)"
proof -
  let ?st = "sh_store sh"
  obtain r dir where w: "flush_write L io chunks i (ls_dir ?st) = (r, dir)" by force
  have "pack_of (sh_threads sh t) = Some i" by (simp add: a)
  with s have i: "i \<notin> fst ` set (ls_packs ?st)" "\<And>u. pack_of (sh_threads sh u) = Some i \<Longrightarrow> u = t"
    unfolding sound_def ids_ok_def by blast+
  have "store_ok L V K (?st\<lparr>ls_dir := dir\<rparr>)"
  proof -
    have "pack_good L V dir j m" if "(j, m) \<in> set (ls_packs ?st)" for j m
    proof -
      have "j \<noteq> i" using that i(1) by force
      from flush_write_others [OF w this] have "map_of dir (pack_name j) = map_of (ls_dir ?st) (pack_name j)" .
      moreover have "pack_good L V (ls_dir ?st) j m" using s that unfolding sound_def store_ok_def by blast
      ultimately show ?thesis using pack_good_other_dir by metis
    qed
    with s show ?thesis by (auto simp: sound_def store_ok_def local_fresh_def local_sizes_def pending_bytes_def)
  qed
  moreover have others: "thread_ok L V K dir (sh_threads sh u)" if "u \<noteq> t" for u
  proof -
    have "thread_ok L V K (ls_dir ?st) (sh_threads sh u)" using s by (simp add: sound_def)
    moreover have "pack_of (sh_threads sh u) \<noteq> Some i" using i(2) that by blast
    ultimately show ?thesis using flush_write_others [OF w] pack_good_other_dir
      by (cases "sh_threads sh u") auto
  qed
  moreover have "thread_ok L V K dir (Adding i m task)" if r: "r = Inr m" for m
  proof -
    have "drained_ok L V K chunks" using s a by (metis sound_def thread_ok.simps(2))
    then obtain es where es: "chunks = map pack_entry_of es" "es \<noteq> []" "\<forall>e \<in> set es. new_entry L V K e"
      "sum_list (map (\<lambda>e. length (pd_data e)) es) < 2 ^ 25" unfolding drained_ok_def by blast
    from written_pack [OF w [unfolded r] es(1,2) L es(3,4)] have "pack_good L V dir i m" "pack_kinds m = pending_kinds es"
      by simp_all
    moreover from this(2) have "new_pack L V K m" using es(3) by (auto simp: new_pack_def pending_kinds_def new_entry_def)
    ultimately show ?thesis by simp
  qed
  moreover have "ids_ok (write_drained L io t i chunks task sh)"
    by (rule ids_ok_update [of sh _ t "case r of Inl e \<Rightarrow> Idle | Inr m \<Rightarrow> Adding i m task"])
      (use s a in \<open>auto simp: sound_def write_drained_def w Let_def split: sum.split\<close>)
  ultimately show ?thesis
    using s by (cases r) (auto simp: sound_def write_drained_def w Let_def)
qed


lemma write_accounted:
  assumes s: "sound L V K sh" and L: "libs_ok L" "packs_fit L" and a: "sh_threads sh t = Flushing i chunks task"
  shows "accounted sh \<subseteq> accounted (write_drained L io t i chunks task sh)"
proof -
  let ?sh = "write_drained L io t i chunks task sh"
  obtain r dir where w: "flush_write L io chunks i (ls_dir (sh_store sh)) = (r, dir)" by force
  have kinds: "kinds ((sh_store sh)\<lparr>ls_dir := dir\<rparr>) = kinds (sh_store sh)" by (simp add: kinds_def)
  show ?thesis
  proof (cases r)
    case (Inl e)
    have "accounted ?sh = fst ` kinds (sh_store sh) \<union> (\<Union>u. carried (((sh_threads sh)(t := Idle)) u))
        \<union> (sh_lost sh \<union> pe_hash ` set chunks)"
      by (simp add: accounted_def write_drained_def w Inl Let_def kinds del: fun_upd_apply)
    with carried_others [of "sh_threads sh" t "pe_hash ` set chunks" Idle] a show ?thesis
      by (auto simp: accounted_def simp del: fun_upd_apply)
  next
    case (Inr m)
    have "drained_ok L V K chunks" using s a by (metis sound_def thread_ok.simps(2))
    then obtain es where es: "chunks = map pack_entry_of es" "es \<noteq> []" "\<forall>e \<in> set es. new_entry L V K e"
      "sum_list (map (\<lambda>e. length (pd_data e)) es) < 2 ^ 25" unfolding drained_ok_def by blast
    have acc: "accounted ?sh = fst ` kinds (sh_store sh) \<union> (\<Union>u. carried (((sh_threads sh)(t := Adding i m task)) u)) \<union> sh_lost sh"
      by (simp add: accounted_def write_drained_def w Inr Let_def kinds del: fun_upd_apply)
    have "carried (sh_threads sh t) \<subseteq> carried (Adding i m task)"
      using written_pack [OF w [unfolded Inr] es(1,2) L es(3,4)] by (simp add: a es(1) pe_hash_entries del: set_map)
    from carried_others [of "sh_threads sh" t "carried (Adding i m task)" "Adding i m task", OF this] carried_update [of "Adding i m task" "sh_threads sh" t]
    show ?thesis unfolding acc unfolding accounted_def by blast
  qed
qed


text \<open>Adding it to the loaded ones.\<close>

lemma add_sound:
  assumes s: "sound L V K sh" and a: "sh_threads sh t = Adding i m task"
  shows "sound L V K (add_pack t i m task sh)"
proof -
  let ?st = "sh_store sh"
  let ?st' = "?st\<lparr>ls_packs := AList.update i m (ls_packs ?st)\<rparr>"
  have p: "pack_of (sh_threads sh t) = Some i" by (simp add: a)
  with s have i: "i \<notin> fst ` set (ls_packs ?st)" "i < ls_next_pack_id ?st"
    "\<And>u. pack_of (sh_threads sh u) = Some i \<Longrightarrow> u = t"
    unfolding sound_def ids_ok_def by blast+
  have u: "AList.update i m (ls_packs ?st) = ls_packs ?st @ [(i, m)]" by (rule update_new) (rule i(1))
  have "thread_ok L V K (ls_dir ?st) (Adding i m task)" using s a by (metis sound_def)
  then have m: "pack_good L V (ls_dir ?st) i m" "new_pack L V K m" by simp_all
  have ok: "store_ok L V K ?st" using s by (simp add: sound_def)
  have "local_fresh ?st'" using ok i(1,2) by (auto simp: store_ok_def local_fresh_def u)
  moreover have "local_sizes ?st'" using ok by (simp add: store_ok_def local_sizes_def pending_bytes_def)
  moreover have "\<forall>(j, m') \<in> set (ls_packs ?st'). pack_good L V (ls_dir ?st') j m'"
    using ok m(1) by (auto simp: store_ok_def u)
  moreover have "\<forall>(h, k) \<in> packs_kinds (ls_packs ?st'). genuine L V h \<and> ((h, k) \<in> K \<or> k = None \<and> h \<notin> fst ` K)"
    using ok m(2) by (auto simp: store_ok_def new_pack_def u)
  moreover have "K \<subseteq> packs_kinds (ls_packs ?st')" using ok by (auto simp: store_ok_def u)
  ultimately have "store_ok L V K ?st'" using ok by (simp add: store_ok_def)
  moreover have "ids_ok (add_pack t i m task sh)"
    unfolding ids_ok_def
  proof (intro allI impI)
    fix v j assume "pack_of (sh_threads (add_pack t i m task sh) v) = Some j"
    then have v: "v \<noteq> t" "pack_of (sh_threads sh v) = Some j" by (auto simp: add_pack_def split: if_splits)
    moreover have "j \<noteq> i" using i(3) v by blast
    ultimately show "j < ls_next_pack_id (sh_store (add_pack t i m task sh))
        \<and> j \<notin> fst ` set (ls_packs (sh_store (add_pack t i m task sh)))
        \<and> (\<forall>w. pack_of (sh_threads (add_pack t i m task sh) w) = Some j \<longrightarrow> w = v)"
      using s unfolding sound_def ids_ok_def by (auto simp: add_pack_def u)
  qed
  ultimately show ?thesis using s by (auto simp: sound_def add_pack_def)
qed

lemma add_accounted:
  assumes "sound L V K sh" and a: "sh_threads sh t = Adding i m task"
  shows "accounted sh \<subseteq> accounted (add_pack t i m task sh)"
proof -
  let ?st = "sh_store sh"
  have "pack_of (sh_threads sh t) = Some i" by (simp add: a)
  with assms(1) have "i \<notin> fst ` set (ls_packs ?st)" unfolding sound_def ids_ok_def by blast
  then have u: "AList.update i m (ls_packs ?st) = ls_packs ?st @ [(i, m)]" by (rule update_new)
  have "accounted (add_pack t i m task sh) = fst ` kinds ?st \<union> fst ` pack_kinds m
      \<union> (\<Union>u. carried (((sh_threads sh)(t := Returning task)) u)) \<union> sh_lost sh"
    by (auto simp: accounted_def add_pack_def u kinds_def image_Un simp del: fun_upd_apply)
  with carried_others [of "sh_threads sh" t "fst ` pack_kinds m" "Returning task"] a show ?thesis
    unfolding accounted_def by auto
qed

text \<open>Putting and signing.\<close>

lemma put_locked_sound:
  assumes s: "sound L V K sh" and a: "sh_threads sh t = Putting new" and room: "ls_next_pack_id (sh_store sh) + 1 \<noteq> 0"
  shows "sound L V K (put_locked t new sh)"
proof (cases "List.find (\<lambda>entry. pd_hash entry = pd_hash new) (ls_pending_chunks (sh_store sh))")
  case (Some entry)
  then show ?thesis using return_sound [OF s] by (simp add: put_locked_def)
next
  case None
  let ?st = "append_entry (sh_store sh) new" and ?sh = "sh\<lparr>sh_store := append_entry (sh_store sh) new\<rparr>"
  let ?task = "Put_Task (pd_hash new) (pd_orig_length new)"
  have "thread_ok L V K (ls_dir (sh_store sh)) (Putting new)" using s a by (metis sound_def)
  then have new: "new_entry L V K new" by simp
  have ok: "store_ok L V K (sh_store sh)" using s by (simp add: sound_def)
  have pend: "\<forall>e \<in> set (ls_pending_chunks ?st). new_entry L V K e" using ok new by (auto simp: store_ok_def)
  have "local_sizes (sh_store sh)" using ok by (simp add: store_ok_def)
  from append_sizes [OF this] new have sz: "unat (ls_pending_size ?st) = pending_bytes ?st" "pending_bytes ?st < 2 ^ 25"
    by (simp_all add: new_entry_def)
  have tgt: "ls_pack_target_size ?st = 16 * 1024 * 1024"
    using ok by (simp add: append_entry_def store_ok_def local_sizes_def)
  have ids: "ids_ok ?sh" using s by (simp add: sound_def ids_ok_def)
  show ?thesis
  proof (cases "ls_pending_size ?st \<ge> ls_pack_target_size ?st")
    case True
    have "store_ok L V K ((sh_store ?sh)\<lparr>ls_pending_chunks := [], ls_pending_size := 0\<rparr>)"
      using ok by (simp add: store_ok_def local_fresh_def local_sizes_def pending_bytes_def append_entry_def)
    moreover have "drained_ok L V K (map pack_entry_of (ls_pending_chunks (sh_store ?sh)))"
      using pending_drained [OF pend _ sz(2)] by simp
    ultimately have "sound L V K (drain t ?task ?sh)"
      using ids by (rule drain_sound) (use s room in \<open>simp_all add: sound_def\<close>)
    then show ?thesis using None True by (simp add: put_locked_def Let_def)
  next
    case False
    then have "pending_bytes ?st < 16 * 1024 * 1024" using sz(1) tgt by (simp add: word_less_nat_alt not_le)
    then have "local_sizes ?st" using sz(1) tgt by (simp add: local_sizes_def)
    moreover have "local_fresh ?st" "ls_indexed ?st" using ok by (simp_all add: store_ok_def)
    ultimately have "store_ok L V K ?st" using ok pend by (simp add: store_ok_def)
    then have "sound L V K ?sh" using s ids by (simp add: sound_def)
    then show ?thesis using None False by (simp add: put_locked_def Let_def proceed_sound)
  qed
qed

lemma put_locked_accounted:
  assumes a: "sh_threads sh t = Putting new"
  shows "insert (pd_hash new) (accounted sh) \<subseteq> accounted (put_locked t new sh)"
proof (cases "List.find (\<lambda>entry. pd_hash entry = pd_hash new) (ls_pending_chunks (sh_store sh))")
  case (Some entry)
  then have "entry \<in> set (ls_pending_chunks (sh_store sh))" "pd_hash entry = pd_hash new" by (auto dest: find_Some_in)
  then have "pd_hash new \<in> fst ` kinds (sh_store sh)" using in_kinds_pending by (metis fst_conv image_eqI)
  with Some a carried_others [of "sh_threads sh" t "{}" Idle] show ?thesis
    unfolding put_locked_def accounted_def by (auto simp del: fun_upd_apply)
next
  case None
  let ?sh = "sh\<lparr>sh_store := append_entry (sh_store sh) new\<rparr>"
  let ?task = "Put_Task (pd_hash new) (pd_orig_length new)"
  have acc: "accounted ?sh = insert (pd_hash new) (accounted sh)" by (simp add: accounted_def)
  have "accounted ?sh \<subseteq> accounted (drain t ?task ?sh)" by (rule drain_accounted) (simp add: a)
  moreover have "accounted ?sh \<subseteq> accounted (proceed t (Returning ?task) ?sh)"
    using carried_others [of "sh_threads sh" t "{}" "Returning ?task"] a
    unfolding accounted_def by (auto simp del: fun_upd_apply)
  ultimately show ?thesis unfolding acc using None by (simp add: put_locked_def Let_def)
qed

lemma sign_sound:
  assumes s: "sound L V K sh" and idle: "sh_threads sh t = Idle"
  shows "sound L V K (sign t h sg sh) \<and> accounted (sign t h sg sh) \<supseteq> accounted sh"
proof (cases "sign_first h sg (ls_pending_chunks (sh_store sh))")
  case None
  have "sh\<lparr>sh_store := sh_store sh\<rparr> = sh" by simp
  then have "sign t h sg sh = return_from t (Signed h (Inl (Err (ChunkNotFound (to_hex h))))) sh"
    by (simp add: sign_def local_put_signature_def None)
  with return_sound [OF s] carried_others [of "sh_threads sh" t "{}" Idle] idle show ?thesis
    unfolding accounted_def by (auto simp del: fun_upd_apply)
next
  case (Some es)
  let ?st = "(sh_store sh)\<lparr>ls_pending_chunks := es\<rparr>"
  have sg: "sign t h sg sh = return_from t (Signed h (Inr ())) (sh\<lparr>sh_store := ?st\<rparr>)"
    by (simp add: sign_def local_put_signature_def Some)
  note sp = sign_first_spec [OF Some]
  have "\<forall>e \<in> set es. new_entry L V K e" using sp s by (fastforce simp: sound_def store_ok_def)
  moreover have "pending_bytes ?st = pending_bytes (sh_store sh)" using sp by (simp add: pending_bytes_alt)
  ultimately have "store_ok L V K ?st" using s by (simp add: sound_def store_ok_def local_fresh_def local_sizes_def)
  then have "sound L V K (sh\<lparr>sh_store := ?st\<rparr>)" using s by (simp add: sound_def ids_ok_def)
  moreover have "kinds ?st = kinds (sh_store sh)" using sp by (simp add: kinds_def)
  ultimately show ?thesis
    using return_sound carried_others [of "sh_threads sh" t "{}" Idle] idle
    unfolding accounted_def sg by (auto simp del: fun_upd_apply return_from_sound)
qed


text \<open>What is promised is accounted for.\<close>

fun ack_of :: "returned \<Rightarrow> hash set" where
  "ack_of (Put_Returned h (Inr loc)) = {h}"
| "ack_of _ = {}"

fun put_of :: "task option \<Rightarrow> hash set" where
  "put_of (Some (Put_Task h orig_length)) = {h}"
| "put_of _ = {}"

lemma put_of_iff: "h \<in> put_of x \<longleftrightarrow> (\<exists>l. x = Some (Put_Task h l))"
  by (cases x rule: put_of.cases) auto

lemma ack_of_iff: "h \<in> ack_of r \<longleftrightarrow> (\<exists>loc. r = Put_Returned h (Inr loc))"
  by (cases r rule: ack_of.cases) auto

lemma promised_store [simp]: "promised (sh\<lparr>sh_store := st\<rparr>) = promised sh" "promised (sh\<lparr>sh_lost := X\<rparr>) = promised sh"
  by (simp_all add: promised_def acknowledged_def)

lemma promised_proceed: "promised (proceed t a sh) \<subseteq> promised sh \<union> put_of (task_of a)"
  by (auto simp: promised_def acknowledged_def put_of_iff split: if_splits)

lemma promised_return: "promised (return_from t r sh) \<subseteq> promised sh \<union> ack_of r"
  by (auto simp: promised_def acknowledged_def ack_of_iff split: if_splits)

lemma promised_task: "task_of (sh_threads sh t) = Some task \<Longrightarrow> put_of (Some task) \<subseteq> promised sh"
  unfolding promised_def by (metis (mono_tags, lifting) UnCI mem_Collect_eq put_of_iff subsetI)

lemma ack_succeeded: "ack_of (succeeded st task) = put_of (Some task)"
  by (cases task) simp_all

lemma ack_failed: "ack_of (failed task e) = {}"
  by (cases task) simp_all

lemma promised_drain: "promised (drain t task sh) \<subseteq> promised sh \<union> put_of (Some task)"
  unfolding drain_simps using promised_proceed by fastforce

lemma accounted_idle:
  "carried (sh_threads sh t) = {} \<Longrightarrow> accounted (proceed t a sh) \<supseteq> accounted sh"
  "carried (sh_threads sh t) = {} \<Longrightarrow> accounted (return_from t r sh) \<supseteq> accounted sh"
proof -
  assume "carried (sh_threads sh t) = {}"
  then have "(\<Union>u. carried (sh_threads sh u)) \<subseteq> (\<Union>u. carried (((sh_threads sh)(t := b)) u))" for b
    using carried_others [of "sh_threads sh" t "{}" b] by simp
  then show "accounted (proceed t a sh) \<supseteq> accounted sh" "accounted (return_from t r sh) \<supseteq> accounted sh"
    unfolding accounted_def proceed_simps return_from_simps by blast+
qed

definition in_order :: "libs \<Rightarrow> (hash \<Rightarrow> bytes) \<Rightarrow> (hash \<times> hash option) set \<Rightarrow> shared \<Rightarrow> bool" where
  "in_order L V K sh \<longleftrightarrow> sound L V K sh \<and> promised sh \<subseteq> accounted sh"

text \<open>One lemma for each kind of step.\<close>

definition kept_by :: "libs \<Rightarrow> (hash \<Rightarrow> bytes) \<Rightarrow> (hash \<times> hash option) set \<Rightarrow> shared \<Rightarrow> shared \<Rightarrow> bool" where
  "kept_by L V K sh sh' \<longleftrightarrow> in_order L V K sh' \<and> accounted sh \<subseteq> accounted sh'"

lemma kept_byI:
  assumes "in_order L V K sh" and "sound L V K sh'" and "accounted sh \<subseteq> accounted sh'"
    and "promised sh' \<subseteq> promised sh \<union> X" and "X \<subseteq> accounted sh'"
  shows "kept_by L V K sh sh'"
  using assms unfolding in_order_def kept_by_def by blast

lemma in_orderD: "in_order L V K sh \<Longrightarrow> sound L V K sh"
  by (simp add: in_order_def)

lemma kept_put_call:
  assumes o: "in_order L V K sh" and t: "sh_threads sh t = Idle" and new: "chunk_entry L V new"
  shows "kept_by L V K sh (put_begin t new sh)"
proof (cases "lookup_index (sh_index sh) (sh_store sh) (pd_hash new)")
  case None
  then have b: "put_begin t new sh = proceed t (Putting new) sh" by (simp add: put_begin_def)
  have "ls_indexed (sh_store sh)" "fst ` K \<subseteq> dom (sh_index sh)" using o by (simp_all add: in_order_def sound_def store_ok_def)
  with None have "pd_hash new \<notin> fst ` K" by (auto simp: lookup_index_def)
  then have "sound L V K (proceed t (Putting new) sh)"
    using proceed_sound [OF in_orderD [OF o]] chunk_entry_new [OF new] by simp
  moreover have "accounted sh \<subseteq> accounted (proceed t (Putting new) sh)" by (rule accounted_idle) (simp add: t)
  ultimately show ?thesis
    using kept_byI [OF o, of _ "{}"] promised_proceed [of t "Putting new" sh] unfolding b by simp
next
  case (Some loc)
  let ?r = "Put_Returned (pd_hash new) (Inr loc)"
  have b: "put_begin t new sh = return_from t ?r sh" using Some by (simp add: put_begin_def)
  have "pd_hash new \<in> promised sh" using Some by (auto simp: lookup_index_def promised_def split: if_splits)
  then have "promised (return_from t ?r sh) \<subseteq> promised sh \<union> {}" using promised_return [of t ?r sh] by auto
  moreover have "accounted sh \<subseteq> accounted (return_from t ?r sh)" by (rule accounted_idle) (simp add: t)
  ultimately show ?thesis
    using kept_byI [OF o return_sound [OF in_orderD [OF o]], of _ _ "{}"] unfolding b by blast
qed

lemma promised_put_locked: "promised (put_locked t new sh) \<subseteq> promised sh \<union> {pd_hash new}"
proof (cases "List.find (\<lambda>entry. pd_hash entry = pd_hash new) (ls_pending_chunks (sh_store sh))")
  case None
  let ?task = "Put_Task (pd_hash new) (pd_orig_length new)" and ?sh = "sh\<lparr>sh_store := append_entry (sh_store sh) new\<rparr>"
  show ?thesis
    using promised_drain [of t ?task ?sh] promised_proceed [of t "Returning ?task" ?sh] None
    by (simp add: put_locked_def Let_def)
next
  case (Some entry)
  then show ?thesis
    using promised_return [of t "Put_Returned (pd_hash new) (Inr (placeholder (sh_store sh) (pd_orig_length entry)))" sh]
    by (simp add: put_locked_def)
qed

lemma kept_put_lock:
  assumes o: "in_order L V K sh" and t: "sh_threads sh t = Putting new" and room: "ls_next_pack_id (sh_store sh) + 1 \<noteq> 0"
  shows "kept_by L V K sh (put_locked t new sh)"
  using kept_byI [OF o put_locked_sound [OF in_orderD [OF o] t room] _ promised_put_locked] put_locked_accounted [OF t]
  by blast

lemma kept_flush_call:
  assumes o: "in_order L V K sh" and t: "sh_threads sh t = Idle" and room: "ls_next_pack_id (sh_store sh) + 1 \<noteq> 0"
  shows "kept_by L V K sh (flush_begin t sh)"
proof (cases "ls_pending_chunks (sh_store sh) = []")
  case True
  then have b: "flush_begin t sh = return_from t (Flushed (Inr ())) sh" by (simp add: flush_begin_def)
  have "accounted sh \<subseteq> accounted (return_from t (Flushed (Inr ())) sh)" by (rule accounted_idle) (simp add: t)
  then show ?thesis
    using kept_byI [OF o return_sound [OF in_orderD [OF o]], of _ _ "{}"] promised_return [of t "Flushed (Inr ())" sh]
    unfolding b by simp
next
  case False
  then have b: "flush_begin t sh = drain t Flush_Task sh" by (simp add: flush_begin_def)
  have s: "sound L V K sh" by (rule in_orderD [OF o])
  then have ok: "store_ok L V K (sh_store sh)" by (simp add: sound_def)
  have "store_ok L V K ((sh_store sh)\<lparr>ls_pending_chunks := [], ls_pending_size := 0\<rparr>)"
    using ok by (simp add: store_ok_def local_fresh_def local_sizes_def pending_bytes_def)
  moreover have "drained_ok L V K (map pack_entry_of (ls_pending_chunks (sh_store sh)))"
    by (rule pending_drained) (use ok False in \<open>simp_all add: store_ok_def local_sizes_def\<close>)
  ultimately have "sound L V K (drain t Flush_Task sh)" by (rule drain_sound) (use s room in \<open>simp_all add: sound_def\<close>)
  moreover have "accounted sh \<subseteq> accounted (drain t Flush_Task sh)" by (rule drain_accounted) (simp add: t)
  ultimately show ?thesis
    using kept_byI [OF o, of _ "{}"] promised_drain [of t Flush_Task sh] unfolding b by simp
qed

lemma kept_file_written:
  assumes L: "libs_ok L" "packs_fit L" and o: "in_order L V K sh" and t: "sh_threads sh t = Flushing i chunks task"
  shows "kept_by L V K sh (write_drained L io t i chunks task sh)"
proof -
  note s = in_orderD [OF o]
  have task: "put_of (Some task) \<subseteq> promised sh" by (rule promised_task [of sh t]) (simp add: t)
  obtain r dir where w: "flush_write L io chunks i (ls_dir (sh_store sh)) = (r, dir)" by force
  let ?sh = "sh\<lparr>sh_store := (sh_store sh)\<lparr>ls_dir := dir\<rparr>\<rparr>"
  have "promised (write_drained L io t i chunks task sh) \<subseteq> promised sh \<union> {}"
  proof (cases r)
    case (Inl e)
    then show ?thesis using promised_return [of t "failed task e" ?sh] by (simp add: write_drained_def w Let_def ack_failed)
  next
    case (Inr m)
    then show ?thesis using promised_proceed [of t "Adding i m task" ?sh] task by (simp add: write_drained_def w Let_def) blast
  qed
  then show ?thesis by (rule kept_byI [OF o write_sound [OF s L t] write_accounted [OF s L t]]) simp
qed

lemma kept_pack_added:
  assumes o: "in_order L V K sh" and t: "sh_threads sh t = Adding i meta task"
  shows "kept_by L V K sh (add_pack t i meta task sh)"
proof -
  note s = in_orderD [OF o]
  have task: "put_of (Some task) \<subseteq> promised sh" by (rule promised_task [of sh t]) (simp add: t)
  have "promised (add_pack t i meta task sh) \<subseteq> promised sh \<union> {}"
    using promised_proceed [of t "Returning task"] task unfolding add_pack_def by fastforce
  then show ?thesis by (rule kept_byI [OF o add_sound [OF s t] add_accounted [OF s t]]) simp
qed

lemma kept_call_returns:
  assumes o: "in_order L V K sh" and t: "sh_threads sh t = Returning task"
  shows "kept_by L V K sh (return_from t (succeeded (sh_store sh) task) sh)"
proof -
  let ?r = "succeeded (sh_store sh) task"
  have "put_of (Some task) \<subseteq> promised sh" by (rule promised_task [of sh t]) (simp add: t)
  then have "promised (return_from t ?r sh) \<subseteq> promised sh \<union> {}"
    using promised_return [of t ?r sh] unfolding ack_succeeded by blast
  moreover have "accounted sh \<subseteq> accounted (return_from t ?r sh)" by (rule accounted_idle) (simp add: t)
  ultimately show ?thesis using kept_byI [OF o return_sound [OF in_orderD [OF o]], of _ _ "{}"] by blast
qed

lemma kept_sign_call:
  assumes o: "in_order L V K sh" and t: "sh_threads sh t = Idle"
  shows "kept_by L V K sh (sign t h sg sh)"
proof -
  obtain r st where "local_put_signature (sh_store sh) h sg = (r, st)" by force
  then have "promised (sign t h sg sh) \<subseteq> promised sh \<union> {}"
    using promised_return [of t "Signed h r" "sh\<lparr>sh_store := st\<rparr>"] by (simp add: sign_def)
  with kept_byI [OF o] sign_sound [OF in_orderD [OF o] t, of h sg] show ?thesis by blast
qed

lemma kept_index_learns:
  assumes o: "in_order L V K sh" and h: "(t, Put_Returned h (Inr loc)) \<in> set (sh_log sh)"
  shows "kept_by L V K sh (sh\<lparr>sh_index := (sh_index sh)(h \<mapsto> loc)\<rparr>)"
proof -
  let ?sh = "sh\<lparr>sh_index := (sh_index sh)(h \<mapsto> loc)\<rparr>"
  have "h \<in> promised sh" using h by (auto simp: promised_def acknowledged_def)
  then have "promised ?sh \<subseteq> promised sh \<union> {}" by (auto simp: promised_def acknowledged_def split: if_splits)
  moreover have "sound L V K ?sh" using in_orderD [OF o] by (auto simp: sound_def ids_ok_def)
  moreover have "accounted ?sh = accounted sh" by (simp add: accounted_def)
  ultimately show ?thesis using kept_byI [OF o, of ?sh "{}"] by simp
qed

lemma kept_by_step:
  assumes L: "libs_ok L" "packs_fit L" and o: "in_order L V K sh" and room: "ls_next_pack_id (sh_store sh) + 1 \<noteq> 0"
    and step: "shared_step L (chunk_entry L V) sh sh'"
  shows "kept_by L V K sh sh'"
  using step
proof cases
  case put_call then show ?thesis using kept_put_call [OF o] by simp
next
  case put_lock then show ?thesis using kept_put_lock [OF o _ room] by simp
next
  case flush_call then show ?thesis using kept_flush_call [OF o _ room] by simp
next
  case file_written then show ?thesis using kept_file_written [OF L o] by simp
next
  case pack_added then show ?thesis using kept_pack_added [OF o] by simp
next
  case call_returns then show ?thesis using kept_call_returns [OF o] by simp
next
  case sign_call then show ?thesis using kept_sign_call [OF o] by simp
next
  case index_learns then show ?thesis using kept_index_learns [OF o] by simp
qed


section \<open>Runs\<close>

text \<open>A step takes at most one pack id.\<close>

lemma step_next_id:
  assumes "shared_step L P sh sh'"
  shows "ls_next_pack_id (sh_store sh') \<in> {ls_next_pack_id (sh_store sh), ls_next_pack_id (sh_store sh) + 1}"
  using assms
proof cases
  case (sign_call t h sg)
  obtain r st where s: "local_put_signature (sh_store sh) h sg = (r, st)" by force
  then have "ls_next_pack_id st = ls_next_pack_id (sh_store sh)"
    by (auto simp: local_put_signature_def split: option.splits)
  with s sign_call show ?thesis by (simp add: sign_def)
qed (auto simp: put_begin_def put_locked_def flush_begin_def write_drained_def add_pack_def drain_simps Let_def
      split: option.splits prod.splits sum.splits)

lemma run_in_order:
  assumes L: "libs_ok L" "packs_fit L" and o: "in_order L V K sh0"
    and "(shared_step L (chunk_entry L V) ^^ n) sh0 sh" and "unat (ls_next_pack_id (sh_store sh0)) + n + m < 2 ^ 32"
  shows "kept_by L V K sh0 sh \<and> unat (ls_next_pack_id (sh_store sh)) + m < 2 ^ 32"
  using assms(4,5)
proof (induction n arbitrary: sh m)
  case 0
  then show ?case using o by (simp add: kept_by_def)
next
  case (Suc n)
  then obtain sh1 where run: "(shared_step L (chunk_entry L V) ^^ n) sh0 sh1" and step: "shared_step L (chunk_entry L V) sh1 sh"
    by auto
  from Suc.IH [OF run, of "Suc m"] Suc.prems(2)
  have IH: "kept_by L V K sh0 sh1" "unat (ls_next_pack_id (sh_store sh1)) + Suc m < 2 ^ 32" by simp_all
  note room = room_next [OF IH(2)]
  from IH(1) kept_by_step [OF L _ conjunct1 [OF room] step, of K] have "kept_by L V K sh0 sh"
    unfolding kept_by_def by blast
  with step_next_id [OF step] room IH(2) show ?case by auto
qed

text \<open>A store that was opened, with its index.\<close>

lemma init_in_order:
  assumes "local_serving L V n st" and "local_settled st" and "dom ix = fst ` kinds st"
  shows "in_order L V (kinds st) (shared_init st ix) \<and> accounted (shared_init st ix) = fst ` kinds st"
proof -
  have k: "kinds st = packs_kinds (ls_packs st)" using assms(2) by (simp add: local_settled_def kinds_def)
  have "store_ok L V (kinds st) st"
    using assms(1,2) by (auto simp: store_ok_def local_serving_def local_ready_def local_inv_def local_settled_def k)
  then have "sound L V (kinds st) (shared_init st ix)"
    using assms(3) by (simp add: sound_def shared_init_def ids_ok_def)
  moreover have "accounted (shared_init st ix) = fst ` kinds st" by (simp add: accounted_def shared_init_def)
  moreover have "promised (shared_init st ix) = dom ix" by (simp add: promised_def acknowledged_def shared_init_def)
  ultimately show ?thesis using assms(3) by (simp add: in_order_def)
qed

text \<open>When no thread is busy and nothing was lost, the store serves all it has promised.\<close>

lemma quiet_serves:
  assumes L: "libs_ok L" "packs_fit L" and o: "in_order L V K sh"
    and idle: "\<forall>t. sh_threads sh t = Idle" and lost: "sh_lost sh = {}" and h: "h \<in> accounted sh"
  shows "local_serving L V 0 (sh_store sh) \<and> h \<in> fst ` kinds (sh_store sh)
    \<and> local_get L (sh_index sh) (sh_store sh) h = Inr (V h)"
proof -
  let ?st = "sh_store sh"
  have ok: "store_ok L V K ?st" using o by (simp add: in_order_def sound_def)
  have pend: "k = None \<and> genuine L V h' \<and> h' \<notin> fst ` K" if "(h', k) \<in> pending_kinds (ls_pending_chunks ?st)" for h' k
    using ok that by (auto simp: store_ok_def pending_kinds_def new_entry_def)
  have packs: "genuine L V h' \<and> ((h', k) \<in> K \<or> k = None)" if "(h', k) \<in> packs_kinds (ls_packs ?st)" for h' k
    using ok that by (auto simp: store_ok_def)
  have gen: "genuine L V h'" if "(h', k) \<in> kinds ?st" for h' k
    using that pend packs unfolding kinds_def by blast
  have serving: "local_serving L V 0 ?st"
    using ok L store_ok_inv [OF ok] gen unat_less_u32 [of "ls_next_pack_id ?st"]
    by (auto simp: local_serving_def local_ready_def store_ok_def)
  have "h \<in> fst ` kinds ?st" using h idle lost by (simp add: accounted_def)
  then obtain k where k: "(h, k) \<in> kinds ?st" by auto
  have "local_get L (sh_index sh) ?st h = Inr (V h)"
  proof (cases k)
    case None
    then show ?thesis using serving_get_full [OF serving] k by simp
  next
    case (Some b)
    with k pend packs have "h \<in> fst ` K" unfolding kinds_def by force
    then have "(h, k') \<notin> pending_kinds (ls_pending_chunks ?st)" for k' using pend by blast
    then have "h \<notin> fst ` pending_kinds (ls_pending_chunks ?st)" by force
    then have np: "\<forall>e \<in> set (ls_pending_chunks ?st). pd_hash e \<noteq> h" by (simp add: pending_kinds_def image_image) blast
    have "ix_sound L V ?st (sh_index sh)" by (rule genuine_ix_sound) (use gen in auto)
    then show ?thesis unfolding local_get_def
      by (rule get_inner_delta [OF store_ok_inv [OF ok] _ k [unfolded Some] np]) simp
  qed
  with serving \<open>h \<in> fst ` kinds ?st\<close> show ?thesis by simp
qed


section \<open>The directory\<close>

text \<open>
  As long as nothing was lost, the packs in the directory are those that are loaded and those that a
  thread is about to add.
\<close>

definition dir_within :: "u32 set \<Rightarrow> dir \<Rightarrow> bool" where
  "dir_within I dir \<longleftrightarrow> distinct (map fst dir)
     \<and> (\<forall>name \<in> fst ` set dir. has_pack_extension name \<longrightarrow>
          (case Option.bind (strip_suffix ''.pack'' name) parse_u32 of
             None \<Rightarrow> True
           | Some i \<Rightarrow> name = pack_name i \<and> i \<in> I))"

lemma dir_complete_within: "dir_complete st \<longleftrightarrow> dir_within (fst ` set (ls_packs st)) (ls_dir st)"
  unfolding dir_complete_def dir_within_def ..

lemma dir_within_mono: "dir_within I dir \<Longrightarrow> I \<subseteq> J \<Longrightarrow> dir_within J dir"
  unfolding dir_within_def by (fastforce split: option.splits)

lemma dir_within_write:
  assumes d: "dir_within I dir" and w: "flush_write L io chunks i dir = (Inr m, dir')" and ne: "chunks \<noteq> []"
  shows "dir_within (insert i I) dir'"
proof -
  from flush_write_ok [OF w ne] obtain p where dir': "dir' = AList.update (pack_name i) p
      (AList.delete (tmp_name i) (AList.update (tmp_name i) p dir))" by auto
  have "distinct (map fst dir)" using d by (simp add: dir_within_def)
  then have "distinct (map fst dir')" unfolding dir' by (intro distinct_update distinct_delete)
  moreover have names: "name = pack_name i \<or> name \<in> fst ` set dir" if "name \<in> fst ` set dir'" for name
  proof -
    from that have "name \<in> set (map fst dir')" by simp
    then show ?thesis unfolding dir' by (auto simp: update_keys delete_keys split: if_splits)
  qed
  moreover have "case Option.bind (strip_suffix ''.pack'' name) parse_u32 of
      None \<Rightarrow> True | Some j \<Rightarrow> name = pack_name j \<and> j \<in> insert i I"
    if "name \<in> fst ` set dir'" "has_pack_extension name" for name
  proof (cases "name = pack_name i")
    case True
    then show ?thesis by simp
  next
    case False
    with that names have "name \<in> fst ` set dir" by blast
    with d that(2) have "case Option.bind (strip_suffix ''.pack'' name) parse_u32 of
        None \<Rightarrow> True | Some j \<Rightarrow> name = pack_name j \<and> j \<in> I"
      unfolding dir_within_def by blast
    then show ?thesis by (simp split: option.splits)
  qed
  ultimately show ?thesis unfolding dir_within_def by blast
qed

definition adding :: "shared \<Rightarrow> u32 set" where
  "adding sh = {i. \<exists>t m task. sh_threads sh t = Adding i m task}"

definition listed :: "shared \<Rightarrow> bool" where
  "listed sh \<longleftrightarrow> sh_lost sh = {}
     \<longrightarrow> dir_within (fst ` set (ls_packs (sh_store sh)) \<union> adding sh) (ls_dir (sh_store sh))"

lemma listed_same:
  assumes "listed sh" and "sh_lost sh' = sh_lost sh" and "ls_dir (sh_store sh') = ls_dir (sh_store sh)"
    and "ls_packs (sh_store sh') = ls_packs (sh_store sh)" and "adding sh \<subseteq> adding sh'"
  shows "listed sh'"
  using assms(1) Un_mono [OF subset_refl assms(5), of "fst ` set (ls_packs (sh_store sh))"]
  unfolding listed_def assms(2-4) by (meson dir_within_mono)

lemma addingI: "sh_threads sh u = Adding i m task \<Longrightarrow> i \<in> adding sh"
  by (auto simp: adding_def)

lemma adding_update:
  assumes "\<forall>i m task. sh_threads sh t \<noteq> Adding i m task" and "sh_threads sh' = (sh_threads sh)(t := a)"
  shows "adding sh \<subseteq> adding sh'"
proof
  fix i assume "i \<in> adding sh"
  then obtain u m task where u: "sh_threads sh u = Adding i m task" by (auto simp: adding_def)
  then have "u \<noteq> t" using assms(1) by blast
  with u have "sh_threads sh' u = Adding i m task" by (simp add: assms(2))
  then show "i \<in> adding sh'" by (rule addingI)
qed

lemma listed_proceed:
  assumes "listed sh" and "\<forall>i m task. sh_threads sh t \<noteq> Adding i m task"
  shows "listed (proceed t a sh)" "listed (return_from t r sh)" "listed (drain t task sh)"
proof -
  show "listed (proceed t a sh)" by (rule listed_same [OF assms(1)]) (use adding_update [OF assms(2)] in simp_all)
  show "listed (return_from t r sh)" by (rule listed_same [OF assms(1)]) (use adding_update [OF assms(2)] in simp_all)
  show "listed (drain t task sh)"
    by (rule listed_same [OF assms(1)]) (use adding_update [OF assms(2)] in \<open>simp_all add: drain_simps\<close>)
qed

lemma listed_store: "listed (sh\<lparr>sh_store := append_entry (sh_store sh) new\<rparr>) = listed sh"
  by (simp add: listed_def adding_def)

lemma listed_written:
  assumes "listed sh" and s: "sound L V K sh" and t: "sh_threads sh t = Flushing i chunks task"
  shows "listed (write_drained L io t i chunks task sh)"
proof -
  have "drained_ok L V K chunks" using s t by (metis sound_def thread_ok.simps(2))
  then have ne: "chunks \<noteq> []" by (auto simp: drained_ok_def)
  obtain r dir where w: "flush_write L io chunks i (ls_dir (sh_store sh)) = (r, dir)" by force
  show ?thesis
  proof (cases r)
    case (Inl e)
    then show ?thesis using ne by (simp add: listed_def write_drained_def w Let_def)
  next
    case (Inr m)
    let ?sh = "write_drained L io t i chunks task sh"
    have "insert i (adding sh) \<subseteq> adding ?sh"
    proof -
      have "sh_threads ?sh t = Adding i m task" by (simp add: write_drained_def w Inr Let_def)
      moreover have "adding sh \<subseteq> adding ?sh"
        by (rule adding_update [where t = t]) (simp_all add: t write_drained_def w Inr Let_def)
      ultimately show ?thesis unfolding adding_def by blast
    qed
    moreover have "dir_within (insert i (fst ` set (ls_packs (sh_store sh)) \<union> adding sh)) dir" if "sh_lost sh = {}"
      using dir_within_write [OF _ w [unfolded Inr] ne] assms(1) that by (simp add: listed_def)
    moreover have "sh_lost ?sh = sh_lost sh" "ls_packs (sh_store ?sh) = ls_packs (sh_store sh)" "ls_dir (sh_store ?sh) = dir"
      by (simp_all add: write_drained_def w Inr Let_def)
    ultimately show ?thesis unfolding listed_def by (auto elim!: dir_within_mono)
  qed
qed

lemma listed_step:
  assumes "shared_step L P sh sh'" and l: "listed sh" and s: "sound L V K sh"
  shows "listed sh'"
  using assms(1)
proof cases
  case (put_call t new)
  then show ?thesis using listed_proceed [OF l, of t] by (simp add: put_begin_def split: option.split)
next
  case (put_lock t new)
  then show ?thesis
    using listed_proceed [OF l, of t] listed_proceed [OF l [folded listed_store [of sh new]], of t]
    by (simp add: put_locked_def Let_def split: option.split)
next
  case (flush_call t)
  then show ?thesis using listed_proceed [OF l, of t] by (simp add: flush_begin_def)
next
  case (file_written t i chunks task io)
  then show ?thesis using listed_written [OF l s] by simp
next
  case (pack_added t i m task)
  have "j \<in> insert i (adding sh')" if "j \<in> adding sh" for j
  proof -
    from that obtain u m' task' where u: "sh_threads sh u = Adding j m' task'" by (auto simp: adding_def)
    show ?thesis using u addingI [of sh' u j m' task'] pack_added by (cases "u = t") (auto simp: add_pack_def)
  qed
  then have "adding sh \<subseteq> insert i (adding sh')" by blast
  moreover have "fst ` set (ls_packs (sh_store sh')) = insert i (fst ` set (ls_packs (sh_store sh)))"
    by (simp add: pack_added(1) add_pack_def dom_update)
  moreover have "ls_dir (sh_store sh') = ls_dir (sh_store sh)" "sh_lost sh' = sh_lost sh"
    by (simp_all add: pack_added(1) add_pack_def)
  ultimately show ?thesis using l unfolding listed_def by (auto elim!: dir_within_mono)
next
  case (call_returns t task)
  then show ?thesis using listed_proceed [OF l, of t] by simp
next
  case (sign_call t h sg)
  obtain r st where st: "local_put_signature (sh_store sh) h sg = (r, st)" by force
  then have "ls_packs st = ls_packs (sh_store sh)" "ls_dir st = ls_dir (sh_store sh)"
    by (auto simp: local_put_signature_def split: option.splits)
  with l have "listed (sh\<lparr>sh_store := st\<rparr>)" by (simp add: listed_def adding_def)
  from listed_proceed(2) [OF this, of t] sign_call st show ?thesis by (simp add: sign_def)
next
  case (index_learns t h loc)
  then show ?thesis using l by (simp add: listed_def adding_def)
qed


section \<open>Properties\<close>

lemma run_listed:
  assumes L: "libs_ok L" "packs_fit L" and o: "in_order L V K sh0" and l: "listed sh0"
    and "(shared_step L (chunk_entry L V) ^^ n) sh0 sh" and "unat (ls_next_pack_id (sh_store sh0)) + n < 2 ^ 32"
  shows "listed sh"
  using assms(5,6)
proof (induction n arbitrary: sh)
  case 0
  then show ?case using l by simp
next
  case (Suc n)
  then obtain sh1 where run: "(shared_step L (chunk_entry L V) ^^ n) sh0 sh1" and step: "shared_step L (chunk_entry L V) sh1 sh"
    by auto
  have "sound L V K sh1" using run_in_order [OF L o run, of 0] Suc.prems(2) by (simp add: kept_by_def in_order_def)
  from listed_step [OF step _ this] Suc.IH [OF run] Suc.prems(2) show ?case by simp
qed

text \<open>
  C6. Threads that share a local store lose nothing: let any number of threads put chunks, sign them and
  flush, at any interleaving of the sections that the lock protects and of the writing of packs. When
  no call is under way and no pack failed to be written, every chunk that the store had, or whose put
  has returned without an error, is read back; and if nothing is pending, a store opened on the
  directory reads it back.
\<close>

theorem concurrent_store_safe:
  assumes "local_serving L V n st" and "local_settled st" and "dir_complete st" and "dom ix = fst ` kinds st"
    and "(shared_step L (chunk_entry L V) ^^ n) (shared_init st ix) sh"
    and "\<forall>t. sh_threads sh t = Idle" and "sh_lost sh = {}"
    and "h \<in> fst ` kinds st \<or> (t, Put_Returned h (Inr loc)) \<in> set (sh_log sh)"
  shows "local_get L (sh_index sh) (sh_store sh) h = Inr (V h)
    \<and> (ls_pending_chunks (sh_store sh) = []
       \<longrightarrow> (\<exists>st2. store_open_local L keyed path (Some (ls_dir (sh_store sh))) manifests = Inr st2
             \<and> local_get L (sr_index st2) (sr_store st2) h = Inr (V h)))"
proof -
  have L: "libs_ok L" "packs_fit L" and room: "unat (ls_next_pack_id (sh_store (shared_init st ix))) + n < 2 ^ 32"
    using assms(1) by (simp_all add: local_serving_def local_ready_def shared_init_def)
  note init = init_in_order [OF assms(1,2,4)]
  have l: "listed (shared_init st ix)"
    using assms(3) by (simp add: listed_def adding_def shared_init_def dir_complete_within)
  from run_in_order [OF L conjunct1 [OF init] assms(5), of 0] room
  have o: "in_order L V (kinds st) sh" and acc: "fst ` kinds st \<subseteq> accounted sh"
    using init by (simp_all add: kept_by_def)
  have "h \<in> fst ` kinds st \<or> h \<in> acknowledged sh" using assms(8) unfolding acknowledged_def by blast
  then have "h \<in> accounted sh" using acc o unfolding in_order_def promised_def by blast
  note serves = quiet_serves [OF L o assms(6,7) this]
  have dir: "dir_complete (sh_store sh)"
    using run_listed [OF L conjunct1 [OF init] l assms(5) room] assms(6,7)
    by (simp add: listed_def adding_def dir_complete_within)
  have "\<exists>st2. store_open_local L keyed path (Some (ls_dir (sh_store sh))) manifests = Inr st2
             \<and> local_get L (sr_index st2) (sr_store st2) h = Inr (V h)" if "ls_pending_chunks (sh_store sh) = []"
  proof -
    have "dir_holds L V (packs_kinds (ls_packs (sh_store sh))) (ls_dir (sh_store sh))"
      by (rule dir_holds_packs [OF _ _ dir]) (use serves in \<open>auto simp: local_serving_def local_ready_def\<close>)
    from reopened_holds [OF this, of keyed path manifests] obtain st2 where
      "store_open_local L keyed path (Some (ls_dir (sh_store sh))) manifests = Inr st2"
      "\<forall>(h, k) \<in> packs_kinds (ls_packs (sh_store sh)). local_get L (sr_index st2) (sr_store st2) h = Inr (V h)" by blast
    with serves that show ?thesis by (auto simp: kinds_def)
  qed
  with serves show ?thesis by blast
qed

text \<open>Two threads put the same chunk before the index knows it; the second finds it pending, the first flushes.\<close>

lemma demo_pending:
  "append_entry (empty_store []) (full_entry hash_a chunk_a) = demo_put"
  "ls_pending_chunks demo_put = [full_entry hash_a chunk_a]"
  "\<not> ls_pack_target_size demo_put \<le> ls_pending_size demo_put"
  by (simp_all add: demo_put_def local_put_def put_entry_def lookup_index_def append_entry_def empty_store_def
      full_entry_def placeholder_def chunk_a_def Let_def)

lemma demo_both_put:
  "\<exists>sh loc. (shared_step demo_libs (chunk_entry demo_libs demo_value) ^^ 5) (shared_init (empty_store []) (\<lambda>_. None)) sh
    \<and> sh_store sh = demo_put \<and> (\<forall>t. sh_threads sh t = Idle) \<and> sh_lost sh = {}
    \<and> sh_log sh = [(1, Put_Returned hash_a (Inr loc)), (0, Put_Returned hash_a (Inr loc))]"
proof -
  let ?P = "chunk_entry demo_libs demo_value" and ?e = "full_entry hash_a chunk_a"
  let ?T = "Put_Task hash_a 3" and ?loc = "placeholder demo_put 3"
  define s0 where "s0 = shared_init (empty_store []) (\<lambda>_. None)"
  define s3 where "s3 = \<lparr>sh_store = demo_put, sh_index = \<lambda>_. None, sh_threads = (\<lambda>_. Idle)(0 := Returning ?T, 1 := Putting ?e),
    sh_log = [], sh_lost = {}\<rparr>"
  define s5 where "s5 = return_from 0 (Put_Returned hash_a (Inr ?loc)) (return_from 1 (Put_Returned hash_a (Inr ?loc)) s3)"
  have e: "?P ?e" "pd_hash ?e = hash_a" "pd_orig_length ?e = 3"
    using demo_genuine by (simp_all add: chunk_entry_def full_entry_def demo_value_def chunk_a_def)
  note put = demo_pending
  have "shared_step demo_libs ?P s0 (put_begin 0 ?e s0)" by (rule put_call) (simp_all add: s0_def shared_init_def e)
  then have 1: "shared_step demo_libs ?P s0 (proceed 0 (Putting ?e) s0)"
    by (simp add: put_begin_def s0_def shared_init_def lookup_index_def)
  let ?s1 = "proceed 0 (Putting ?e) s0"
  let ?s2 = "proceed 1 (Putting ?e) ?s1"
  have "shared_step demo_libs ?P ?s1 (put_begin 1 ?e ?s1)" by (rule put_call) (simp_all add: s0_def shared_init_def e)
  then have 2: "shared_step demo_libs ?P ?s1 ?s2"
    by (simp add: put_begin_def s0_def shared_init_def lookup_index_def)
  have pend0: "ls_pending_chunks (empty_store []) = []" "sh_store s0 = empty_store []" by (simp_all add: empty_store_def s0_def shared_init_def)
  have "put_locked 0 ?e ?s2 = s3"
    by (simp add: put_locked_def pend0 e put Let_def) (simp add: s3_def s0_def shared_init_def proceed_def fun_eq_iff)
  with put_lock [of ?s2 0 ?e demo_libs ?P] have 3: "shared_step demo_libs ?P ?s2 s3" by simp
  let ?s4 = "return_from 1 (Put_Returned hash_a (Inr ?loc)) s3"
  have "put_locked 1 ?e s3 = ?s4" by (simp add: put_locked_def s3_def put e)
  with put_lock [of s3 1 ?e demo_libs ?P] have 4: "shared_step demo_libs ?P s3 ?s4" by (simp add: s3_def)
  have 5: "shared_step demo_libs ?P ?s4 s5"
    using call_returns [of ?s4 0 ?T demo_libs ?P] by (simp add: s5_def s3_def)
  have "(shared_step demo_libs ?P ^^ 5) s0 s5"
    unfolding numeral_eq_Suc pred_numeral_simps BitM.simps
    using 1 2 3 4 5 by (meson relpowp_0_I relpowp_Suc_I)
  then show ?thesis unfolding s0_def
    by (intro exI [of _ s5] exI [of _ ?loc]) (simp add: s5_def s3_def)
qed

lemma demo_race:
  "\<exists>sh loc. (shared_step demo_libs (chunk_entry demo_libs demo_value) ^^ 9) (shared_init (empty_store []) (\<lambda>_. None)) sh
    \<and> (\<forall>t. sh_threads sh t = Idle) \<and> sh_lost sh = {} \<and> ls_pending_chunks (sh_store sh) = []
    \<and> sh_log sh = [(1, Put_Returned hash_a (Inr loc)), (0, Put_Returned hash_a (Inr loc)), (0, Flushed (Inr ()))]"
proof -
  let ?P = "chunk_entry demo_libs demo_value" and ?e = "full_entry hash_a chunk_a" and ?i = "ls_next_pack_id demo_put"
  obtain s5 loc where run: "(shared_step demo_libs ?P ^^ 5) (shared_init (empty_store []) (\<lambda>_. None)) s5"
    and s5: "sh_store s5 = demo_put" "\<forall>t. sh_threads s5 t = Idle" "sh_lost s5 = {}"
    "sh_log s5 = [(1, Put_Returned hash_a (Inr loc)), (0, Put_Returned hash_a (Inr loc))]"
    using demo_both_put by blast
  note put = demo_pending
  let ?s6 = "drain 0 Flush_Task s5"
  have 6: "shared_step demo_libs ?P s5 ?s6"
    using flush_call [of s5 0 demo_libs ?P] by (simp add: flush_begin_def s5 put)
  obtain m dir where w: "flush_write demo_libs io_fine [pack_entry_of ?e] ?i (ls_dir demo_put) = (Inr m, dir)"
    using demo_flush_ok by (auto simp: local_flush_def run_flush_def flush_prepare_def Let_def put split: prod.splits sum.splits)
  let ?s7 = "write_drained demo_libs io_fine 0 ?i [pack_entry_of ?e] Flush_Task ?s6"
  have 7: "shared_step demo_libs ?P ?s6 ?s7" by (rule file_written) (simp add: drain_simps s5 put)
  have s7: "sh_threads ?s7 = (sh_threads s5)(0 := Adding ?i m Flush_Task)" "sh_log ?s7 = sh_log s5" "sh_lost ?s7 = {}"
    "ls_pending_chunks (sh_store ?s7) = []"
    using w by (simp_all add: write_drained_def drain_simps s5 Let_def)
  let ?s8 = "add_pack 0 ?i m Flush_Task ?s7"
  have 8: "shared_step demo_libs ?P ?s7 ?s8" by (rule pack_added) (simp add: s7)
  let ?s9 = "return_from 0 (Flushed (Inr ())) ?s8"
  have 9: "shared_step demo_libs ?P ?s8 ?s9"
    using call_returns [of ?s8 0 Flush_Task demo_libs ?P] by (simp add: add_pack_def)
  have "(shared_step demo_libs ?P ^^ 4) s5 ?s9"
    unfolding numeral_eq_Suc pred_numeral_simps BitM.simps
    using 6 7 8 9 by (meson relpowp_0_I relpowp_Suc_I)
  with run have "(shared_step demo_libs ?P ^^ (5 + 4)) (shared_init (empty_store []) (\<lambda>_. None)) ?s9"
    unfolding relpowp_add by blast
  then show ?thesis
    using s7 s5 by (intro exI [of _ ?s9] exI [of _ loc]) (simp add: add_pack_def)
qed

lemma concurrent_store_safe_witness:
  "\<exists>sh st2. (shared_step demo_libs (chunk_entry demo_libs demo_value) ^^ 9) (shared_init (empty_store []) (\<lambda>_. None)) sh
    \<and> local_get demo_libs (sh_index sh) (sh_store sh) hash_a = Inr chunk_a
    \<and> store_open_local demo_libs demo_keyed [] (Some (ls_dir (sh_store sh))) None = Inr st2
    \<and> local_get demo_libs (sr_index st2) (sr_store st2) hash_a = Inr chunk_a"
proof -
  obtain sh loc where sh: "(shared_step demo_libs (chunk_entry demo_libs demo_value) ^^ 9) (shared_init (empty_store []) (\<lambda>_. None)) sh"
    "\<forall>t. sh_threads sh t = Idle" "sh_lost sh = {}" "ls_pending_chunks (sh_store sh) = []"
    "(1, Put_Returned hash_a (Inr loc)) \<in> set (sh_log sh)"
    using demo_race by fastforce
  have "local_serving demo_libs demo_value 9 (empty_store [])" by (rule demo_serving) simp
  moreover have "local_settled (empty_store [])" "dir_complete (empty_store [])" "dom (\<lambda>_. None) = fst ` kinds (empty_store [])"
    by (simp_all add: empty_store_def local_settled_def dir_complete_def kinds_def)
  ultimately show ?thesis
    using concurrent_store_safe [of demo_libs demo_value 9 "empty_store []" "\<lambda>_. None" sh hash_a 1 loc demo_keyed "[]" None] sh
    by (auto simp: demo_value_def)
qed

text \<open>Thread 0 puts a chunk, thread 1 drains it, and the flush of thread 0 finds nothing to do.\<close>

lemma put_and_learned:
  fixes h :: hash and data :: bytes and L :: libs and P :: "pending_entry \<Rightarrow> bool"
  defines "entry \<equiv> full_entry h data"
  defines "loc \<equiv> placeholder (append_entry (empty_store []) entry) (pd_orig_length entry)"
  assumes "length data < 16 * 1024 * 1024" and "P entry"
  shows "(shared_step L P)\<^sup>*\<^sup>* (shared_init (empty_store []) (\<lambda>_. None))
    \<lparr>sh_store = append_entry (empty_store []) entry, sh_index = [h \<mapsto> loc], sh_threads = \<lambda>_. Idle,
     sh_log = [(0, Put_Returned h (Inr loc))], sh_lost = {}\<rparr>"
proof -
  let ?st = "append_entry (empty_store []) entry" and ?task = "Put_Task h (pd_orig_length entry)"
  define s1 where "s1 = proceed 0 (Putting entry) (shared_init (empty_store []) (\<lambda>_. None))"
  define s2 where "s2 = proceed 0 (Returning ?task) (s1\<lparr>sh_store := ?st\<rparr>)"
  define s3 where "s3 = return_from 0 (Put_Returned h (Inr loc)) s2"
  define s4 where "s4 = s3\<lparr>sh_index := (sh_index s3)(h \<mapsto> loc)\<rparr>"
  have hash: "pd_hash entry = h" by (simp add: entry_def full_entry_def)
  have small: "\<not> ls_pack_target_size ?st \<le> ls_pending_size ?st"
    using assms(3) by (simp add: append_entry_def empty_store_def entry_def full_entry_def word_le_nat_alt unat_of_nat_u64)
  have store: "sh_store s1 = empty_store []" "sh_store s2 = ?st" "sh_store s3 = ?st" "sh_store s4 = ?st"
    by (simp_all add: s1_def s2_def s3_def s4_def shared_init_def)
  have pend: "ls_pending_chunks ?st = [entry]" "ls_pending_chunks (empty_store []) = []"
    by (simp_all add: append_entry_def empty_store_def)
  have "shared_step L P (shared_init (empty_store []) (\<lambda>_. None)) (put_begin 0 entry (shared_init (empty_store []) (\<lambda>_. None)))"
    by (rule put_call) (use assms(4) in \<open>simp_all add: shared_init_def\<close>)
  then have step1: "shared_step L P (shared_init (empty_store []) (\<lambda>_. None)) s1"
    by (simp add: put_begin_def shared_init_def lookup_index_def s1_def)
  have "put_locked 0 entry s1 = s2"
    using small by (simp only: put_locked_def store pend hash Let_def s2_def) (simp add: store)
  then have step2: "shared_step L P s1 s2"
    using put_lock [of s1 0 entry L P] by (simp add: s1_def)
  have step3: "shared_step L P s2 s3"
    using call_returns [of s2 0 ?task L P] unfolding s3_def store loc_def by (simp add: s2_def)
  have step4: "shared_step L P s3 s4"
    unfolding s4_def by (rule index_learns [of 0]) (simp add: s3_def)
  have "(shared_step L P)\<^sup>*\<^sup>* (shared_init (empty_store []) (\<lambda>_. None)) s4"
    using step1 step2 step3 step4 by (meson converse_rtranclp_into_rtranclp rtranclp.rtrancl_refl)
  moreover have "s4 = \<lparr>sh_store = ?st, sh_index = [h \<mapsto> loc], sh_threads = \<lambda>_. Idle,
      sh_log = [(0, Put_Returned h (Inr loc))], sh_lost = {}\<rparr>"
    by (simp add: s1_def s2_def s3_def s4_def shared_init_def proceed_def return_from_def fun_eq_iff)
  ultimately show ?thesis by simp
qed

lemma drained_by_other:
  fixes h :: hash and data :: bytes and L :: libs and P :: "pending_entry \<Rightarrow> bool"
  defines "entry \<equiv> full_entry h data"
  defines "loc \<equiv> placeholder (append_entry (empty_store []) entry) (pd_orig_length entry)"
  assumes "length data < 16 * 1024 * 1024" and "P entry"
  shows "(shared_step L P)\<^sup>*\<^sup>* (shared_init (empty_store []) (\<lambda>_. None))
    \<lparr>sh_store = (empty_store [])\<lparr>ls_next_pack_id := 1\<rparr>, sh_index = [h \<mapsto> loc],
     sh_threads = (\<lambda>_. Idle)(1 := Flushing 0 [pack_entry_of entry] Flush_Task),
     sh_log = [(0, Put_Returned h (Inr loc)), (0, Flushed (Inr ()))], sh_lost = {}\<rparr>"
proof -
  define s4 where "s4 = \<lparr>sh_store = append_entry (empty_store []) entry, sh_index = [h \<mapsto> loc], sh_threads = \<lambda>_. Idle,
     sh_log = [(0, Put_Returned h (Inr loc))], sh_lost = {}\<rparr>"
  define s5 where "s5 = drain 1 Flush_Task s4"
  have put: "(shared_step L P)\<^sup>*\<^sup>* (shared_init (empty_store []) (\<lambda>_. None)) s4"
    using put_and_learned [where h = h and data = data and L = L and P = P] assms(3,4)
    unfolding s4_def loc_def entry_def by blast
  have pend: "ls_pending_chunks (sh_store s4) = [entry]" by (simp add: s4_def append_entry_def empty_store_def)
  have "shared_step L P s4 s5"
    using flush_call [of s4 1 L P] by (simp add: flush_begin_def pend s5_def) (simp add: s4_def)
  moreover have "shared_step L P s5 (return_from 0 (Flushed (Inr ())) s5)"
    using flush_call [of s5 0 L P] by (simp add: flush_begin_def s5_def drain_simps) (simp add: s4_def)
  moreover have "return_from 0 (Flushed (Inr ())) s5 =
    \<lparr>sh_store = (empty_store [])\<lparr>ls_next_pack_id := 1\<rparr>, sh_index = [h \<mapsto> loc],
     sh_threads = (\<lambda>_. Idle)(1 := Flushing 0 [pack_entry_of entry] Flush_Task),
     sh_log = [(0, Put_Returned h (Inr loc)), (0, Flushed (Inr ()))], sh_lost = {}\<rparr>"
    unfolding s5_def drain_simps s4_def
    by (auto simp: return_from_def proceed_def append_entry_def empty_store_def fun_eq_iff)
  ultimately show ?thesis using put by (metis rtranclp.rtrancl_into_rtrancl)
qed

text \<open>
  C32. A flush that returns success is no promise to a thread that is not alone: another thread may have
  drained the chunks it has put, so that its own flush finds nothing to do. Until the pack is added the
  chunk cannot be read, although nothing has failed; and when the pack cannot be written, only the
  other thread learns of it, and the chunk is gone.
\<close>

theorem concurrent_flush_not_durable:
  assumes "length data < 16 * 1024 * 1024" and "P (full_entry h data)"
  shows "\<exists>sh1 sh2 loc e. (shared_step L P)\<^sup>*\<^sup>* (shared_init (empty_store []) (\<lambda>_. None)) sh1 \<and> shared_step L P sh1 sh2
    \<and> sh_log sh1 = [(0, Put_Returned h (Inr loc)), (0, Flushed (Inr ()))] \<and> sh_lost sh1 = {}
    \<and> sh_log sh2 = sh_log sh1 @ [(1, Flushed (Inl e))] \<and> (\<forall>t. sh_threads sh2 t = Idle)
    \<and> (\<forall>sh \<in> {sh1, sh2}. sh_index sh h = Some loc
         \<and> local_get L (sh_index sh) (sh_store sh) h = Inl (Err (ChunkNotFound (to_hex h))))"
proof -
  obtain s6 loc where run: "(shared_step L P)\<^sup>*\<^sup>* (shared_init (empty_store []) (\<lambda>_. None)) s6"
    and s6: "s6 = \<lparr>sh_store = (empty_store [])\<lparr>ls_next_pack_id := 1\<rparr>, sh_index = [h \<mapsto> loc],
      sh_threads = (\<lambda>_. Idle)(1 := Flushing 0 [pack_entry_of (full_entry h data)] Flush_Task),
      sh_log = [(0, Put_Returned h (Inr loc)), (0, Flushed (Inr ()))], sh_lost = {}\<rparr>"
    using drained_by_other [where h = h and data = data and L = L and P = P, OF assms] by blast
  let ?torn = "io_fine\<lparr>io_write := Some 0\<rparr>" and ?chunks = "[pack_entry_of (full_entry h data)]"
  let ?s7 = "write_drained L ?torn 1 0 ?chunks Flush_Task s6"
  have last: "shared_step L P s6 ?s7" by (rule file_written) (simp add: s6)
  obtain e dir where w: "flush_write L ?torn ?chunks 0 [] = (Inl e, dir)"
    by (cases "write_pack L ?chunks") (simp_all add: flush_write_def)
  have s7: "sh_log ?s7 = sh_log s6 @ [(1, Flushed (Inl e))]" "\<forall>t. sh_threads ?s7 t = Idle" "sh_index ?s7 = [h \<mapsto> loc]"
    "sh_store ?s7 = (sh_store s6)\<lparr>ls_dir := dir\<rparr>"
    using w by (simp_all add: write_drained_def Let_def s6 empty_store_def)
  have get: "local_get L [h \<mapsto> loc] (st\<lparr>ls_pending_chunks := [], ls_packs := []\<rparr>) h = Inl (Err (ChunkNotFound (to_hex h)))" for st
    by (simp add: local_get_def get_inner.simps lookup_index_def read_from_location_def Let_def)
  have "sh_store s6 = (sh_store s6)\<lparr>ls_pending_chunks := [], ls_packs := []\<rparr>"
    "sh_store ?s7 = (sh_store ?s7)\<lparr>ls_pending_chunks := [], ls_packs := []\<rparr>"
    unfolding s7(4) by (simp_all add: s6 empty_store_def)
  then have "sh_index sh h = Some loc
      \<and> local_get L (sh_index sh) (sh_store sh) h = Inl (Err (ChunkNotFound (to_hex h)))" if "sh \<in> {s6, ?s7}" for sh
    using get [of "sh_store s6"] get [of "sh_store ?s7"] that s7(3) by (auto simp: s6)
  moreover have "sh_log s6 = [(0, Put_Returned h (Inr loc)), (0, Flushed (Inr ()))]" "sh_lost s6 = {}"
    by (simp_all add: s6)
  ultimately show ?thesis using run last s7(1,2) by blast
qed

lemma concurrent_flush_not_durable_witness:
  "\<exists>sh1 sh2 loc e. (shared_step demo_libs (\<lambda>_. True))\<^sup>*\<^sup>* (shared_init (empty_store []) (\<lambda>_. None)) sh1
    \<and> shared_step demo_libs (\<lambda>_. True) sh1 sh2
    \<and> sh_log sh1 = [(0, Put_Returned hash_a (Inr loc)), (0, Flushed (Inr ()))] \<and> sh_lost sh1 = {}
    \<and> sh_log sh2 = sh_log sh1 @ [(1, Flushed (Inl e))] \<and> (\<forall>t. sh_threads sh2 t = Idle)
    \<and> (\<forall>sh \<in> {sh1, sh2}. sh_index sh hash_a = Some loc
         \<and> local_get demo_libs (sh_index sh) (sh_store sh) hash_a = Inl (Err (ChunkNotFound (to_hex hash_a))))"
  by (rule concurrent_flush_not_durable [where P = "\<lambda>_. True" and data = chunk_a]) (simp_all add: chunk_a_def)

end
