(* ===== verification/Cloud_Shadow.thy ===== *)
theory Cloud_Shadow
  imports Cloud_Reopen
begin

text \<open>
  Why \<open>cloud_flush_reopen\<close> asks that no two entries of a pack share offset and length: the offsets of
  full chunks count from the start of the unpacked super-block, those of deltas from the start of the
  file, and \<^verbatim>\<open>read_from_location\<close> of \<^verbatim>\<open>store/cloud.rs\<close> takes the first entry with the offset and the
  length it looks for.
\<close>

text \<open>The data of a full chunk depends on the original length only when it is decompressed.\<close>

lemma full_chunk_data_raw:
  "pl_offset l = pl_offset l' \<Longrightarrow> pl_length l = pl_length l'
    \<Longrightarrow> full_chunk_data L p l True sb = full_chunk_data L p l' True sb"
  by (simp add: full_chunk_data_def read_raw_chunk_def Let_def cong: if_cong split: option.splits)

lemma read_shadowed:
  assumes io: "cloud_io_ok io" and ok: "cache_ok st" and good: "object_good L V (cl_objects st) (pl_pack_id loc) m"
    and first: "List.find (\<lambda>x. ie_offset x = pl_offset loc \<and> ie_length x = pl_length loc) (pm_entries m) = Some e"
    and full: "base_of (ie_entry_type e) = None" "ie_entry_type e = FullRaw \<or> ie_orig_length e = pl_orig_length loc"
    and dig: "Hash (lib_blake3 L (V (ie_hash e))) = ie_hash e" and other: "ie_hash e \<noteq> h"
  shows "\<exists>err st'. read_from_cloud L io get st h loc = (Inl (Err err), st') \<and> cl_packs st' = cl_packs st"
proof -
  have e: "e \<in> set (pm_entries m)" "ie_offset e = pl_offset loc" "ie_length e = pl_length loc"
    using find_Some_in [OF first] by auto
  from good e(1) obtain p ck where p: "map_of (cl_objects st) (object_name (pl_pack_id loc)) = Some p"
    "read_pack L p = Inr (pm_entries m, ck, pm_superblock m)" "entry_good L V p (pm_superblock m) e"
    by (auto simp: object_good_def)
  from read_pack_cached_spec [OF io ok, of "pl_pack_id loc"] p(1) obtain st1 where s1: "cache_step st st1"
    and r1: "read_pack_cached io st (pl_pack_id loc) = (Inr p, st1)" by auto
  have "full_chunk_data L p loc (ie_entry_type e = FullRaw) (pm_superblock m)
      = full_chunk_data L p (entry_location 0 e) (ie_entry_type e = FullRaw) (pm_superblock m)"
  proof (cases "ie_entry_type e = FullRaw")
    case True
    then have raw: "(ie_entry_type e = FullRaw) = True" by simp
    show ?thesis unfolding raw by (rule full_chunk_data_raw) (simp_all add: entry_location_def e)
  next
    case False
    then have "ie_orig_length e = pl_orig_length loc" using full(2) by blast
    then show ?thesis by (intro full_chunk_data_cong) (simp_all add: entry_location_def e)
  qed
  also have "\<dots> = Inr (V (ie_hash e))" using p(3) full(1) by (simp add: entry_good_def)
  finally have data: "full_chunk_data L p loc (ie_entry_type e = FullRaw) (pm_superblock m) = Inr (V (ie_hash e))" .
  from data first p(2) full(1) dig other r1 cache_step_fields(2) [OF s1] show ?thesis
    by (simp add: read_from_cloud_def base_and_raw_eq extract_chunk_def Let_def)
qed

text \<open>
  C34. A chunk can be hidden by another one of its pack. After the same flush and reopening as in
  \<open>cloud_flush_reopen\<close>, let the index lead a hash to the offset and length of an earlier entry of the pack, a
  full chunk of another hash. Then the chunk cannot be read: \<open>get\<close> reads the other chunk, finds that
  the digest differs, scans the loaded packs, of which there are none, and reports that the chunk is
  not found, although the pack that holds it is in the bucket.
\<close>

theorem shadowed_delta_unreadable:
  assumes "cloud_serving L io V (Suc n) st" and "cl_pending_chunks st \<noteq> []"
    and "cloud_flush L io st = (Inr (), st1)" and "meta_codec_ok io"
    and "cache_ok (cloud_fresh_store (cl_objects st1) cache)"
    and "cloud_open L keyed io (cl_objects st1) cache (hi_new 1000000) = Inr (st2, ix)"
    and "index_lookup keyed ix h = Some loc" and "(pl_pack_id loc, m) \<in> set (cl_packs st1)"
    and "List.find (\<lambda>x. ie_offset x = pl_offset loc \<and> ie_length x = pl_length loc) (pm_entries m) = Some e"
    and "base_of (ie_entry_type e) = None" and "ie_entry_type e = FullRaw \<or> ie_orig_length e = pl_orig_length loc"
    and "ie_hash e \<noteq> h"
  shows "fst (cloud_get L io (index_lookup keyed ix) st2 h) = Inl (Err (ChunkNotFound (to_hex h)))"
proof -
  from assms(2,3) obtain pid where run: "cloud_run_flush L io st = (Inr pid, st1)"
    by (auto simp: cloud_flush_def res_simps)
  from cloud_flush_keeps [OF assms(1,3)] have st1: "cloud_io_ok io" "cloud_inv L V st1"
    "cl_pending_chunks st1 = []" by (auto simp: cloud_serving_def cloud_settled_def)
  have e: "e \<in> set (pm_entries m)" using find_Some_in [OF assms(9)] by simp
  then have "(ie_hash e, base_of (ie_entry_type e)) \<in> packs_kinds (cl_packs st1)"
    using assms(8) by (force simp: packs_kinds_def pack_kinds_def)
  then have g: "genuine L V (ie_hash e)" and "packs_meta (cl_packs st1) \<noteq> []"
    using st1(2) packs_kinds_meta by (force simp: cloud_inv_def ckinds_def)+
  with run_flush_meta [OF run assms(4)] st1(1)
  have "read_meta_index io (cl_objects st1) = Some (packs_meta (cl_packs st1))" by (simp add: cloud_io_ok_def)
  from open_from_meta [OF this, of L keyed cache] assms(6) obtain nid where
    st2: "st2 = (cloud_fresh_store (cl_objects st1) cache)\<lparr>cl_next_pack_id := nid\<rparr>" by auto
  have ok: "cache_ok st2" using assms(5) by (simp add: st2 cache_ok_def)
  have good: "object_good L V (cl_objects st2) (pl_pack_id loc) m"
    using inv_object_good [OF st1(2) assms(8)] by (simp add: st2)
  have dig: "Hash (lib_blake3 L (V (ie_hash e))) = ie_hash e" using g by (simp add: genuine_def)
  from read_shadowed [OF st1(1) ok good assms(9-11) dig assms(12)] obtain err st' where
    "read_from_cloud L io (\<lambda>st b. cloud_get_inner L io (index_lookup keyed ix) (Suc 0) st b) st2 h loc = (Inl (Err err), st')"
    "cl_packs st' = cl_packs st2" by blast
  then show ?thesis using assms(7)
    by (simp add: cloud_get_def cloud_get_inner.simps [of _ _ _ 0] cloud_scan_def st2)
qed

text \<open>
  Ten bytes, three and, as a delta against the three, two: the super-block of the first two is ten bytes
  long when compressed, so that the delta begins in the file where the second chunk begins in the
  unpacked super-block, and its frame happens to have the length of that chunk.
\<close>

definition hash_w :: hash where "hash_w = Hash (replicate 32 3)"

definition chunk_w :: bytes where "chunk_w = [5, 5, 5, 5, 5, 5, 5, 5, 5, 5]"

definition shadow_libs :: libs where
  "shadow_libs = demo_libs\<lparr>lib_blake3 := (\<lambda>d. if d = chunk_w then replicate 32 3 else lib_blake3 demo_libs d)\<rparr>"

definition shadow_value :: "hash \<Rightarrow> bytes" where
  "shadow_value h = (if h = hash_w then chunk_w else demo_value h)"

definition delta_entry :: pending_entry where
  "delta_entry = \<lparr>pd_hash = hash_b, pd_data = [1, 6, 7], pd_orig_length = 2, pd_entry_type = Delta hash_a, pd_signature = None\<rparr>"

definition shadow_store :: cloud_store where
  "shadow_store = (cloud_fresh_store [] None)\<lparr>
     cl_pending_chunks := [full_entry hash_w chunk_w, full_entry hash_a chunk_a, delta_entry], cl_pending_size := 16\<rparr>"

definition shadow_index :: "index_entry list" where
  "shadow_index =
     [\<lparr>ie_hash = hash_w, ie_offset = 0, ie_length = 10, ie_orig_length = 10, ie_entry_type = FullRaw, ie_signature = None\<rparr>,
      \<lparr>ie_hash = hash_a, ie_offset = 10, ie_length = 3, ie_orig_length = 3, ie_entry_type = FullRaw, ie_signature = None\<rparr>,
      \<lparr>ie_hash = hash_b, ie_offset = 10, ie_length = 3, ie_orig_length = 2, ie_entry_type = Delta hash_a, ie_signature = None\<rparr>]"

lemma shadow_hashes [simp]: "hash_w \<noteq> hash_a" "hash_w \<noteq> hash_b" "hash_a \<noteq> hash_w" "hash_b \<noteq> hash_w"
  by (simp_all add: hash_w_def hash_a_def hash_b_def numeral_eq_Suc)

lemma shadow_toy: "lib_zstd shadow_libs = toy_zstd" "lib_ser_index shadow_libs = toy_ser" "lib_de_index shadow_libs = toy_de"
  "length (lib_blake3 shadow_libs d) = 32"
  by (simp_all add: shadow_libs_def demo_libs_def toy_libs_def)

lemma shadow_libs_ok: "libs_ok shadow_libs" "packs_fit shadow_libs"
proof -
  show "libs_ok shadow_libs" using demo_libs_ok by (simp add: libs_ok_def shadow_libs_def)
  show "packs_fit shadow_libs" by (rule toy_packs_fit) (simp_all add: shadow_toy)
qed

lemma write_shadow:
  "write_pack shadow_libs (map pack_entry_of (cl_pending_chunks shadow_store))
     = seal_pack shadow_libs ([0, 5, 13, 0, 0, 0, 0, 0, 0, 0] @ [1, 6, 7]) shadow_index"
proof -
  have c: "toy_compress [5, 5, 5, 5, 5, 5, 5, 5, 5, 5] = [0, 5, 10, 0, 0, 0, 0, 0, 0, 0]" "toy_compress [5, 5, 5] = [0, 5, 3, 0, 0, 0, 0, 0, 0, 0]"
    "toy_compress [5, 5, 5, 5, 5, 5, 5, 5, 5, 5, 5, 5, 5] = [0, 5, 13, 0, 0, 0, 0, 0, 0, 0]"
    by (simp_all add: toy_compress_def nat_to_le_numeral)
  have z: "z_compress toy_zstd n d = Some (toy_compress d)" "z_stream toy_zstd n w d = Inr (toy_compress d)" for n w d
    by (simp_all add: toy_zstd_def)
  show ?thesis
    by (simp add: shadow_store_def full_entry_def delta_entry_def pack_entry_of_def write_pack_def store_full_def
        chunk_w_def chunk_a_def is_high_entropy_def shadow_toy z c write_superblock_def shadow_index_def Let_def)
qed

lemma shadow_pack:
  "\<exists>p ck sb. write_pack shadow_libs (map pack_entry_of (cl_pending_chunks shadow_store)) = Inr p
     \<and> read_pack shadow_libs p = Inr (shadow_index, ck, sb)"
proof -
  let ?raw = "[0, 5, 13, 0, 0, 0, 0, 0, 0, 0] @ [1, 6, 7] :: bytes"
  obtain p where p: "seal_pack shadow_libs ?raw shadow_index = Inr p"
    by (simp add: seal_pack_def shadow_toy toy_ser_def shadow_index_def small_entry_def hash_w_def hash_a_def hash_b_def Let_def)
  have len: "length p < 2 ^ 32"
  proof -
    have "sum_list (map (\<lambda>e. length (pe_data e)) (map pack_entry_of (cl_pending_chunks shadow_store))) < 2 ^ 25"
      by (simp add: shadow_store_def full_entry_def delta_entry_def pack_entry_of_def chunk_w_def chunk_a_def)
    then show ?thesis using shadow_libs_ok(2) write_shadow p unfolding packs_fit_def by metis
  qed
  from read_sealed [OF shadow_libs_ok(1) p len] obtain rest ck where r: "p = ?raw @ rest"
    "read_pack shadow_libs p = bind_res (read_superblock shadow_libs p (length ?raw) shadow_index)
      (\<lambda>sb. Inr (shadow_index, ck, sb))" by (elim exE conjE) (rule that)
  have "toy_decompress [0, 5, 13, 0, 0, 0, 0, 0, 0, 0] 13 = Some (replicate 13 5)" by (simp add: toy_decompress_def)
  then obtain sb where "read_superblock shadow_libs (?raw @ rest)
      (length ?raw) shadow_index = Inr sb"
    by (simp add: read_superblock_def shadow_index_def superblock_end_def superblock_size_def is_delta_def
        entry_end_def slice_def shadow_toy toy_zstd_def)
  then have "read_pack shadow_libs p = Inr (shadow_index, ck, sb)"
    unfolding r(2) unfolding r(1) by (simp only: bind_res_simps)
  then show ?thesis using write_shadow p by auto
qed

lemma shadow_flush: "\<exists>st1. cloud_flush shadow_libs demo_cloud_io shadow_store = (Inr (), st1)"
proof -
  obtain p ck sb where p: "write_pack shadow_libs (map pack_entry_of (cl_pending_chunks shadow_store)) = Inr p"
    "read_pack shadow_libs p = Inr (shadow_index, ck, sb)" using shadow_pack by blast
  have "cl_pending_chunks shadow_store \<noteq> []" "cl_packs shadow_store = []" "cl_cache shadow_store = None"
    by (simp_all add: shadow_store_def)
  with p show ?thesis
    by (simp add: cloud_flush_def cloud_run_flush_def cloud_flush_prepare_def cloud_flush_write_def write_meta_index_def
        object_write_def demo_cloud_io_def meta_of_def Let_def shadow_index_def hash_w_def hash_a_def hash_b_def)
qed

lemma shadow_serving: "cloud_serving shadow_libs demo_cloud_io shadow_value (Suc 4) shadow_store"
proof -
  have d: "chunk_w \<noteq> chunk_a" "chunk_w \<noteq> chunk_b" "replicate 32 i = replicate 32 j \<longleftrightarrow> i = j" for i j :: u8
    by (simp_all add: chunk_w_def chunk_a_def chunk_b_def)
  then have g: "genuine shadow_libs shadow_value h" if "h \<in> {hash_w, hash_a, hash_b}" for h
    using that unfolding genuine_def shadow_libs_def demo_libs_def shadow_value_def demo_value_def hash_w_def hash_a_def hash_b_def
    by (auto split: if_splits)
  have k: "ckinds shadow_store = {(hash_w, None), (hash_a, None), (hash_b, Some hash_a)}"
    by (simp add: ckinds_def pending_kinds_def shadow_store_def full_entry_def delta_entry_def base_of_def)
  have "pending_good shadow_libs shadow_value e" if "e \<in> set (cl_pending_chunks shadow_store)" for e
    using that by (auto simp: shadow_store_def full_entry_def delta_entry_def pending_good_def base_of_def shadow_value_def
        demo_value_def chunk_w_def chunk_a_def chunk_b_def shadow_toy toy_zstd_def)
  then have "cloud_inv shadow_libs shadow_value shadow_store"
    using g by (auto simp: cloud_inv_def k kinds_ok_def bucket_loaded_def cache_ok_def) (auto simp: shadow_store_def)
  then show ?thesis
    by (simp add: cloud_serving_def shadow_libs_ok demo_cloud_io_ok)
      (simp add: shadow_store_def cloud_fresh_def cloud_sizes_def DEFAULT_PACK_TARGET_def full_entry_def delta_entry_def
        chunk_w_def chunk_a_def)
qed

theorem shadowed_delta_unreadable_witness:
  "\<exists>st1 st2 ix. cloud_flush shadow_libs demo_cloud_io shadow_store = (Inr (), st1)
     \<and> cloud_open shadow_libs demo_keyed demo_cloud_io (cl_objects st1) None (hi_new 1000000) = Inr (st2, ix)
     \<and> (hash_b, Some hash_a) \<in> ckinds shadow_store
     \<and> fst (cloud_get shadow_libs demo_cloud_io (index_lookup demo_keyed ix) st2 hash_b) = Inl (Err (ChunkNotFound (to_hex hash_b)))"
proof -
  obtain st1 where fl: "cloud_flush shadow_libs demo_cloud_io shadow_store = (Inr (), st1)" using shadow_flush by blast
  have ne: "cl_pending_chunks shadow_store \<noteq> []" "cl_packs shadow_store = []" "cl_next_pack_id shadow_store = 0"
    by (simp_all add: shadow_store_def)
  from fl ne(1) obtain pid where run: "cloud_run_flush shadow_libs demo_cloud_io shadow_store = (Inr pid, st1)"
    by (auto simp: cloud_flush_def res_simps)
  obtain p m ck where f: "pid = 0" "write_pack shadow_libs (map pack_entry_of (cl_pending_chunks shadow_store)) = Inr p"
    "read_pack shadow_libs p = Inr (pm_entries m, ck, pm_superblock m)" "cl_packs st1 = [(pid, m)]"
    by (rule cloud_run_flush_Inr [OF run ne(1)]) (use ne in simp_all)
  have m: "pm_entries m = shadow_index" using shadow_pack f(2,3) by auto
  have meta: "read_meta_index demo_cloud_io (cl_objects st1) = Some (packs_meta (cl_packs st1))"
    by (rule run_flush_meta [OF run demo_codec])
      (simp_all add: demo_cloud_io_def f(4) packs_meta_def m shadow_index_def)
  from open_from_meta [OF meta, of shadow_libs demo_keyed None] obtain st2 ix where
    o: "cloud_open shadow_libs demo_keyed demo_cloud_io (cl_objects st1) None (hi_new 1000000) = Inr (st2, ix)"
    and ix: "index_lookup demo_keyed ix = map_of (rev (map meta_location (packs_meta (cl_packs st1))))" by blast
  let ?loc = "\<lparr>pl_pack_id = 0, pl_offset = 10, pl_length = 3, pl_orig_length = 2\<rparr> :: pack_location"
  have "index_lookup demo_keyed ix hash_b = Some ?loc"
    unfolding ix by (simp add: f(1,4) packs_meta_def m shadow_index_def entry_location_def)
  moreover have "(pl_pack_id ?loc, m) \<in> set (cl_packs st1)" by (simp add: f(1,4))
  moreover have "List.find (\<lambda>x. ie_offset x = pl_offset ?loc \<and> ie_length x = pl_length ?loc) (pm_entries m)
      = Some (shadow_index ! 1)" by (simp add: m shadow_index_def)
  moreover have "base_of (ie_entry_type (shadow_index ! 1)) = None" "ie_entry_type (shadow_index ! 1) = FullRaw"
    "ie_hash (shadow_index ! 1) \<noteq> hash_b"
    by (simp_all add: shadow_index_def base_of_def)
  ultimately have "fst (cloud_get shadow_libs demo_cloud_io (index_lookup demo_keyed ix) st2 hash_b) = Inl (Err (ChunkNotFound (to_hex hash_b)))"
    using shadowed_delta_unreadable [OF shadow_serving ne(1) fl demo_codec no_cache_ok o] by blast
  moreover have "(hash_b, Some hash_a) \<in> ckinds shadow_store"
    by (simp add: ckinds_def pending_kinds_def shadow_store_def full_entry_def delta_entry_def base_of_def)
  ultimately show ?thesis using fl o by blast
qed

end
