(* ===== verification/Spec2Isabelle.thy ===== *)
theory Spec2Isabelle
  imports Prelude Types Chunking Hash_Index Super_Feature Palantir Similarity_Stage Delta Pack
    Content_Store Local_Store Pipeline Backup_Runs Cloud_Store Cloud_Contract Cloud_Reopen Store_Config
    Store_Api Crash_Safety Store_Backup History Store_Open Float_Stats Cli Migrate Cli_Cloud
    Local_Concurrent Concurrent_Store Cloud_Shadow
begin

text \<open>
  Packt is a deduplicating backup tool. A backup cuts a file into chunks whose borders depend on the
  contents, names each chunk by its BLAKE3 digest, stores every chunk once, compresses a chunk that
  resembles a stored one as a delta against it, packs the chunks into files of about 16 MiB, and
  writes a manifest that lists the digests. A restore reads the manifest and the chunks. This
  library models \<^verbatim>\<open>packt-lib\<close>, the library behind the program, and the command line on it, and
  proves that what is backed up is what is restored; file names below are relative to
  \<^verbatim>\<open>src/packt-lib/src\<close>.

  \<^bold>\<open>The parts and their theories.\<close>

    \<^item> \<open>Prelude\<close>, \<open>Types\<close>: machine integers, byte strings, slices that can panic, the errors of
      \<^verbatim>\<open>error.rs\<close>, results with their binds, little-endian numbers; the hashes with their hex form
      and the chunk configuration of \<^verbatim>\<open>types.rs\<close>.
    \<^item> \<open>Chunking\<close>: \<^verbatim>\<open>chunking/fastcdc.rs\<close> and the hashers, with the locale \<open>chunker\<close>.
    \<^item> \<open>Hash_Index\<close>: the dedup index of \<^verbatim>\<open>index/\<close>, a Bloom filter before a map, with the
      locale \<open>dedup_index\<close> of what an index promises.
    \<^item> \<open>Super_Feature\<close>, \<open>Palantir\<close>, \<open>Similarity_Stage\<close>: the signatures of chunks, the
      similarity index with its LRU order and its shards (\<^verbatim>\<open>similarity/\<close>), and the stage of the
      pipeline that asks it (\<^verbatim>\<open>pipeline/similarity_stage.rs\<close>).
    \<^item> \<open>Delta\<close>, \<open>Pack\<close>: delta compression and the format of packs, in its three versions
      (\<^verbatim>\<open>store/delta.rs\<close>, \<^verbatim>\<open>store/pack.rs\<close>).
    \<^item> \<open>Content_Store\<close>: the trait \<^verbatim>\<open>ContentStore\<close> as a record of operations, and the locale
      \<open>content_store_contract\<close> of what the pipeline needs of a store.
    \<^item> \<open>Local_Store\<close>: the store on a directory (\<^verbatim>\<open>store/local.rs\<close>), its invariant, that it keeps
      the contract, that a flush is durable and atomic.
    \<^item> \<open>Cloud_Store\<close>, \<open>Cloud_Contract\<close>, \<open>Cloud_Reopen\<close>, \<open>Cloud_Shadow\<close>: the store on an object service with its
      cache (\<^verbatim>\<open>store/cloud.rs\<close>), that it keeps the same contract, and what is found and lost
      when it is opened from its global index.
    \<^item> \<open>Pipeline\<close>, \<open>Backup_Runs\<close>: the producer and the writer of \<^verbatim>\<open>pipeline/mod.rs\<close> as one
      step relation, correctness for every store that keeps the contract, termination, statistics.
    \<^item> \<open>Store_Config\<close>, \<open>Store_Api\<close>, \<open>Store_Backup\<close>: URIs and paths, the interface \<^verbatim>\<open>Store\<close>
      with its manifests (\<^verbatim>\<open>store/store_api.rs\<close>), and its properties.
    \<^item> \<open>Crash_Safety\<close>, \<open>History\<close>: a backup whose flushes fail or are cut off at any point, with the
      locale \<open>crash_store_contract\<close>, and histories of a directory: processes open the store one
      after the other, back up files, fail, are killed, or delete files.
    \<^item> \<open>Local_Concurrent\<close>, \<open>Concurrent_Store\<close>: threads that share one local store, with the sections
      that its mutex protects as steps, the invariant of the pack ids and of the chunks that a
      thread carries, and what holds under every interleaving.
    \<^item> \<open>Store_Open\<close>: \<^verbatim>\<open>Store::open\<close> for every kind of store, with the trait object of either store.
    \<^item> \<open>Float_Stats\<close>: the ratios of \<^verbatim>\<open>BackupStats\<close> in rounded arithmetic.
    \<^item> \<open>Cli\<close>, \<open>Migrate\<close>, \<open>Cli_Cloud\<close>: the commands of \<^verbatim>\<open>packt-cli\<close> with their errors and exit codes,
      what a migration guarantees, and the commands on cloud stores.

  \<^bold>\<open>State.\<close> A Rust struct is a record with the contents of its mutexes and atomics; an operation
  returns its result and the next state. A result is an error, a panic, or a value. The two threads
  of a backup share the store, the index and a channel: their atomic steps are the relation \<open>step\<close>,
  and \<open>run_schedule\<close> executes it along a list of threads, so that what is proved of \<open>step\<close> holds
  for every interleaving. The dedup index is passed to the stores as the function of its lookups;
  \<open>Hash_Index\<close> shows that the index is a map, and most theorems about reading hold for whatever
  the index answers. Hash maps that are walked are association lists whose order is arbitrary.
  Arithmetic is on words of the width of the source and wraps.

  \<^bold>\<open>What the groups of lemmas show.\<close> From the bottom: encodings and packs are read back
  (\<open>pack_roundtrip\<close>), a changed pack is accepted in three ways only (\<open>pack_tampering_detected\<close>), a
  delta is decoded to its chunk (\<open>delta_roundtrip\<close>); the dedup index refines a map, and the similarity
  index an LRU cache as long as no live entry is inserted again; each store keeps the
  contract, in which a chunk that was put is read back at once when it is held in full and after a
  flush when it is held as a delta; over that contract \<open>run_correct\<close> shows that a backup that
  succeeds holds the chunks of the file, under every interleaving; and \<open>backup_reopen_restore\<close> puts
  the parts together: a store opened later restores the file byte for byte. \<open>history_restores\<close>
  extends this to any number of backups and deletions, interrupted ones among them: its invariant
  \<open>disk_ok\<close> says of the directory that every file that counts as backed up can be restored, and
  refines the map \<open>F\<close> from names to contents. \<open>concurrent_store_safe\<close> lets any number of threads put
  whole chunks, sign and flush: what was acknowledged is read back when they are done.
  \<open>migrate_preserves\<close> composes restores and backups over two stores. The contract is interpreted for the local store, again for the local store with a
  directory that can be reopened, for the cloud store, and for the trait object on either.

  \<^bold>\<open>Bounds and fuel.\<close> A chain of deltas is followed to depth 16, as in the code, and the recursion
  of \<open>get_inner\<close> ends there; the theorems about reading need depth one, as deltas are made against
  chunks held in full. A rename is retried ten times. The channel has 64 places; a run has at most
  three steps for each chunk and three more. Chunks have at most a mebibyte, the largest size the
  configuration admits, and \<open>packs_fit\<close> states that a pack of less than 32 MiB of contents has less
  than 4 GiB with its index. The index of a store is made for a million entries. The similarity index
  of a fresh stage has room for 250000 chunks in each shard: the correctness theorems ask that the
  file has no more, so that no base is evicted within a run. Pack ids are 32-bit numbers, and the
  theorems ask that enough are left. A history has at most ten packs, named 0 to 9, whenever a
  process opens the store (\<open>few_packs\<close>): with more, the next id is one in use. A migration has at
  most 17000 files, so that the pack ids suffice for any number of flushes within these bounds.

  \<^bold>\<open>Parameters.\<close> Code of other crates is a parameter with its documented behaviour as a hypothesis:
  BLAKE3 and its keyed form, zstd (\<open>zstd_ok\<close>: what is compressed is decompressed; \<open>zstd_bounded\<close>),
  postcard (\<open>libs_ok\<close>, \<open>meta_codec_ok\<close>), \<^verbatim>\<open>serde_json\<close> (\<open>manifest_codec_ok\<close>), xxh3, the windows of
  fastcdc, the eviction of the lru crate, the object service, and the outcomes of file system calls,
  which theorems quantify over. \<open>genuine\<close> says of a hash that only one byte string has it as its
  digest; theorems about stored data ask it of the hashes that occur. A file is the list of chunks
  that the streaming chunker yields for it. What opening finds on the machine is the record \<open>host\<close>;
  \<open>cloud_commands_fail\<close> rests on what \<^verbatim>\<open>opendal\<close> documents, that making a blocking operator fails
  on a thread without a Tokio runtime.

  \<^bold>\<open>Where the code falls short.\<close> Some theorems show behaviour that is hardly meant: a pending delta
  is answered raw, a failed flush loses pending chunks while the index keeps them, a flush succeeds
  while another thread still writes the chunks it should have written, past ten packs the
  next id of a reopened store is one in use, a cloud store opened from its global index drops older
  chunks from it, a damaged file of the cache is trusted for good, near duplicates are found only
  within a shard, an entry that is inserted again costs the similarity index the room of one, a pack can
  be rewritten as one of version 2, a delta of a reopened cloud store can be hidden by a full chunk,
  statistics depend on timing, relative paths in a manifest are not confined,
  files of the same name, size and time are confused, and the commands work on no cloud store.

  \<^bold>\<open>Not modelled.\<close> The parsing of the arguments by \<^verbatim>\<open>clap\<close>, the log, and how numbers are formatted
  when they are printed; concurrent use of one cloud store, and of one local store beyond whole-chunk
  puts, signatures and flushes (the steps admit deltas, the theorem does not); several stores on one
  directory or bucket (the two stores of a migration are in different places); crashes: a process
  that is killed is modelled between any two steps of its threads and, within a flush, as a flush
  that fails there, and a killed process leaves what it has written, so a loss of power, after which
  data that was not synced is gone, is not;
  paths that reach a manifest by different names; tests and benchmarks.
\<close>

end
